(* ===== verification/Gateway_Prelude.thy ===== *)
theory Gateway_Prelude
  imports Complex_Main "HOL-Library.AList" "HOL-Library.Char_ord" "HOL-Library.List_Lexorder"
begin

text \<open>
  What the components share.

  \<^item> Python's \<open>dict\<close> keeps the order in which keys were first inserted, and several
    components depend on that order (the first registered server wins a name). A dict is
    therefore an association list, updated in place by \<^const>\<open>AList.update\<close> and shortened by
    \<^const>\<open>AList.delete\<close>; the locale \<open>keyed_store\<close> states what a component relies on and is
    interpreted on these two operations.
  \<^item> Floats (times, rates, token counts) are exact rationals: \<open>seconds\<close>. Python's \<open>round\<close>
    (ties to even) is \<open>py_round\<close>.
  \<^item> Step systems: \<open>reachable\<close>, and the locales \<open>invariant_system\<close> and \<open>det_machine\<close> that lift
    a one-step invariant to every reachable state and to every run.
\<close>

named_theorems gateway_simps "unfolding equations of the operations of the gateway"

type_synonym seconds = rat

section \<open>Dictionaries\<close>

type_synonym ('k, 'v) dict = "('k \<times> 'v) list"

abbreviation dict_get :: "('k, 'v) dict \<Rightarrow> 'k \<Rightarrow> 'v option" where
  "dict_get d k \<equiv> map_of d k"

abbreviation dict_put :: "'k \<Rightarrow> 'v \<Rightarrow> ('k, 'v) dict \<Rightarrow> ('k, 'v) dict" where
  "dict_put k v d \<equiv> AList.update k v d"

abbreviation dict_del :: "'k \<Rightarrow> ('k, 'v) dict \<Rightarrow> ('k, 'v) dict" where
  "dict_del k d \<equiv> AList.delete k d"

abbreviation dict_keys :: "('k, 'v) dict \<Rightarrow> 'k list" where
  "dict_keys d \<equiv> map fst d"

definition dict_get_default :: "('k, 'v) dict \<Rightarrow> 'k \<Rightarrow> 'v \<Rightarrow> 'v" where
  \<comment> \<open>\<open>d.get(k, default)\<close>\<close>
  "dict_get_default d k v = (case dict_get d k of None \<Rightarrow> v | Some x \<Rightarrow> x)"

definition get_or_create :: "('k, 'v) dict \<Rightarrow> 'k \<Rightarrow> 'v \<Rightarrow> 'v \<times> ('k, 'v) dict" where
  \<comment> \<open>\<open>if k not in d: d[k] = v\<close> followed by \<open>return d[k]\<close>\<close>
  "get_or_create d k v = (case dict_get d k of None \<Rightarrow> (v, dict_put k v d) | Some x \<Rightarrow> (x, d))"

text \<open>What a component relies on when it keeps its objects in a dict.\<close>

locale keyed_store =
  fixes get :: "'m \<Rightarrow> 'k \<Rightarrow> 'v option"
    and put :: "'k \<Rightarrow> 'v \<Rightarrow> 'm \<Rightarrow> 'm"
    and del :: "'k \<Rightarrow> 'm \<Rightarrow> 'm"
  assumes get_put: "get (put k v m) j = (if j = k then Some v else get m j)"
    and get_del: "get (del k m) j = (if j = k then None else get m j)"
begin

lemma get_put_same: "get (put k v m) k = Some v"
  by (simp add: get_put)

lemma get_put_other: "j \<noteq> k \<Longrightarrow> get (put k v m) j = get m j"
  by (simp add: get_put)

lemma get_del_same: "get (del k m) k = None"
  by (simp add: get_del)

lemma get_del_other: "j \<noteq> k \<Longrightarrow> get (del k m) j = get m j"
  by (simp add: get_del)

lemma put_preserves_all:
  assumes "\<And>j w. get m j = Some w \<Longrightarrow> P j w" and "P k v" and "get (put k v m) j = Some w"
  shows "P j w"
  using assms by (cases "j = k") (auto simp: get_put)

lemma del_preserves_all:
  assumes "\<And>j w. get m j = Some w \<Longrightarrow> P j w" and "get (del k m) j = Some w"
  shows "P j w"
  using assms by (auto simp: get_del split: if_splits)

end

interpretation dict: keyed_store map_of AList.update AList.delete
  by unfold_locales (auto simp: update_conv' delete_conv')

lemma get_or_create_get [gateway_simps]:
  "get_or_create d k v = (x, d') \<Longrightarrow> dict_get d' k = Some x"
  by (auto simp: get_or_create_def dict.get_put_same split: option.splits)

lemma get_or_create_other:
  "get_or_create d k v = (x, d') \<Longrightarrow> j \<noteq> k \<Longrightarrow> dict_get d' j = dict_get d j"
  by (auto simp: get_or_create_def dict.get_put_other split: option.splits)

lemma dict_get_mem: "dict_get d k = Some v \<Longrightarrow> (k, v) \<in> set d"
  by (rule map_of_SomeD)

lemma dict_values_put:
  assumes "(j, w) \<in> set (dict_put k v d)"
  shows "(j = k \<and> w = v) \<or> (j, w) \<in> set d"
  using assms by (induction d) (auto split: if_splits)

lemma dict_values_del: "p \<in> set (dict_del k d) \<Longrightarrow> p \<in> set d"
  by (auto simp: AList.delete_eq)

section \<open>Loops over lists\<close>

fun first_some :: "('a \<Rightarrow> 'b option) \<Rightarrow> 'a list \<Rightarrow> 'b option" where
  \<comment> \<open>a loop that leaves at the first element for which the body raises or returns\<close>
  "first_some f [] = None"
| "first_some f (x # xs) = (case f x of None \<Rightarrow> first_some f xs | Some y \<Rightarrow> Some y)"

lemma first_some_None [simp]: "first_some f xs = None \<longleftrightarrow> (\<forall>x \<in> set xs. f x = None)"
  by (induction xs) (auto split: option.splits)

lemma first_some_Some:
  "first_some f xs = Some y \<longleftrightarrow>
   (\<exists>us x vs. xs = us @ x # vs \<and> f x = Some y \<and> (\<forall>u \<in> set us. f u = None))"
proof (induction xs)
  case Nil
  then show ?case by simp
next
  case (Cons a xs)
  show ?case
  proof (cases "f a")
    case None
    then have "first_some f (a # xs) = Some y \<longleftrightarrow>
        (\<exists>us x vs. xs = us @ x # vs \<and> f x = Some y \<and> (\<forall>u \<in> set us. f u = None))"
      using Cons.IH by simp
    also have "\<dots> \<longleftrightarrow>
        (\<exists>us x vs. a # xs = us @ x # vs \<and> f x = Some y \<and> (\<forall>u \<in> set us. f u = None))"
      (is "?l \<longleftrightarrow> ?r")
    proof
      assume ?l
      then show ?r using None by (metis append_Cons set_ConsD)
    next
      assume ?r
      then obtain us x vs where *: "a # xs = us @ x # vs" "f x = Some y" "\<forall>u \<in> set us. f u = None"
        by blast
      then show ?l using None by (cases us) auto
    qed
    finally show ?thesis .
  next
    case (Some z)
    then show ?thesis
      by (auto simp: Cons_eq_append_conv intro: exI [of _ "[]"])
  qed
qed

fun traverse :: "('a \<Rightarrow> 'e + 'b) \<Rightarrow> 'a list \<Rightarrow> 'e + 'b list" where
  \<comment> \<open>a list comprehension whose element expression may raise\<close>
  "traverse f [] = Inr []"
| "traverse f (x # xs) =
     (case f x of
        Inl e \<Rightarrow> Inl e
      | Inr y \<Rightarrow> (case traverse f xs of Inl e \<Rightarrow> Inl e | Inr ys \<Rightarrow> Inr (y # ys)))"

lemma traverse_Inr:
  "traverse f xs = Inr ys \<longleftrightarrow> list_all2 (\<lambda>x y. f x = Inr y) xs ys"
proof (induction xs arbitrary: ys)
  case Nil
  then show ?case by auto
next
  case (Cons x xs)
  have "traverse f (x # xs) = Inr ys \<longleftrightarrow>
      (\<exists>y zs. f x = Inr y \<and> traverse f xs = Inr zs \<and> ys = y # zs)"
    by (auto split: sum.splits)
  then show ?case using Cons.IH by (auto simp: list_all2_Cons1)
qed

lemma find_key_None: "find (\<lambda>s. f s = k) xs = None \<longleftrightarrow> k \<notin> f ` set xs"
  by (induction xs) auto

section \<open>Rounding\<close>

definition round_half_even :: "rat \<Rightarrow> int" where
  "round_half_even x =
     (let f = \<lfloor>x\<rfloor>; d = x - of_int f
      in if d < 1 / 2 then f else if 1 / 2 < d then f + 1 else if even f then f else f + 1)"

definition py_round :: "rat \<Rightarrow> nat \<Rightarrow> rat" where
  \<comment> \<open>\<open>round(x, n)\<close>\<close>
  "py_round x n = of_int (round_half_even (x * 10 ^ n)) / 10 ^ n"

lemma round_half_even_error: "\<bar>of_int (round_half_even x) - x\<bar> \<le> 1 / 2"
proof -
  have lo: "of_int \<lfloor>x\<rfloor> \<le> x" and hi: "x < of_int \<lfloor>x\<rfloor> + 1"
    by linarith+
  consider "x - of_int \<lfloor>x\<rfloor> < 1 / 2" | "x - of_int \<lfloor>x\<rfloor> = 1 / 2" | "1 / 2 < x - of_int \<lfloor>x\<rfloor>"
    by linarith
  then show ?thesis
    using lo hi by cases (auto simp: round_half_even_def Let_def abs_le_iff)
qed

lemma py_round_error: "\<bar>py_round x n - x\<bar> \<le> 1 / (2 * 10 ^ n)"
proof -
  have "py_round x n - x = (of_int (round_half_even (x * 10 ^ n)) - x * 10 ^ n) / 10 ^ n"
    by (simp add: py_round_def field_simps)
  then have "\<bar>py_round x n - x\<bar> = \<bar>of_int (round_half_even (x * 10 ^ n)) - x * 10 ^ n\<bar> / 10 ^ n"
    by simp
  also have "\<dots> \<le> (1 / 2) / 10 ^ n"
    by (intro divide_right_mono round_half_even_error) simp
  finally show ?thesis by simp
qed

section \<open>Step systems\<close>

inductive reachable :: "('s \<Rightarrow> bool) \<Rightarrow> ('s \<Rightarrow> 'l \<Rightarrow> 's \<Rightarrow> bool) \<Rightarrow> 's \<Rightarrow> bool"
  for init :: "'s \<Rightarrow> bool" and step :: "'s \<Rightarrow> 'l \<Rightarrow> 's \<Rightarrow> bool"
where
  reachable_init: "init s \<Longrightarrow> reachable init step s"
| reachable_step: "reachable init step s \<Longrightarrow> step s l t \<Longrightarrow> reachable init step t"

fun run_events :: "('s \<Rightarrow> 'l \<Rightarrow> 's) \<Rightarrow> 's \<Rightarrow> 'l list \<Rightarrow> 's" where
  "run_events f s [] = s"
| "run_events f s (l # ls) = run_events f (f s l) ls"

lemma run_events_append: "run_events f s (xs @ ys) = run_events f (run_events f s xs) ys"
  by (induction xs arbitrary: s) auto

text \<open>A component whose steps keep an invariant.\<close>

locale invariant_system =
  fixes init :: "'s \<Rightarrow> bool"
    and step :: "'s \<Rightarrow> 'l \<Rightarrow> 's \<Rightarrow> bool"
    and inv :: "'s \<Rightarrow> bool"
  assumes inv_init: "init s \<Longrightarrow> inv s"
    and inv_step: "inv s \<Longrightarrow> step s l t \<Longrightarrow> inv t"
begin

lemma reachable_inv: "reachable init step s \<Longrightarrow> inv s"
  by (induction rule: reachable.induct) (auto intro: inv_init inv_step)

end

text \<open>A component whose operations are functions of the state and the event.\<close>

locale det_machine =
  fixes init :: "'s \<Rightarrow> bool"
    and next_state :: "'s \<Rightarrow> 'l \<Rightarrow> 's"
    and inv :: "'s \<Rightarrow> bool"
  assumes start: "init s \<Longrightarrow> inv s"
    and next_inv: "inv s \<Longrightarrow> inv (next_state s l)"
begin

lemma run_inv: "inv s \<Longrightarrow> inv (run_events next_state s ls)"
  by (induction ls arbitrary: s) (auto intro: next_inv)

lemma run_from_init: "init s \<Longrightarrow> inv (run_events next_state s ls)"
  by (rule run_inv) (rule start)

end

sublocale det_machine \<subseteq> invariant_system init "\<lambda>s l t. t = next_state s l" inv
  by unfold_locales (auto intro: start next_inv)

end
