(* ===== verification/Json_Values.thy ===== *)
theory Json_Values
  imports Gateway_Prelude "HOL-Library.Multiset"
begin

text \<open>
  The JSON-like values that tool arguments and results are made of (\<open>dict\<close>, \<open>list\<close>, \<open>str\<close>,
  \<open>int\<close>, \<open>float\<close>, \<open>bool\<close>, \<open>None\<close>), the strings read off them, Python's truth values, and the
  canonical order of keys that \<open>json.dumps(..., sort_keys=True)\<close> prints.
  Strings are ASCII; floats are finite and exact.
\<close>

datatype json =
    JNull
  | JBool bool
  | JInt int
  | JFloat rat
  | JStr string
  | JList "json list"
  | JDict "(string \<times> json) list"

type_synonym jdict = "(string \<times> json) list"

section \<open>Truth values\<close>

fun truthy :: "json \<Rightarrow> bool" where
  \<comment> \<open>\<open>bool(v)\<close>\<close>
  "truthy JNull = False"
| "truthy (JBool b) = b"
| "truthy (JInt n) = (n \<noteq> 0)"
| "truthy (JFloat x) = (x \<noteq> 0)"
| "truthy (JStr s) = (s \<noteq> [])"
| "truthy (JList xs) = (xs \<noteq> [])"
| "truthy (JDict d) = (d \<noteq> [])"

fun truthy_opt :: "string option \<Rightarrow> bool" where
  \<comment> \<open>\<open>bool(s)\<close> for \<open>s: str | None\<close>\<close>
  "truthy_opt None = False"
| "truthy_opt (Some s) = (s \<noteq> [])"

fun str_or :: "string option \<Rightarrow> string \<Rightarrow> string" where
  \<comment> \<open>\<open>s or t\<close> for \<open>s: str | None\<close>\<close>
  "str_or None t = t"
| "str_or (Some s) t = (if s = [] then t else s)"

lemma str_or_truthy: "truthy_opt s \<Longrightarrow> str_or s t = the s"
  by (cases s) auto

lemma str_or_falsy: "\<not> truthy_opt s \<Longrightarrow> str_or s t = t"
  by (cases s) auto

section \<open>Strings\<close>

definition lower_char :: "char \<Rightarrow> char" where
  "lower_char c = (if CHR ''A'' \<le> c \<and> c \<le> CHR ''Z'' then char_of (of_char c + 32 :: nat) else c)"

definition lower :: "string \<Rightarrow> string" where
  \<comment> \<open>\<open>s.lower()\<close>, on ASCII\<close>
  "lower s = map lower_char s"

text \<open>The letters the function changes, as equations the simplifier evaluates with.\<close>

lemma lower_char_upper [simp]:
  "lower_char CHR ''A'' = CHR ''a''"
  "lower_char CHR ''B'' = CHR ''b''"
  "lower_char CHR ''C'' = CHR ''c''"
  "lower_char CHR ''D'' = CHR ''d''"
  "lower_char CHR ''E'' = CHR ''e''"
  "lower_char CHR ''F'' = CHR ''f''"
  "lower_char CHR ''G'' = CHR ''g''"
  "lower_char CHR ''H'' = CHR ''h''"
  "lower_char CHR ''I'' = CHR ''i''"
  "lower_char CHR ''J'' = CHR ''j''"
  "lower_char CHR ''K'' = CHR ''k''"
  "lower_char CHR ''L'' = CHR ''l''"
  "lower_char CHR ''M'' = CHR ''m''"
  "lower_char CHR ''N'' = CHR ''n''"
  "lower_char CHR ''O'' = CHR ''o''"
  "lower_char CHR ''P'' = CHR ''p''"
  "lower_char CHR ''Q'' = CHR ''q''"
  "lower_char CHR ''R'' = CHR ''r''"
  "lower_char CHR ''S'' = CHR ''s''"
  "lower_char CHR ''T'' = CHR ''t''"
  "lower_char CHR ''U'' = CHR ''u''"
  "lower_char CHR ''V'' = CHR ''v''"
  "lower_char CHR ''W'' = CHR ''w''"
  "lower_char CHR ''X'' = CHR ''x''"
  "lower_char CHR ''Y'' = CHR ''y''"
  "lower_char CHR ''Z'' = CHR ''z''"
  by (code_simp)+

lemma lower_char_other [simp]: "\<not> (CHR ''A'' \<le> c \<and> c \<le> CHR ''Z'') \<Longrightarrow> lower_char c = c"
  by (simp only: lower_char_def if_False)

fun starts_with :: "string \<Rightarrow> string \<Rightarrow> bool" where
  \<comment> \<open>\<open>s.startswith(p)\<close>, with the prefix as first argument\<close>
  "starts_with [] s = True"
| "starts_with (p # ps) [] = False"
| "starts_with (p # ps) (c # s) = (p = c \<and> starts_with ps s)"

fun contains :: "string \<Rightarrow> string \<Rightarrow> bool" where
  \<comment> \<open>\<open>p in s\<close> for strings, with the substring as first argument\<close>
  "contains p [] = (p = [])"
| "contains p (c # s) = (starts_with p (c # s) \<or> contains p s)"

lemma starts_with_iff: "starts_with p s \<longleftrightarrow> (\<exists>r. s = p @ r)"
  by (induction p s rule: starts_with.induct) auto

lemma contains_iff: "contains p s \<longleftrightarrow> (\<exists>u v. s = u @ p @ v)"
proof (induction s)
  case Nil
  then show ?case by simp
next
  case (Cons c s)
  show ?case
  proof
    assume "contains p (c # s)"
    then consider "starts_with p (c # s)" | "contains p s" by auto
    then show "\<exists>u v. c # s = u @ p @ v"
    proof cases
      case 1
      then obtain r where "c # s = [] @ p @ r" by (auto simp: starts_with_iff)
      then show ?thesis by blast
    next
      case 2
      then obtain u v where "c # s = (c # u) @ p @ v" using Cons.IH by auto
      then show ?thesis by blast
    qed
  next
    assume "\<exists>u v. c # s = u @ p @ v"
    then obtain u v where eq: "c # s = u @ p @ v" by blast
    show "contains p (c # s)"
    proof (cases u)
      case Nil
      then have "starts_with p (c # s)" using eq by (auto simp: starts_with_iff)
      then show ?thesis by simp
    next
      case (Cons d u')
      then have "s = u' @ p @ v" using eq by simp
      then show ?thesis using Cons.IH by auto
    qed
  qed
qed

fun join :: "string \<Rightarrow> string list \<Rightarrow> string" where
  \<comment> \<open>\<open>sep.join(parts)\<close>\<close>
  "join sep [] = []"
| "join sep [x] = x"
| "join sep (x # y # zs) = x @ sep @ join sep (y # zs)"

fun show_nat :: "nat \<Rightarrow> string" where
  "show_nat n = (if n < 10 then [char_of (48 + n)] else show_nat (n div 10) @ [char_of (48 + n mod 10)])"

declare show_nat.simps [simp del]

definition show_int :: "int \<Rightarrow> string" where
  \<comment> \<open>\<open>str(n)\<close>\<close>
  "show_int n = (if n < 0 then ''-'' @ show_nat (nat (- n)) else show_nat (nat n))"

lemma show_nat_nonempty: "show_nat n \<noteq> []"
  by (subst show_nat.simps) simp

lemma lower_append: "lower (s @ t) = lower s @ lower t"
  by (simp add: lower_def)

definition py_str :: "(json \<Rightarrow> string) \<Rightarrow> json \<Rightarrow> string" where
  \<comment> \<open>\<open>str(v)\<close>; \<open>repr\<close> prints floats, lists and dicts\<close>
  "py_str repr v =
     (case v of
        JStr s \<Rightarrow> s
      | JInt n \<Rightarrow> show_int n
      | JBool b \<Rightarrow> (if b then ''True'' else ''False'')
      | JNull \<Rightarrow> ''None''
      | _ \<Rightarrow> repr v)"

definition py_float :: "(string \<Rightarrow> string + rat) \<Rightarrow> json \<Rightarrow> string + rat" where
  \<comment> \<open>\<open>float(v)\<close>; \<open>parse\<close> reads a string\<close>
  "py_float parse v =
     (case v of
        JInt n \<Rightarrow> Inr (of_int n)
      | JFloat x \<Rightarrow> Inr x
      | JBool b \<Rightarrow> Inr (if b then 1 else 0)
      | JStr s \<Rightarrow> parse s
      | _ \<Rightarrow> Inl ''TypeError'')"

definition rstrip :: "char \<Rightarrow> string \<Rightarrow> string" where
  \<comment> \<open>\<open>s.rstrip(c)\<close> for one character\<close>
  "rstrip c s = rev (dropWhile (\<lambda>x. x = c) (rev s))"

section \<open>The strings inside a value\<close>

fun iter_strings :: "json \<Rightarrow> string list" where
  "iter_strings (JStr s) = [s]"
| "iter_strings (JDict d) = concat (map (\<lambda>(k, v). iter_strings v) d)"
| "iter_strings (JList xs) = concat (map iter_strings xs)"
| "iter_strings _ = []"

section \<open>Sorted keys\<close>

fun canon :: "json \<Rightarrow> json" where
  \<comment> \<open>the value whose keys \<open>json.dumps(v, sort_keys=True)\<close> prints in order\<close>
  "canon (JDict d) = JDict (sort_key fst (map (\<lambda>(k, v). (k, canon v)) d))"
| "canon (JList xs) = JList (map canon xs)"
| "canon v = v"

fun wf_json :: "json \<Rightarrow> bool" where
  \<comment> \<open>every dict inside has distinct keys, as Python's dicts have\<close>
  "wf_json (JDict d) = (distinct (map fst d) \<and> (\<forall>(k, v) \<in> set d. wf_json v))"
| "wf_json (JList xs) = (\<forall>x \<in> set xs. wf_json x)"
| "wf_json _ = True"

lemma sort_key_fst_unique:
  fixes xs :: "('k::linorder \<times> 'v) list"
  assumes "mset xs = mset ys" and "distinct (map fst xs)"
  shows "sort_key fst xs = sort_key fst ys"
proof (rule sort_key_inj_key_eq)
  show "mset xs = mset (sort_key fst ys)" using assms(1) by simp
  show "inj_on fst (set xs)" using assms(2) by (simp add: distinct_map)
  show "sorted (map fst (sort_key fst ys))" by simp
qed

end
