(* ===== verification/Gateway_Config.thy ===== *)
theory Gateway_Config
  imports Json_Values
begin

text \<open>
  The configuration models of \<open>app/config.py\<close>, with their defaults, the validator of
  \<open>GatewayConfig\<close> that refuses duplicate upstream ids, and \<open>Settings.load_gateway_config\<close>.
  Reading the file, \<open>yaml.safe_load\<close> and pydantic's field parsing are parameters.
\<close>

section \<open>Per-server authentication and naming\<close>

datatype auth_strategy = StaticAuth | EnvAuth | OAuth2Auth

record server_auth_config =
  sa_strategy :: auth_strategy
  sa_header :: "string option"
  sa_token :: "string option"
  sa_env_var :: "string option"
  sa_oauth2_token_url :: "string option"
  sa_oauth2_client_id :: "string option"
  sa_oauth2_client_secret_env :: "string option"
  sa_oauth2_scope :: "string option"
  sa_oauth2_extra_params :: "(string, string) dict"
  sa_oauth2_refresh_buffer :: seconds
  sa_forward_agent_id_header :: "string option"

definition default_server_auth :: server_auth_config where
  "default_server_auth =
     \<lparr> sa_strategy = StaticAuth, sa_header = None, sa_token = None, sa_env_var = None,
       sa_oauth2_token_url = None, sa_oauth2_client_id = None, sa_oauth2_client_secret_env = None,
       sa_oauth2_scope = None, sa_oauth2_extra_params = [], sa_oauth2_refresh_buffer = 60,
       sa_forward_agent_id_header = None \<rparr>"

datatype naming_strategy = PrefixAlways | PrefixOnConflict | Bare

datatype conflict_policy = Warn | RefuseConflict | Suffix

record naming_config =
  nc_strategy :: naming_strategy
  nc_on_conflict :: conflict_policy

definition default_naming :: naming_config where
  "default_naming = \<lparr> nc_strategy = PrefixAlways, nc_on_conflict = Warn \<rparr>"

section \<open>Upstream servers\<close>

datatype transport_kind = HttpTransport | SseTransport | StreamableHttp

record upstream_server =
  us_id :: string
  us_name :: string
  us_base_url :: string
  us_transport :: transport_kind
  us_auth_header :: "string option"
  us_auth_token :: "string option"
  us_server_auth :: "server_auth_config option"
  us_timeout_seconds :: seconds
  us_tags :: "string list"
  us_enabled :: bool
  us_tool_prefix :: "string option"
  us_mutable_tools :: "string list"

definition upstream :: "string \<Rightarrow> string \<Rightarrow> string \<Rightarrow> upstream_server" where
  \<comment> \<open>\<open>UpstreamServer(id=..., name=..., base_url=...)\<close>\<close>
  "upstream i n url =
     \<lparr> us_id = i, us_name = n, us_base_url = url, us_transport = StreamableHttp,
       us_auth_header = None, us_auth_token = None, us_server_auth = None,
       us_timeout_seconds = 30, us_tags = [], us_enabled = True, us_tool_prefix = None,
       us_mutable_tools = [] \<rparr>"

section \<open>Policies\<close>

record oidc_policy =
  op_enabled :: bool
  op_algorithms :: "string list"
  op_jwks_url :: "string option"
  op_issuer :: "string option"
  op_audience :: "string option"
  op_secret :: "string option"
  op_agent_id_claim :: string
  op_jwks_cache_ttl :: seconds

definition default_oidc_policy :: oidc_policy where
  "default_oidc_policy =
     \<lparr> op_enabled = False, op_algorithms = [''RS256''], op_jwks_url = None, op_issuer = None,
       op_audience = None, op_secret = None, op_agent_id_claim = ''sub'', op_jwks_cache_ttl = 300 \<rparr>"

record auth_policy =
  ap_enabled :: bool
  ap_oidc :: oidc_policy
  ap_agent_permissions :: "(string, string list) dict"
  ap_mutable_allowed_agents :: "string list"

definition default_auth_policy :: auth_policy where
  "default_auth_policy =
     \<lparr> ap_enabled = True, ap_oidc = default_oidc_policy, ap_agent_permissions = [],
       ap_mutable_allowed_agents = [] \<rparr>"

text \<open>
  \<open>replacement\<close> is a format string; \<open>self.policy.replacement.format(entity=entity)\<close> is the
  application of this field to the entity's name.
\<close>

record redaction_policy =
  rp_enabled :: bool
  rp_entities :: "string list"
  rp_score_threshold :: rat
  rp_redact_requests :: bool
  rp_redact_responses :: bool
  rp_replacement :: "string \<Rightarrow> string"

definition default_redaction_policy :: redaction_policy where
  "default_redaction_policy =
     \<lparr> rp_enabled = True,
       rp_entities = [''EMAIL_ADDRESS'', ''PHONE_NUMBER'', ''CREDIT_CARD'', ''US_SSN'',
                      ''IP_ADDRESS'', ''IBAN_CODE''],
       rp_score_threshold = 1 / 2, rp_redact_requests = True, rp_redact_responses = True,
       rp_replacement = (\<lambda>entity. ''<REDACTED:'' @ entity @ ''>'') \<rparr>"

record safety_rule =
  sr_name :: string
  sr_tool :: string
  sr_forbidden_substrings :: "string list"
  sr_numeric_ranges :: "(string, (string, rat) dict) dict"
  sr_forbidden_regex :: "string list"

definition safety_rule_named :: "string \<Rightarrow> safety_rule" where
  \<comment> \<open>\<open>SafetyRule(name=...)\<close>\<close>
  "safety_rule_named n =
     \<lparr> sr_name = n, sr_tool = ''*'', sr_forbidden_substrings = [], sr_numeric_ranges = [],
       sr_forbidden_regex = [] \<rparr>"

record guardrails_policy =
  gp_enabled :: bool
  gp_rules :: "safety_rule list"

definition default_guardrails_policy :: guardrails_policy where
  "default_guardrails_policy = \<lparr> gp_enabled = True, gp_rules = [] \<rparr>"

record rate_limiting_policy =
  rl_enabled :: bool
  rl_default_agent_rate :: rat
  rl_default_agent_burst :: rat
  rl_default_tool_rate :: rat
  rl_default_tool_burst :: rat
  rl_agents :: "(string, (string, rat) dict) dict"
  rl_tools :: "(string, (string, rat) dict) dict"

definition default_rate_limiting_policy :: rate_limiting_policy where
  "default_rate_limiting_policy =
     \<lparr> rl_enabled = True, rl_default_agent_rate = 10, rl_default_agent_burst = 20,
       rl_default_tool_rate = 5, rl_default_tool_burst = 10, rl_agents = [], rl_tools = [] \<rparr>"

record circuit_breaker_policy =
  cp_enabled :: bool
  cp_failure_threshold :: int
  cp_recovery_timeout :: seconds
  cp_probe_successes :: int

definition default_circuit_breaker_policy :: circuit_breaker_policy where
  "default_circuit_breaker_policy =
     \<lparr> cp_enabled = True, cp_failure_threshold = 5, cp_recovery_timeout = 30, cp_probe_successes = 2 \<rparr>"

record schema_validation_config =
  sv_enabled :: bool
  sv_strict_on_missing_schema :: bool

definition default_schema_validation :: schema_validation_config where
  "default_schema_validation = \<lparr> sv_enabled = True, sv_strict_on_missing_schema = False \<rparr>"

record cache_config =
  cc_enabled :: bool
  cc_manifest_ttl :: seconds
  cc_tool_results_enabled :: bool
  cc_default_tool_ttl :: seconds
  cc_tool_ttls :: "(string, seconds) dict"

definition default_cache_config :: cache_config where
  "default_cache_config =
     \<lparr> cc_enabled = True, cc_manifest_ttl = 60, cc_tool_results_enabled = True,
       cc_default_tool_ttl = 0, cc_tool_ttls = [] \<rparr>"

record webhook_config =
  wh_url :: string
  wh_secret_env :: "string option"
  wh_events :: "string list"
  wh_timeout :: seconds
  wh_max_retries :: int

definition webhook_to :: "string \<Rightarrow> webhook_config" where
  \<comment> \<open>\<open>WebhookConfig(url=...)\<close>\<close>
  "webhook_to url =
     \<lparr> wh_url = url, wh_secret_env = None, wh_events = [], wh_timeout = 5, wh_max_retries = 3 \<rparr>"

section \<open>The root configuration\<close>

record gateway_config =
  gc_upstreams :: "upstream_server list"
  gc_auth :: auth_policy
  gc_redaction :: redaction_policy
  gc_guardrails :: guardrails_policy
  gc_rate_limiting :: rate_limiting_policy
  gc_circuit_breaker :: circuit_breaker_policy
  gc_naming :: naming_config
  gc_schema_validation :: schema_validation_config
  gc_cache :: cache_config
  gc_webhooks :: "webhook_config list"

definition default_gateway_config :: gateway_config where
  "default_gateway_config =
     \<lparr> gc_upstreams = [], gc_auth = default_auth_policy, gc_redaction = default_redaction_policy,
       gc_guardrails = default_guardrails_policy, gc_rate_limiting = default_rate_limiting_policy,
       gc_circuit_breaker = default_circuit_breaker_policy, gc_naming = default_naming,
       gc_schema_validation = default_schema_validation, gc_cache = default_cache_config,
       gc_webhooks = [] \<rparr>"

datatype config_error =
    DuplicateUpstreamIds
  | InvalidConfig string

definition unique_ids :: "upstream_server list \<Rightarrow> config_error + upstream_server list" where
  \<comment> \<open>\<open>if len(ids) != len(set(ids)): raise ValueError\<close>\<close>
  "unique_ids v =
     (let ids = map us_id v
      in if length ids \<noteq> card (set ids) then Inl DuplicateUpstreamIds else Inr v)"

definition model_validate ::
  "('raw \<Rightarrow> config_error + gateway_config) \<Rightarrow> 'raw \<Rightarrow> config_error + gateway_config" where
  \<comment> \<open>pydantic parses the fields (parameter \<open>parse_fields\<close>), then runs the field validator\<close>
  "model_validate parse_fields raw =
     (case parse_fields raw of
        Inl e \<Rightarrow> Inl e
      | Inr cfg \<Rightarrow> (case unique_ids (gc_upstreams cfg) of Inl e \<Rightarrow> Inl e | Inr _ \<Rightarrow> Inr cfg))"

section \<open>Runtime settings\<close>

record settings =
  st_host :: string
  st_port :: int
  st_log_level :: string
  st_json_logs :: bool
  st_config_path :: string
  st_metrics_path :: string
  st_request_timeout_seconds :: seconds
  st_agent_id_header :: string
  st_api_key_header :: string
  st_api_key :: "string option"
  st_audit_db_url :: string
  st_health_sweep_interval :: seconds

definition default_settings :: settings where
  "default_settings =
     \<lparr> st_host = ''0.0.0.0'', st_port = 8080, st_log_level = ''INFO'', st_json_logs = True,
       st_config_path = ''config/gateway.yaml'', st_metrics_path = ''/metrics'', st_request_timeout_seconds = 60,
       st_agent_id_header = ''X-Agent-Id'', st_api_key_header = ''X-API-Key'', st_api_key = None,
       st_audit_db_url = ''sqlite+aiosqlite:///audit.db'', st_health_sweep_interval = 60 \<rparr>"

definition load_gateway_config ::
  "(string \<Rightarrow> string option) \<Rightarrow> (string \<Rightarrow> config_error + json) \<Rightarrow>
   (json \<Rightarrow> config_error + gateway_config) \<Rightarrow> string \<Rightarrow> config_error + gateway_config" where
  \<comment> \<open>\<open>read_file\<close> gives \<open>None\<close> for a path that does not exist;
      \<open>yaml.safe_load(fh) or {}\<close> replaces a falsy document by the empty dict\<close>
  "load_gateway_config read_file safe_load parse_fields path =
     (case read_file path of
        None \<Rightarrow> Inr default_gateway_config
      | Some text \<Rightarrow>
          (case safe_load text of
             Inl e \<Rightarrow> Inl e
           | Inr doc \<Rightarrow> model_validate parse_fields (if truthy doc then doc else JDict [])))"

section \<open>What a loaded configuration satisfies\<close>

lemma unique_ids_iff: "unique_ids v = Inr w \<longleftrightarrow> w = v \<and> distinct (map us_id v)"
proof -
  have "length (map us_id v) = card (set (map us_id v)) \<longleftrightarrow> distinct (map us_id v)"
    by (metis card_distinct distinct_card)
  then show ?thesis by (auto simp: unique_ids_def Let_def)
qed

lemma model_validate_distinct:
  "model_validate parse_fields raw = Inr cfg \<Longrightarrow> distinct (map us_id (gc_upstreams cfg))"
  by (auto simp: model_validate_def unique_ids_iff split: sum.splits)

lemma loaded_config_distinct:
  assumes "load_gateway_config read_file safe_load parse_fields path = Inr cfg"
  shows "distinct (map us_id (gc_upstreams cfg))"
  using assms
  by (auto simp: load_gateway_config_def default_gateway_config_def
      split: option.splits sum.splits if_splits dest: model_validate_distinct)

end
