(* ===== verification/Oidc.thy ===== *)
theory Oidc
  imports Gateway_Config
begin

text \<open>
  \<open>app/middleware/oidc.py\<close>: the JWKS cache and the validator of bearer tokens.

  The \<open>jose\<close> package, the HTTP request for the key set and the clock are parameters: \<open>provider\<close>
  collects what the two classes call. A reply of the identity provider is the list under its
  \<open>keys\<close> member (\<open>None\<close> when the member is missing), each key a dict; \<open>kid\<close> headers are strings.
  Operations return their result or exception with the cache they leave.
\<close>

section \<open>Exceptions and the packages used\<close>

datatype oidc_error =
    UnknownKid string
  | BadJwk string
  | NoKeySource
  | ValidationFailed "string option"    \<comment> \<open>\<open>token validation failed: {last\_exc}\<close>\<close>
  | InvalidToken string
  | MissingClaim string

datatype oidc_exc =
    OidcError oidc_error
  | OtherExc string                     \<comment> \<open>anything that is not an \<open>OIDCError\<close>\<close>

datatype jwt_exc =
    JwtError string
  | JwtOther string                     \<comment> \<open>not a \<open>JWTError\<close>\<close>

datatype 'k verify_key =
    Secret string
  | Jwk 'k

record 'k provider =
  pv_decode :: "string \<Rightarrow> 'k verify_key \<Rightarrow> string list \<Rightarrow> string option \<Rightarrow> string option \<Rightarrow> bool \<Rightarrow> jwt_exc + jdict"
  pv_header_kid :: "string \<Rightarrow> jwt_exc + string option"
  pv_construct :: "jdict \<Rightarrow> string + 'k"
  pv_fetch :: "string \<Rightarrow> string + jdict list option"

section \<open>The key cache\<close>

record jwks_cache =
  jk_url :: string
  jk_ttl :: seconds
  jk_keys :: "(json, jdict) dict"
  jk_fetched_at :: seconds

definition new_jwks_cache :: "string \<Rightarrow> seconds \<Rightarrow> jwks_cache" where
  "new_jwks_cache url ttl = \<lparr> jk_url = url, jk_ttl = ttl, jk_keys = [], jk_fetched_at = 0 \<rparr>"

definition expired :: "seconds \<Rightarrow> jwks_cache \<Rightarrow> bool" where
  "expired now c \<longleftrightarrow> jk_ttl c < now - jk_fetched_at c"

definition keys_by_kid :: "jdict list option \<Rightarrow> (json, jdict) dict" where
  \<comment> \<open>\<open>{k["kid"]: k for k in doc.get("keys", []) if "kid" in k}\<close>\<close>
  "keys_by_kid keys =
     fold (\<lambda>k d. case dict_get k ''kid'' of None \<Rightarrow> d | Some kid \<Rightarrow> dict_put kid k d)
       (case keys of None \<Rightarrow> [] | Some ks \<Rightarrow> ks) []"

definition fetch :: "'k provider \<Rightarrow> seconds \<Rightarrow> jwks_cache \<Rightarrow> (string + unit) \<times> jwks_cache" where
  \<comment> \<open>\<open>now'\<close> is the clock after the reply\<close>
  "fetch pv now' c =
     (case pv_fetch pv (jk_url c) of
        Inl exc \<Rightarrow> (Inl exc, c)
      | Inr keys \<Rightarrow> (Inr (), c\<lparr> jk_keys := keys_by_kid keys, jk_fetched_at := now' \<rparr>))"

definition must_fetch :: "seconds \<Rightarrow> string option \<Rightarrow> jwks_cache \<Rightarrow> bool" where
  "must_fetch now kid c \<longleftrightarrow>
     expired now c \<or> (truthy_opt kid \<and> dict_get (jk_keys c) (JStr (the kid)) = None)"

datatype 'k key_result = OneKey 'k | AllKeys "'k list"

definition select_key :: "'k provider \<Rightarrow> string option \<Rightarrow> jwks_cache \<Rightarrow> oidc_exc + 'k key_result" where
  "select_key pv kid c =
     (if truthy_opt kid then
        (case dict_get (jk_keys c) (JStr (the kid)) of
           None \<Rightarrow> Inl (OidcError (UnknownKid (the kid)))
         | Some raw \<Rightarrow>
             (case pv_construct pv raw of
                Inl exc \<Rightarrow> Inl (OidcError (BadJwk exc))
              | Inr k \<Rightarrow> Inr (OneKey k)))
      else
        (case traverse (pv_construct pv) (map snd (jk_keys c)) of
           Inl exc \<Rightarrow> Inl (OidcError (BadJwk exc))
         | Inr ks \<Rightarrow> Inr (AllKeys ks)))"

definition get_key ::
  "'k provider \<Rightarrow> seconds \<Rightarrow> seconds \<Rightarrow> string option \<Rightarrow> jwks_cache \<Rightarrow> (oidc_exc + 'k key_result) \<times> jwks_cache" where
  "get_key pv now now' kid c =
     (if must_fetch now kid c then
        (case fetch pv now' c of
           (Inl exc, c') \<Rightarrow> (Inl (OtherExc exc), c')
         | (Inr _, c') \<Rightarrow> (select_key pv kid c', c'))
      else (select_key pv kid c, c))"

section \<open>The validator\<close>

record oidc_config =
  oc_enabled :: bool
  oc_algorithms :: "string list"
  oc_jwks_url :: "string option"
  oc_issuer :: "string option"
  oc_audience :: "string option"
  oc_secret :: "string option"
  oc_agent_id_claim :: string
  oc_jwks_cache_ttl :: seconds

record oidc_validator =
  ov_cfg :: oidc_config
  ov_jwks :: "jwks_cache option"

definition new_oidc_validator :: "oidc_config \<Rightarrow> oidc_validator" where
  "new_oidc_validator cfg =
     \<lparr> ov_cfg = cfg,
       ov_jwks =
         (if truthy_opt (oc_jwks_url cfg)
          then Some (new_jwks_cache (the (oc_jwks_url cfg)) (oc_jwks_cache_ttl cfg)) else None) \<rparr>"

definition decode_with :: "'k provider \<Rightarrow> oidc_config \<Rightarrow> string \<Rightarrow> 'k verify_key \<Rightarrow> jwt_exc + jdict" where
  \<comment> \<open>\<open>jwt.decode(token, key, algorithms=..., audience=..., issuer=..., options=...)\<close>\<close>
  "decode_with pv cfg token key =
     pv_decode pv token key (oc_algorithms cfg) (oc_audience cfg) (oc_issuer cfg) (truthy_opt (oc_audience cfg))"

definition wrap_jwt :: "jwt_exc \<Rightarrow> oidc_exc" where
  \<comment> \<open>\<open>except JWTError as exc: raise OIDCError\<close>; other exceptions pass\<close>
  "wrap_jwt e = (case e of JwtError m \<Rightarrow> OidcError (InvalidToken m) | JwtOther m \<Rightarrow> OtherExc m)"

fun try_keys :: "'k provider \<Rightarrow> oidc_config \<Rightarrow> string \<Rightarrow> string option \<Rightarrow> 'k list \<Rightarrow> oidc_exc + jdict" where
  "try_keys pv cfg token last_exc [] = Inl (OidcError (ValidationFailed last_exc))"
| "try_keys pv cfg token last_exc (k # ks) =
     (case decode_with pv cfg token (Jwk k) of
        Inr payload \<Rightarrow> Inr payload
      | Inl (JwtError m) \<Rightarrow> try_keys pv cfg token (Some m) ks
      | Inl (JwtOther m) \<Rightarrow> Inl (OtherExc m))"

definition candidate_keys :: "'k key_result \<Rightarrow> 'k list" where
  \<comment> \<open>\<open>key if isinstance(key, list) else [key]\<close>\<close>
  "candidate_keys r = (case r of OneKey k \<Rightarrow> [k] | AllKeys ks \<Rightarrow> ks)"

definition validate ::
  "'k provider \<Rightarrow> seconds \<Rightarrow> seconds \<Rightarrow> string \<Rightarrow> oidc_validator \<Rightarrow> (oidc_exc + jdict) \<times> oidc_validator" where
  "validate pv now now' token v =
     (if truthy_opt (oc_secret (ov_cfg v)) then
        (case decode_with pv (ov_cfg v) token (Secret (the (oc_secret (ov_cfg v)))) of
           Inl e \<Rightarrow> (Inl (wrap_jwt e), v)
         | Inr payload \<Rightarrow> (Inr payload, v))
      else
        (case ov_jwks v of
           None \<Rightarrow> (Inl (OidcError NoKeySource), v)
         | Some c \<Rightarrow>
             (case pv_header_kid pv token of
                Inl e \<Rightarrow> (Inl (wrap_jwt e), v)
              | Inr kid \<Rightarrow>
                  (case get_key pv now now' kid c of
                     (Inl exc, c') \<Rightarrow> (Inl exc, v\<lparr> ov_jwks := Some c' \<rparr>)
                   | (Inr key, c') \<Rightarrow>
                       (try_keys pv (ov_cfg v) token None (candidate_keys key), v\<lparr> ov_jwks := Some c' \<rparr>)))))"

definition extract_agent_id :: "(json \<Rightarrow> string) \<Rightarrow> oidc_config \<Rightarrow> jdict \<Rightarrow> oidc_error + string" where
  "extract_agent_id repr cfg payload =
     (case dict_get payload (oc_agent_id_claim cfg) of
        None \<Rightarrow> Inl (MissingClaim (oc_agent_id_claim cfg))
      | Some val \<Rightarrow>
          if truthy val then Inr (py_str repr val) else Inl (MissingClaim (oc_agent_id_claim cfg)))"

section \<open>Lemmas\<close>

lemma keys_by_kid_sound:
  assumes "dict_get (keys_by_kid keys) kid = Some k"
  shows "dict_get k ''kid'' = Some kid \<and> (\<exists>ks. keys = Some ks \<and> k \<in> set ks)"
proof -
  have "dict_get k ''kid'' = Some kid \<and> (k \<in> set ks \<or> dict_get d kid = Some k)"
    if "dict_get (fold (\<lambda>k d. case dict_get k ''kid'' of None \<Rightarrow> d | Some kid \<Rightarrow> dict_put kid k d) ks d) kid = Some k"
      and "\<And>kid k. dict_get d kid = Some k \<Longrightarrow> dict_get k ''kid'' = Some kid" for ks d
    using that
  proof (induction ks arbitrary: d)
    case Nil
    then show ?case by simp
  next
    case (Cons a ks)
    show ?case
    proof (cases "dict_get a ''kid''")
      case None
      then show ?thesis using Cons.IH [of d] Cons.prems by auto
    next
      case (Some j)
      have "dict_get k ''kid'' = Some i" if "dict_get (dict_put j a d) i = Some k" for i k
        using that Some Cons.prems(2) by (auto simp: dict.get_put split: if_splits)
      then have "dict_get k ''kid'' = Some kid \<and> (k \<in> set ks \<or> dict_get (dict_put j a d) kid = Some k)"
        using Cons.IH [of "dict_put j a d"] Cons.prems(1) Some by simp
      then show ?thesis by (auto simp: dict.get_put split: if_splits)
    qed
  qed
  from this [of "case keys of None \<Rightarrow> [] | Some ks \<Rightarrow> ks" "[]"] assms show ?thesis
    by (cases keys) (auto simp: keys_by_kid_def)
qed

lemma try_keys_Inr:
  "try_keys pv cfg token l ks = Inr payload \<Longrightarrow> \<exists>k \<in> set ks. decode_with pv cfg token (Jwk k) = Inr payload"
  by (induction pv cfg token l ks rule: try_keys.induct) (auto split: sum.splits jwt_exc.splits)

lemma select_key_from_cache:
  assumes "select_key pv kid c = Inr r" and "k \<in> set (candidate_keys r)"
  shows "\<exists>raw \<in> set (map snd (jk_keys c)). pv_construct pv raw = Inr k"
proof (cases "truthy_opt kid")
  case True
  then obtain raw where "dict_get (jk_keys c) (JStr (the kid)) = Some raw" "pv_construct pv raw = Inr k"
    using assms by (auto simp: select_key_def candidate_keys_def split: option.splits sum.splits)
  then show ?thesis by (force dest: dict_get_mem)
next
  case False
  then obtain ks where "traverse (pv_construct pv) (map snd (jk_keys c)) = Inr ks" "r = AllKeys ks"
    using assms(1) by (auto simp: select_key_def split: sum.splits)
  then show ?thesis
    using assms(2) by (fastforce simp: traverse_Inr candidate_keys_def list_all2_conv_all_nth in_set_conv_nth)
qed

section \<open>Properties\<close>

text \<open>C20. A token is accepted only if \<open>jwt.decode\<close> accepted it, under the configured algorithms,
  audience and issuer, with the shared secret when one is configured and otherwise with a key built
  from an entry of the provider's key set that the cache now holds.\<close>

theorem accepted_tokens_are_verified:
  assumes "validate pv now now' token v = (Inr payload, v')"
  shows "(\<exists>secret. oc_secret (ov_cfg v) = Some secret \<and> secret \<noteq> [] \<and> v' = v \<and>
            pv_decode pv token (Secret secret) (oc_algorithms (ov_cfg v)) (oc_audience (ov_cfg v))
              (oc_issuer (ov_cfg v)) (truthy_opt (oc_audience (ov_cfg v))) = Inr payload) \<or>
         (\<exists>c k. \<not> truthy_opt (oc_secret (ov_cfg v)) \<and> ov_jwks v' = Some c \<and>
            (\<exists>raw \<in> set (map snd (jk_keys c)). pv_construct pv raw = Inr k) \<and>
            pv_decode pv token (Jwk k) (oc_algorithms (ov_cfg v)) (oc_audience (ov_cfg v))
              (oc_issuer (ov_cfg v)) (truthy_opt (oc_audience (ov_cfg v))) = Inr payload)"
proof (cases "truthy_opt (oc_secret (ov_cfg v))")
  case True
  then show ?thesis using assms
    by (cases "oc_secret (ov_cfg v)") (auto simp: validate_def decode_with_def split: sum.splits)
next
  case False
  then obtain c kid key c' where c: "ov_jwks v = Some c" "get_key pv now now' kid c = (Inr key, c')"
      "try_keys pv (ov_cfg v) token None (candidate_keys key) = Inr payload"
      "v' = v\<lparr> ov_jwks := Some c' \<rparr>"
    using assms by (auto simp: validate_def split: option.splits sum.splits prod.splits)
  have "select_key pv kid c' = Inr key"
    using c(2) by (auto simp: get_key_def split: if_splits prod.splits sum.splits)
  then show ?thesis
    using try_keys_Inr [OF c(3)] select_key_from_cache c(4) False unfolding decode_with_def by fastforce
qed

text \<open>The key for a \<open>kid\<close>: a fresh cache that knows it answers without a request; otherwise the key
  set is fetched once, and the answer comes from the fetched set alone, which replaces the cache. A
  \<open>kid\<close> the fetched set does not hold is refused, and a failed request leaves the cache as it was.\<close>

theorem signing_key_lookup:
  assumes "kid \<noteq> []"
  shows "(\<not> expired now c \<longrightarrow> dict_get (jk_keys c) (JStr kid) = Some raw \<longrightarrow>
            get_key pv now now' (Some kid) c =
              (case pv_construct pv raw of Inl e \<Rightarrow> Inl (OidcError (BadJwk e)) | Inr k \<Rightarrow> Inr (OneKey k), c)) \<and>
         (expired now c \<or> dict_get (jk_keys c) (JStr kid) = None \<longrightarrow>
            (case pv_fetch pv (jk_url c) of
               Inl e \<Rightarrow> get_key pv now now' (Some kid) c = (Inl (OtherExc e), c)
             | Inr ks \<Rightarrow>
                 (\<exists>c'. get_key pv now now' (Some kid) c = (select_key pv (Some kid) c', c') \<and>
                    jk_keys c' = keys_by_kid ks \<and> jk_fetched_at c' = now' \<and>
                    (dict_get (keys_by_kid ks) (JStr kid) = None \<longrightarrow>
                       fst (get_key pv now now' (Some kid) c) = Inl (OidcError (UnknownKid kid))))))"
  using assms
  by (auto simp: get_key_def must_fetch_def fetch_def select_key_def split: sum.splits option.splits)

definition rotated :: "jdict provider" where
  \<comment> \<open>a provider whose key set now holds the key \<open>k2\<close> only; a key signs the tokens of its \<open>kid\<close>\<close>
  "rotated =
     \<lparr> pv_decode = (\<lambda>token key algs aud iss verify_aud.
         if key = Jwk [(''kid'', JStr token)] then Inr [(''sub'', JStr ''bot'')] else Inl (JwtError ''signature'')),
       pv_header_kid = (\<lambda>token. Inr (Some token)),
       pv_construct = Inr,
       pv_fetch = (\<lambda>url. Inr (Some [[(''kid'', JStr ''k2'')]])) \<rparr>"

definition warm_cache :: jwks_cache where
  "warm_cache =
     \<lparr> jk_url = ''https://idp/jwks'', jk_ttl = 300, jk_keys = [(JStr ''k1'', [(''kid'', JStr ''k1'')])],
       jk_fetched_at = 1000 \<rparr>"

definition jwks_config :: oidc_config where
  "jwks_config =
     \<lparr> oc_enabled = True, oc_algorithms = [''RS256''], oc_jwks_url = Some ''https://idp/jwks'',
       oc_issuer = None, oc_audience = None, oc_secret = None, oc_agent_id_claim = ''sub'',
       oc_jwks_cache_ttl = 300 \<rparr>"

lemmas oidc_examples = rotated_def warm_cache_def jwks_config_def

theorem signing_key_lookup_witness:
  "\<not> expired 1100 warm_cache \<and> dict_get (jk_keys warm_cache) (JStr ''k2'') = None \<and>
   snd (get_key rotated 1100 1101 (Some ''k2'') warm_cache) =
     warm_cache\<lparr> jk_keys := [(JStr ''k2'', [(''kid'', JStr ''k2'')])], jk_fetched_at := 1101 \<rparr>"
  using signing_key_lookup [where kid = "''k2''" and now = 1100 and now' = 1101 and pv = rotated
      and c = warm_cache and raw = "[]"]
  by (simp add: oidc_examples expired_def keys_by_kid_def get_key_def must_fetch_def fetch_def)

lemma rotated_validate:
  "validate rotated 1100 1101 ''k2'' \<lparr> ov_cfg = jwks_config, ov_jwks = Some warm_cache \<rparr> =
   (Inr [(''sub'', JStr ''bot'')],
    \<lparr> ov_cfg = jwks_config,
      ov_jwks = Some (warm_cache\<lparr> jk_keys := [(JStr ''k2'', [(''kid'', JStr ''k2'')])], jk_fetched_at := 1101 \<rparr>) \<rparr>)"
  by (simp add: validate_def oidc_examples get_key_def must_fetch_def fetch_def expired_def keys_by_kid_def
      select_key_def candidate_keys_def decode_with_def)

theorem accepted_tokens_are_verified_witness:
  "\<exists>k. pv_decode rotated ''k2'' (Jwk k) (oc_algorithms jwks_config) (oc_audience jwks_config)
         (oc_issuer jwks_config) (truthy_opt (oc_audience jwks_config)) = Inr [(''sub'', JStr ''bot'')]"
  using accepted_tokens_are_verified [OF rotated_validate] by (auto simp: jwks_config_def)

text \<open>A validator that has never fetched the key set does not count it as expired while the
  monotonic clock reads at most the cache's time to live: a token without \<open>kid\<close> is then refused
  without the identity provider being asked, whatever key set the provider would return.\<close>

theorem kidless_token_refused_unasked:
  assumes "oc_jwks_url cfg = Some url" and "url \<noteq> []" and "\<not> truthy_opt (oc_secret cfg)"
    and "pv_header_kid pv token = Inr None" and "now \<le> oc_jwks_cache_ttl cfg"
  shows "validate pv now now' token (new_oidc_validator cfg) =
    (Inl (OidcError (ValidationFailed None)), new_oidc_validator cfg)"
  using assms
  by (simp add: validate_def new_oidc_validator_def new_jwks_cache_def get_key_def must_fetch_def
      expired_def select_key_def candidate_keys_def)

theorem kidless_token_refused_unasked_witness:
  "fst (validate (rotated\<lparr> pv_header_kid := (\<lambda>token. Inr None) \<rparr>) 120 121 ''k2'' (new_oidc_validator jwks_config)) =
   Inl (OidcError (ValidationFailed None))"
  by (subst kidless_token_refused_unasked [where url = "''https://idp/jwks''"]) (simp_all add: oidc_examples)

end
