(* ===== verification/Metrics.thy ===== *)
theory Metrics
  imports Gateway_Prelude
begin

text \<open>
  The Prometheus instruments of \<open>app/observability/metrics.py\<close>. An operation of the gateway
  returns the list of updates it makes, in order; \<open>counter_value\<close> and \<open>gauge_value\<close> read the
  instruments off such a list. The latency histograms are updates that carry the observed value.
\<close>

datatype metric =
    ToolCallsTotal string string string        \<comment> \<open>server\_id, tool, status\<close>
  | ToolCallLatency string string seconds      \<comment> \<open>server\_id, tool, observed value\<close>
  | HttpRequestsTotal string string string     \<comment> \<open>method, path, status\<close>
  | HttpRequestLatency string string seconds   \<comment> \<open>method, path, observed value\<close>
  | RegisteredServers nat                      \<comment> \<open>gauge set to\<close>
  | RegisteredTools nat                        \<comment> \<open>gauge set to\<close>
  | GuardrailBlocksTotal string string         \<comment> \<open>rule, tool\<close>
  | RedactionsTotal string string nat          \<comment> \<open>direction, entity, amount\<close>
  | AuthDenialsTotal string                    \<comment> \<open>reason\<close>

definition counter_value :: "metric \<Rightarrow> metric list \<Rightarrow> nat" where
  \<comment> \<open>how often a labelled counter was incremented\<close>
  "counter_value m ms = length (filter (\<lambda>x. x = m) ms)"

fun tools_gauge :: "nat \<Rightarrow> metric list \<Rightarrow> nat" where
  \<comment> \<open>the gauge of registered tools after the updates, from its value before them\<close>
  "tools_gauge n [] = n"
| "tools_gauge n (RegisteredTools k # ms) = tools_gauge k ms"
| "tools_gauge n (m # ms) = tools_gauge n ms"

lemma counter_value_simps [simp]:
  "counter_value m [] = 0"
  "counter_value m (x # ms) = (if x = m then 1 else 0) + counter_value m ms"
  "counter_value m (ms @ ms') = counter_value m ms + counter_value m ms'"
  by (simp_all add: counter_value_def)

lemma tools_gauge_append [simp]: "tools_gauge n (xs @ ys) = tools_gauge (tools_gauge n xs) ys"
  by (induction n xs rule: tools_gauge.induct) simp_all

end
