(* ===== verification/Auth.thy ===== *)
theory Auth
  imports Oidc Metrics
begin

text \<open>
  \<open>app/middleware/auth.py\<close>: who is calling (\<open>identify\<close>) and what they may call
  (\<open>authorize_tool_call\<close>). An exception carries its reason and the data its message is made of;
  an exception that is not an \<open>AuthorizationError\<close> passes through \<open>identify\<close> as \<open>Escaped\<close>.
\<close>

section \<open>Errors and principals\<close>

datatype auth_error =
    BadToken oidc_error
  | MissingAgentId
  | MutableForbidden string string      \<comment> \<open>agent, qualified tool\<close>
  | AclDenied string string             \<comment> \<open>agent, qualified tool\<close>

fun auth_reason :: "auth_error \<Rightarrow> string" where
  "auth_reason (BadToken e) = ''invalid_token''"
| "auth_reason MissingAgentId = ''missing_agent_id''"
| "auth_reason (MutableForbidden agent tool) = ''mutable_forbidden''"
| "auth_reason (AclDenied agent tool) = ''acl_denied''"

datatype identify_exc =
    Denied auth_error
  | Escaped string

record principal =
  pr_agent_id :: string
  pr_permissions :: "string list"

definition can :: "principal \<Rightarrow> string \<Rightarrow> bool" where
  "can p action \<longleftrightarrow> ''*'' \<in> set (pr_permissions p) \<or> action \<in> set (pr_permissions p)"

section \<open>The authorizer\<close>

record authorizer =
  az_policy :: auth_policy
  az_oidc :: "oidc_validator option"

definition oidc_config_of :: "oidc_policy \<Rightarrow> oidc_config" where
  "oidc_config_of p =
     \<lparr> oc_enabled = op_enabled p, oc_algorithms = op_algorithms p, oc_jwks_url = op_jwks_url p,
       oc_issuer = op_issuer p, oc_audience = op_audience p, oc_secret = op_secret p,
       oc_agent_id_claim = op_agent_id_claim p, oc_jwks_cache_ttl = op_jwks_cache_ttl p \<rparr>"

definition new_authorizer :: "auth_policy \<Rightarrow> authorizer" where
  "new_authorizer policy =
     (let oidc_cfg = oidc_config_of (ap_oidc policy)
      in \<lparr> az_policy = policy,
           az_oidc = (if oc_enabled oidc_cfg then Some (new_oidc_validator oidc_cfg) else None) \<rparr>)"

definition principal_for :: "auth_policy \<Rightarrow> string \<Rightarrow> principal" where
  \<comment> \<open>the last two lines of \<open>identify\<close>\<close>
  "principal_for policy agent_id =
     \<lparr> pr_agent_id = agent_id, pr_permissions = dict_get_default (ap_agent_permissions policy) agent_id [] \<rparr>"

definition identify ::
  "'k provider \<Rightarrow> (json \<Rightarrow> string) \<Rightarrow> seconds \<Rightarrow> seconds \<Rightarrow> string option \<Rightarrow> string option \<Rightarrow> authorizer \<Rightarrow>
   (identify_exc + principal) \<times> metric list \<times> authorizer" where
  "identify pv repr now now' agent_id_header bearer_token az =
     (if \<not> ap_enabled (az_policy az) then
        (Inr \<lparr> pr_agent_id = str_or agent_id_header ''anonymous'', pr_permissions = [''*''] \<rparr>, [], az)
      else if az_oidc az \<noteq> None \<and> truthy_opt bearer_token then
        (case validate pv now now' (the bearer_token) (the (az_oidc az)) of
           (Inl (OtherExc m), v) \<Rightarrow> (Inl (Escaped m), [], az\<lparr> az_oidc := Some v \<rparr>)
         | (Inl (OidcError e), v) \<Rightarrow>
             (Inl (Denied (BadToken e)), [AuthDenialsTotal ''invalid_token''], az\<lparr> az_oidc := Some v \<rparr>)
         | (Inr payload, v) \<Rightarrow>
             (case extract_agent_id repr (ov_cfg v) payload of
                Inl e \<Rightarrow>
                  (Inl (Denied (BadToken e)), [AuthDenialsTotal ''invalid_token''], az\<lparr> az_oidc := Some v \<rparr>)
              | Inr agent_id \<Rightarrow> (Inr (principal_for (az_policy az) agent_id), [], az\<lparr> az_oidc := Some v \<rparr>)))
      else if truthy_opt agent_id_header then
        (Inr (principal_for (az_policy az) (the agent_id_header)), [], az)
      else (Inl (Denied MissingAgentId), [AuthDenialsTotal ''missing_agent_id''], az))"

definition authorize_tool_call ::
  "auth_policy \<Rightarrow> principal \<Rightarrow> string \<Rightarrow> string \<Rightarrow> bool \<Rightarrow> (auth_error + unit) \<times> metric list" where
  "authorize_tool_call policy p tool_name qualified_name mutable =
     (if \<not> ap_enabled policy then (Inr (), [])
      else if mutable \<and> pr_agent_id p \<notin> set (ap_mutable_allowed_agents policy) then
        (Inl (MutableForbidden (pr_agent_id p) qualified_name), [AuthDenialsTotal ''mutable_forbidden''])
      else if pr_permissions p \<noteq> [] \<and> ''*'' \<notin> set (pr_permissions p) then
        (if \<not> (can p tool_name \<or> can p qualified_name)
         then (Inl (AclDenied (pr_agent_id p) qualified_name), [AuthDenialsTotal ''acl_denied''])
         else (Inr (), []))
      else (Inr (), []))"

section \<open>What is allowed\<close>

definition allowed :: "auth_policy \<Rightarrow> principal \<Rightarrow> string \<Rightarrow> string \<Rightarrow> bool \<Rightarrow> bool" where
  \<comment> \<open>the access rule: an agent with a list of permissions needs one that names the tool or is the
      star, and a mutable tool is for the listed agents only\<close>
  "allowed policy p tool qualified mutable \<longleftrightarrow>
     ap_enabled policy \<longrightarrow>
       (mutable \<longrightarrow> pr_agent_id p \<in> set (ap_mutable_allowed_agents policy)) \<and>
       (set (pr_permissions p) = {} \<or> set (pr_permissions p) \<inter> {''*'', tool, qualified} \<noteq> {})"

lemma authorize_Inr_iff:
  "fst (authorize_tool_call policy p tool qualified mutable) = Inr () \<longleftrightarrow>
   allowed policy p tool qualified mutable"
  by (auto simp: authorize_tool_call_def allowed_def can_def)

lemma validate_keeps_cfg: "validate pv now now' token v = (r, v') \<Longrightarrow> ov_cfg v' = ov_cfg v"
  by (auto simp: validate_def split: if_splits sum.splits option.splits prod.splits)

section \<open>Properties\<close>

text \<open>C18. A tool call is authorized exactly when the access rule allows it; a refusal increments the
  denial counter once, with the reason of the error, and an authorized call increments none.\<close>

theorem authorized_iff_allowed:
  "(case authorize_tool_call policy p tool qualified mutable of
      (Inr _, ms) \<Rightarrow> allowed policy p tool qualified mutable \<and> ms = []
    | (Inl e, ms) \<Rightarrow> \<not> allowed policy p tool qualified mutable \<and> ms = [AuthDenialsTotal (auth_reason e)])"
  by (auto simp: authorize_tool_call_def allowed_def can_def split: if_splits)

text \<open>C19. With authorization on, the agent id of a principal is either the claim of a token the validator
  accepted, or the \<open>X-Agent-Id\<close> header, and the header counts only when there is no bearer token or no
  OIDC validator: a caller cannot override a token by a header. The permissions are those the
  policy lists for the id.\<close>

theorem identity_comes_from_token_or_header:
  assumes "ap_enabled (az_policy az)"
    and "identify pv repr now now' agent_header bearer az = (Inr p, ms, az')"
  shows "p = principal_for (az_policy az) (pr_agent_id p) \<and> ms = [] \<and>
    ((\<exists>v v' payload val. az_oidc az = Some v \<and> truthy_opt bearer \<and>
        validate pv now now' (the bearer) v = (Inr payload, v') \<and>
        dict_get payload (oc_agent_id_claim (ov_cfg v)) = Some val \<and> truthy val \<and>
        pr_agent_id p = py_str repr val) \<or>
     ((az_oidc az = None \<or> \<not> truthy_opt bearer) \<and> truthy_opt agent_header \<and>
        agent_header = Some (pr_agent_id p)))"
proof (cases "az_oidc az \<noteq> None \<and> truthy_opt bearer")
  case True
  then obtain v where v: "az_oidc az = Some v" "truthy_opt bearer" by auto
  then obtain payload v' agent where
      val: "validate pv now now' (the bearer) v = (Inr payload, v')"
      "extract_agent_id repr (ov_cfg v') payload = Inr agent" "p = principal_for (az_policy az) agent" "ms = []"
    using assms by (auto simp: identify_def split: prod.splits sum.splits oidc_exc.splits)
  then show ?thesis using v validate_keeps_cfg [OF val(1)]
    by (auto simp: extract_agent_id_def principal_for_def split: option.splits if_splits)
next
  case False
  then show ?thesis using assms
    by (cases agent_header) (auto simp: identify_def principal_for_def split: if_splits)
qed

definition header_policy :: auth_policy where
  "header_policy =
     default_auth_policy\<lparr> ap_agent_permissions := [(''reader'', [''pg.list_tables'', ''search.*''])],
                          ap_mutable_allowed_agents := [''ops-bot''] \<rparr>"

theorem identity_comes_from_token_or_header_witness:
  "principal_for header_policy ''reader'' =
     \<lparr> pr_agent_id = ''reader'', pr_permissions = [''pg.list_tables'', ''search.*''] \<rparr> \<and>
   az_oidc (new_authorizer header_policy) = None"
proof -
  have eval: "identify rotated (\<lambda>_. []) 0 0 (Some ''reader'') None (new_authorizer header_policy) =
      (Inr \<lparr> pr_agent_id = ''reader'', pr_permissions = [''pg.list_tables'', ''search.*''] \<rparr>, [],
       new_authorizer header_policy)"
    by (simp add: identify_def new_authorizer_def header_policy_def default_auth_policy_def
        default_oidc_policy_def oidc_config_of_def principal_for_def dict_get_default_def)
  have "ap_enabled (az_policy (new_authorizer header_policy))"
    by (simp add: new_authorizer_def Let_def header_policy_def default_auth_policy_def)
  from identity_comes_from_token_or_header [OF this eval] show ?thesis
    by (auto simp: new_authorizer_def header_policy_def default_auth_policy_def
        default_oidc_policy_def oidc_config_of_def)
qed

text \<open>An agent the policy does not list, or lists with no permissions, is refused no tool that is not
  mutable: the empty list grants everything.\<close>

theorem unlisted_agent_is_unrestricted:
  assumes "dict_get (ap_agent_permissions policy) agent \<in> {None, Some []}"
  shows "authorize_tool_call policy (principal_for policy agent) tool qualified False = (Inr (), [])"
  using assms by (auto simp: authorize_tool_call_def principal_for_def dict_get_default_def)

theorem unlisted_agent_is_unrestricted_witness:
  "authorize_tool_call header_policy (principal_for header_policy ''stranger'') ''drop'' ''pg.drop'' False = (Inr (), [])"
  by (rule unlisted_agent_is_unrestricted) (simp add: header_policy_def)

text \<open>A permission is compared as a whole with the tool's bare and qualified names. A pattern such as
  the \<open>search.*\<close> of the documented configuration therefore grants no tool of its server: an agent
  whose only permission is the pattern is refused every one of them.\<close>

theorem patterns_grant_nothing:
  assumes "ap_enabled policy" and "pr_permissions p = [server @ ''.*'']"
    and "tool \<notin> {''*'', server @ ''.*''}" and "qualified = server @ ''.'' @ tool"
  shows "authorize_tool_call policy p tool qualified False =
    (Inl (AclDenied (pr_agent_id p) qualified), [AuthDenialsTotal ''acl_denied''])"
  using assms by (cases server) (auto simp: authorize_tool_call_def can_def)

theorem patterns_grant_nothing_witness:
  "authorize_tool_call default_auth_policy \<lparr> pr_agent_id = ''reader'', pr_permissions = [''search.*''] \<rparr>
     ''query'' ''search.query'' False =
   (Inl (AclDenied ''reader'' ''search.query''), [AuthDenialsTotal ''acl_denied''])"
  by (subst patterns_grant_nothing [where server = "''search''"]) (simp_all add: default_auth_policy_def)

text \<open>When the key set cannot be fetched, \<open>identify\<close> raises the exception of the HTTP client: it is not
  an \<open>AuthorizationError\<close> and no denial is counted.\<close>

theorem key_set_outage_escapes:
  assumes "ap_enabled (az_policy az)" and "az_oidc az = Some v" and "truthy_opt bearer"
    and "\<not> truthy_opt (oc_secret (ov_cfg v))" and "ov_jwks v = Some c"
    and "pv_header_kid pv (the bearer) = Inr kid" and "must_fetch now kid c"
    and "pv_fetch pv (jk_url c) = Inl exc"
  shows "fst (identify pv repr now now' agent_header bearer az) = Inl (Escaped exc) \<and>
    fst (snd (identify pv repr now now' agent_header bearer az)) = []"
  using assms by (simp add: identify_def validate_def get_key_def fetch_def)

theorem key_set_outage_escapes_witness:
  "fst (identify (rotated\<lparr> pv_fetch := (\<lambda>url. Inl ''ConnectTimeout'') \<rparr>) (\<lambda>_. []) 1100 1101 None (Some ''k2'')
     \<lparr> az_policy = header_policy,
       az_oidc = Some \<lparr> ov_cfg = jwks_config, ov_jwks = Some warm_cache \<rparr> \<rparr>) = Inl (Escaped ''ConnectTimeout'')"
  using key_set_outage_escapes
    [where pv = "rotated\<lparr> pv_fetch := (\<lambda>url. Inl ''ConnectTimeout'') \<rparr>" and bearer = "Some ''k2''" and now = 1100
       and now' = 1101 and c = warm_cache and v = "\<lparr> ov_cfg = jwks_config, ov_jwks = Some warm_cache \<rparr>"
       and kid = "Some ''k2''" and exc = "''ConnectTimeout''" and agent_header = None and repr = "\<lambda>_. []"
       and az = "\<lparr> az_policy = header_policy,
                   az_oidc = Some \<lparr> ov_cfg = jwks_config, ov_jwks = Some warm_cache \<rparr> \<rparr>"]
  by (simp add: oidc_examples header_policy_def default_auth_policy_def must_fetch_def)

end
