(* ===== verification/Rate_Limit.thy ===== *)
theory Rate_Limit
  imports Gateway_Config
begin

text \<open>
  The token-bucket limiter of \<open>app/middleware/ratelimit.py\<close>. \<open>TokenBucket\<close> is the record
  \<open>bucket\<close>; \<open>consume\<close> takes the reading of \<open>time.monotonic()\<close> and returns the code's pair, or
  \<open>Inl ZeroDivision\<close> where \<open>(tokens - self._tokens) / self.rate\<close> divides by zero.
  \<open>RateLimiter.check\<close> is \<open>rate_check\<close>, whose four clock readings (creating and using the two
  buckets) are the record \<open>limiter_times\<close>.

  The lemmas give the invariant of the buckets under a clock that does not go backwards and the
  bound on how many calls a bucket, and an agent, can pass in a window of time.
\<close>

section \<open>Token buckets\<close>

record bucket =
  bk_rate :: rat
  bk_capacity :: rat
  bk_tokens :: rat
  bk_last :: seconds

datatype limiter_error =
    RateLimitExceeded string seconds
  | ZeroDivision

definition new_bucket :: "seconds \<Rightarrow> rat \<Rightarrow> rat \<Rightarrow> bucket" where
  "new_bucket now rate capacity =
     \<lparr> bk_rate = rate, bk_capacity = capacity, bk_tokens = capacity, bk_last = now \<rparr>"

definition consume :: "seconds \<Rightarrow> rat \<Rightarrow> bucket \<Rightarrow> (limiter_error + bool \<times> seconds) \<times> bucket" where
  "consume now n b =
     (let elapsed = now - bk_last b;
          b' = b\<lparr>bk_tokens := min (bk_capacity b) (bk_tokens b + elapsed * bk_rate b), bk_last := now\<rparr>
      in if n \<le> bk_tokens b' then (Inr (True, 0), b'\<lparr>bk_tokens := bk_tokens b' - n\<rparr>)
         else if bk_rate b' = 0 then (Inl ZeroDivision, b')
         else (Inr (False, py_round ((n - bk_tokens b') / bk_rate b') 3), b'))"

section \<open>The limiter\<close>

record rate_limiter =
  rm_cfg :: rate_limiting_policy
  rm_agent_buckets :: "(string, bucket) dict"
  rm_tool_buckets :: "(string, bucket) dict"

definition new_rate_limiter :: "rate_limiting_policy \<Rightarrow> rate_limiter" where
  "new_rate_limiter cfg = \<lparr> rm_cfg = cfg, rm_agent_buckets = [], rm_tool_buckets = [] \<rparr>"

record limiter_times =
  lt_agent_new :: seconds
  lt_agent :: seconds
  lt_tool_new :: seconds
  lt_tool :: seconds

definition agent_rate :: "rate_limiting_policy \<Rightarrow> string \<Rightarrow> rat" where
  "agent_rate cfg agent =
     dict_get_default (dict_get_default (rl_agents cfg) agent []) ''agent_rate'' (rl_default_agent_rate cfg)"

definition agent_burst :: "rate_limiting_policy \<Rightarrow> string \<Rightarrow> rat" where
  "agent_burst cfg agent =
     dict_get_default (dict_get_default (rl_agents cfg) agent []) ''agent_burst'' (rl_default_agent_burst cfg)"

definition agent_bucket :: "seconds \<Rightarrow> string \<Rightarrow> rate_limiter \<Rightarrow> bucket \<times> rate_limiter" where
  "agent_bucket now agent rl =
     (let (b, d) = get_or_create (rm_agent_buckets rl) agent
            (new_bucket now (agent_rate (rm_cfg rl) agent) (agent_burst (rm_cfg rl) agent))
      in (b, rl\<lparr>rm_agent_buckets := d\<rparr>))"

definition tool_key :: "string \<Rightarrow> string \<Rightarrow> string" where
  "tool_key agent tool = agent @ '':'' @ tool"

definition tool_bucket :: "seconds \<Rightarrow> string \<Rightarrow> string \<Rightarrow> rate_limiter \<Rightarrow> bucket \<times> rate_limiter" where
  "tool_bucket now agent tool rl =
     (let override = dict_get_default (rl_tools (rm_cfg rl)) tool [];
          (b, d) = get_or_create (rm_tool_buckets rl) (tool_key agent tool)
            (new_bucket now (dict_get_default override ''rate'' (rl_default_tool_rate (rm_cfg rl)))
                            (dict_get_default override ''burst'' (rl_default_tool_burst (rm_cfg rl))))
      in (b, rl\<lparr>rm_tool_buckets := d\<rparr>))"

definition rate_check ::
  "limiter_times \<Rightarrow> string \<Rightarrow> string \<Rightarrow> rate_limiter \<Rightarrow> (limiter_error + unit) \<times> rate_limiter" where
  "rate_check tm agent tool rl =
     (if \<not> rl_enabled (rm_cfg rl) then (Inr (), rl)
      else
        (let (b, rl1) = agent_bucket (lt_agent_new tm) agent rl;
             (r, b') = consume (lt_agent tm) 1 b;
             rl2 = rl1\<lparr>rm_agent_buckets := dict_put agent b' (rm_agent_buckets rl1)\<rparr>
         in case r of
              Inl e \<Rightarrow> (Inl e, rl2)
            | Inr (allowed, retry) \<Rightarrow>
                if \<not> allowed then (Inl (RateLimitExceeded (''agent:'' @ agent) retry), rl2)
                else
                  (let (c, rl3) = tool_bucket (lt_tool_new tm) agent tool rl2;
                       (q, c') = consume (lt_tool tm) 1 c;
                       rl4 = rl3\<lparr>rm_tool_buckets :=
                               dict_put (tool_key agent tool) c' (rm_tool_buckets rl3)\<rparr>
                   in case q of
                        Inl e \<Rightarrow> (Inl e, rl4)
                      | Inr (allowed', retry') \<Rightarrow>
                          if \<not> allowed'
                          then (Inl (RateLimitExceeded (''tool:'' @ agent @ '':'' @ tool) retry'), rl4)
                          else (Inr (), rl4))))"

definition limiter_stats :: "rate_limiter \<Rightarrow> (string, nat) dict" where
  "limiter_stats rl =
     [(''agent_buckets'', length (rm_agent_buckets rl)), (''tool_buckets'', length (rm_tool_buckets rl))]"

section \<open>One bucket\<close>

definition bucket_ok :: "seconds \<Rightarrow> bucket \<Rightarrow> bool" where
  \<comment> \<open>a bucket last used no later than \<open>now\<close>\<close>
  "bucket_ok now b \<longleftrightarrow>
     0 \<le> bk_rate b \<and> 0 \<le> bk_tokens b \<and> bk_tokens b \<le> bk_capacity b \<and> bk_last b \<le> now"

definition admitted :: "(limiter_error + bool \<times> seconds) \<Rightarrow> bool" where
  "admitted r \<longleftrightarrow> (\<exists>w. r = Inr (True, w))"

lemma consume_config [simp]:
  "bk_rate (snd (consume now n b)) = bk_rate b"
  "bk_capacity (snd (consume now n b)) = bk_capacity b"
  "bk_last (snd (consume now n b)) = now"
  by (auto simp: consume_def Let_def)

lemma consume_error: "consume now n b = (Inl e, b') \<Longrightarrow> e = ZeroDivision"
  by (auto simp: consume_def Let_def split: if_splits)

lemma bucket_ok_new: "0 \<le> rate \<Longrightarrow> 0 \<le> capacity \<Longrightarrow> bucket_ok now (new_bucket now rate capacity)"
  by (simp add: bucket_ok_def new_bucket_def)

lemma bucket_ok_later: "bucket_ok now b \<Longrightarrow> now \<le> now' \<Longrightarrow> bucket_ok now' b"
  by (auto simp: bucket_ok_def)

lemma bucket_ok_consume:
  assumes "bucket_ok now b" and "0 \<le> n"
  shows "bucket_ok now (snd (consume now n b))"
  using assms by (auto simp: bucket_ok_def consume_def Let_def)

text \<open>Each admission is paid for by the tokens that were there or have flowed in since.\<close>

lemma consume_pays:
  assumes "bucket_ok now b"
  shows "bk_tokens (snd (consume now 1 b)) + (if admitted (fst (consume now 1 b)) then 1 else 0)
     \<le> min (bk_capacity b) (bk_tokens b + bk_rate b * (now - bk_last b))"
  using assms by (auto simp: admitted_def consume_def Let_def mult.commute)

fun admissions :: "seconds list \<Rightarrow> bucket \<Rightarrow> nat" where
  \<comment> \<open>how many of the requests for one token, at these times, the bucket admits\<close>
  "admissions [] b = 0"
| "admissions (t # ts) b =
     (if admitted (fst (consume t 1 b)) then 1 else 0) + admissions ts (snd (consume t 1 b))"

lemma admissions_from_tokens:
  assumes "bucket_ok t0 b" and "sorted (t0 # ts)" and "bk_last b = t0"
  shows "of_nat (admissions ts b) \<le> bk_tokens b + bk_rate b * (last (t0 # ts) - t0)"
  using assms
proof (induction ts arbitrary: b t0)
  case Nil
  then show ?case by (simp add: bucket_ok_def)
next
  case (Cons t ts)
  let ?b = "snd (consume t 1 b)"
  have ok: "bucket_ok t b" using Cons.prems by (auto intro: bucket_ok_later)
  then have "bucket_ok t ?b" by (intro bucket_ok_consume) simp_all
  then have "of_nat (admissions ts ?b) \<le> bk_tokens ?b + bk_rate b * (last (t # ts) - t)"
    using Cons.IH [of t ?b] Cons.prems by simp
  moreover have "bk_tokens ?b + (if admitted (fst (consume t 1 b)) then 1 else 0)
      \<le> bk_tokens b + bk_rate b * (t - t0)"
    using consume_pays [OF ok] Cons.prems(3) by simp
  ultimately have "of_nat (admissions (t # ts) b)
      \<le> bk_tokens b + bk_rate b * (t - t0) + bk_rate b * (last (t # ts) - t)"
    by (simp split: if_splits)
  then show ?case by (simp add: algebra_simps)
qed

lemma admissions_window:
  assumes "bucket_ok t b" and "sorted (t # ts)"
  shows "of_nat (admissions (t # ts) b) \<le> bk_capacity b + bk_rate b * (last (t # ts) - t)"
proof -
  let ?b = "snd (consume t 1 b)"
  have "bucket_ok t ?b" using assms(1) by (intro bucket_ok_consume) simp_all
  then have "of_nat (admissions ts ?b) \<le> bk_tokens ?b + bk_rate b * (last (t # ts) - t)"
    using admissions_from_tokens [of t ?b ts] assms(2) by simp
  moreover have "bk_tokens ?b + (if admitted (fst (consume t 1 b)) then 1 else 0) \<le> bk_capacity b"
    using consume_pays [OF assms(1)] by simp
  ultimately show ?thesis by (simp split: if_splits)
qed

section \<open>Frames of the limiter\<close>

lemma agent_bucket_frame:
  assumes "agent_bucket now agent rl = (b, rl')"
  shows "rm_cfg rl' = rm_cfg rl" and "rm_tool_buckets rl' = rm_tool_buckets rl"
    and "j \<noteq> agent \<Longrightarrow> dict_get (rm_agent_buckets rl') j = dict_get (rm_agent_buckets rl) j"
  using assms by (auto simp: agent_bucket_def Let_def dest: get_or_create_other split: prod.splits)

lemma tool_bucket_frame:
  assumes "tool_bucket now agent tool rl = (b, rl')"
  shows "rm_cfg rl' = rm_cfg rl" and "rm_agent_buckets rl' = rm_agent_buckets rl"
    and "j \<noteq> tool_key agent tool \<Longrightarrow> dict_get (rm_tool_buckets rl') j = dict_get (rm_tool_buckets rl) j"
  using assms by (auto simp: tool_bucket_def Let_def dest: get_or_create_other split: prod.splits)

definition bucket_for :: "seconds \<Rightarrow> string \<Rightarrow> rate_limiter \<Rightarrow> bucket" where
  \<comment> \<open>the bucket an agent's request at this time uses\<close>
  "bucket_for now agent rl = fst (agent_bucket now agent rl)"

lemma bucket_for_eq:
  "bucket_for now agent rl =
     (case dict_get (rm_agent_buckets rl) agent of
        Some b \<Rightarrow> b
      | None \<Rightarrow> new_bucket now (agent_rate (rm_cfg rl) agent) (agent_burst (rm_cfg rl) agent))"
  by (simp add: bucket_for_def agent_bucket_def get_or_create_def Let_def split: option.splits)

lemma rate_check_frame:
  assumes "rl_enabled (rm_cfg rl)"
  shows "rm_cfg (snd (rate_check tm agent tool rl)) = rm_cfg rl"
    and "dict_get (rm_agent_buckets (snd (rate_check tm agent tool rl))) j =
      (if j = agent then Some (snd (consume (lt_agent tm) 1 (bucket_for (lt_agent_new tm) agent rl)))
       else dict_get (rm_agent_buckets rl) j)"
  using assms
  by (auto simp: rate_check_def Let_def bucket_for_def dict.get_put agent_bucket_frame tool_bucket_frame
      split: prod.splits sum.splits if_splits)

lemma rate_check_admits_agent:
  assumes "rl_enabled (rm_cfg rl)" and "fst (rate_check tm agent tool rl) = Inr ()"
  shows "admitted (fst (consume (lt_agent tm) 1 (bucket_for (lt_agent_new tm) agent rl)))"
  using assms
  by (auto simp: rate_check_def Let_def bucket_for_def admitted_def
      split: prod.splits sum.splits if_splits)

section \<open>The limiter as a machine\<close>

text \<open>
  A request carries its clock readings; the clock does not go backwards, so the readings of a
  request lie between the state's time and the time after it, in the order they are taken.
\<close>

type_synonym limiter_request = "limiter_times \<times> string \<times> string"

definition times_ok :: "seconds \<Rightarrow> limiter_times \<Rightarrow> seconds \<Rightarrow> bool" where
  "times_ok now tm now' \<longleftrightarrow>
     now \<le> lt_agent_new tm \<and> lt_agent_new tm \<le> lt_agent tm \<and> lt_agent tm \<le> lt_tool_new tm \<and>
     lt_tool_new tm \<le> lt_tool tm \<and> lt_tool tm \<le> now'"

inductive limiter_step :: "seconds \<times> rate_limiter \<Rightarrow> limiter_request \<Rightarrow> seconds \<times> rate_limiter \<Rightarrow> bool" where
  "times_ok now tm now' \<Longrightarrow>
   limiter_step (now, rl) (tm, agent, tool) (now', snd (rate_check tm agent tool rl))"

inductive_cases limiter_stepE: "limiter_step s r t"

definition limiter_policy_ok :: "rate_limiting_policy \<Rightarrow> bool" where
  \<comment> \<open>no rate or burst of an agent is negative\<close>
  "limiter_policy_ok cfg \<longleftrightarrow> (\<forall>agent. 0 \<le> agent_rate cfg agent \<and> 0 \<le> agent_burst cfg agent)"

definition fresh_limiter :: "seconds \<times> rate_limiter \<Rightarrow> bool" where
  "fresh_limiter s \<longleftrightarrow>
     snd s = new_rate_limiter (rm_cfg (snd s)) \<and> rl_enabled (rm_cfg (snd s)) \<and>
     limiter_policy_ok (rm_cfg (snd s))"

definition limiter_inv :: "seconds \<times> rate_limiter \<Rightarrow> bool" where
  "limiter_inv s \<longleftrightarrow>
     rl_enabled (rm_cfg (snd s)) \<and> limiter_policy_ok (rm_cfg (snd s)) \<and>
     (\<forall>agent b. dict_get (rm_agent_buckets (snd s)) agent = Some b \<longrightarrow>
        bucket_ok (fst s) b \<and> bk_rate b = agent_rate (rm_cfg (snd s)) agent \<and>
        bk_capacity b = agent_burst (rm_cfg (snd s)) agent)"

lemma limiter_inv_bucket_for:
  assumes "limiter_inv (now, rl)" and "now \<le> t"
  shows "bucket_ok t (bucket_for t agent rl)"
    and "bk_rate (bucket_for t agent rl) = agent_rate (rm_cfg rl) agent"
    and "bk_capacity (bucket_for t agent rl) = agent_burst (rm_cfg rl) agent"
proof -
  have "bucket_ok t (bucket_for t agent rl) \<and>
      bk_rate (bucket_for t agent rl) = agent_rate (rm_cfg rl) agent \<and>
      bk_capacity (bucket_for t agent rl) = agent_burst (rm_cfg rl) agent"
  proof (cases "dict_get (rm_agent_buckets rl) agent")
    case None
    then show ?thesis
      using assms by (auto simp: bucket_for_eq limiter_inv_def limiter_policy_ok_def new_bucket_def bucket_ok_def)
  next
    case (Some b)
    then have "bucket_ok now b" "bk_rate b = agent_rate (rm_cfg rl) agent"
      "bk_capacity b = agent_burst (rm_cfg rl) agent"
      using assms(1) by (auto simp: limiter_inv_def)
    then show ?thesis using Some assms(2) by (auto simp: bucket_for_eq intro: bucket_ok_later)
  qed
  then show "bucket_ok t (bucket_for t agent rl)"
    and "bk_rate (bucket_for t agent rl) = agent_rate (rm_cfg rl) agent"
    and "bk_capacity (bucket_for t agent rl) = agent_burst (rm_cfg rl) agent"
    by auto
qed

lemma limiter_inv_step:
  assumes "limiter_inv s" and "limiter_step s r s'"
  shows "limiter_inv s'"
proof -
  from assms(2) obtain now rl tm agent tool now'
    where s: "s = (now, rl)" "s' = (now', snd (rate_check tm agent tool rl))"
      and tm: "times_ok now tm now'" by (elim limiter_stepE) auto
  have en: "rl_enabled (rm_cfg rl)" and inv: "limiter_inv (now, rl)"
    using assms(1) s by (auto simp: limiter_inv_def)
  let ?b = "bucket_for (lt_agent_new tm) agent rl"
  have le: "now \<le> lt_agent_new tm" "lt_agent_new tm \<le> lt_agent tm" "lt_agent tm \<le> now'"
    using tm by (auto simp: times_ok_def)
  have ok: "bucket_ok (lt_agent tm) ?b"
    using limiter_inv_bucket_for(1) [OF inv le(1)] le(2) by (rule bucket_ok_later)
  have "bucket_ok now' (snd (consume (lt_agent tm) 1 ?b))"
    using bucket_ok_consume [OF ok, of 1] le(3) by (simp add: bucket_ok_later)
  moreover have "bucket_ok now' b" if "dict_get (rm_agent_buckets rl) j = Some b" for j b
  proof -
    have "bucket_ok now b" using that inv by (auto simp: limiter_inv_def)
    moreover have "now \<le> now'" using le by simp
    ultimately show ?thesis by (rule bucket_ok_later)
  qed
  ultimately show ?thesis
    using inv limiter_inv_bucket_for(2,3) [OF inv le(1)] s
    by (auto simp: limiter_inv_def rate_check_frame [OF en])
qed

lemma limiter_inv_fresh: "fresh_limiter s \<Longrightarrow> limiter_inv s"
proof -
  assume fresh: "fresh_limiter s"
  then have "rm_agent_buckets (snd s) = []"
    by (metis fresh_limiter_def new_rate_limiter_def rate_limiter.select_convs(2))
  with fresh show ?thesis by (simp add: fresh_limiter_def limiter_inv_def)
qed

interpretation limiter: invariant_system fresh_limiter limiter_step limiter_inv
  by unfold_locales (fact limiter_inv_fresh, fact limiter_inv_step)

fun serve :: "limiter_request list \<Rightarrow> rate_limiter \<Rightarrow> (limiter_error + unit) list \<times> rate_limiter" where
  \<comment> \<open>requests served one after the other, with their results\<close>
  "serve [] rl = ([], rl)"
| "serve ((tm, agent, tool) # rs) rl =
     (let (res, rl') = rate_check tm agent tool rl; (ress, rl'') = serve rs rl' in (res # ress, rl''))"

fun clocked :: "seconds \<Rightarrow> limiter_request list \<Rightarrow> bool" where
  "clocked now [] = True"
| "clocked now ((tm, agent, tool) # rs) = (times_ok now tm (lt_tool tm) \<and> clocked (lt_tool tm) rs)"

definition agent_times :: "string \<Rightarrow> limiter_request list \<Rightarrow> seconds list" where
  \<comment> \<open>when the requests of one agent reach its bucket\<close>
  "agent_times a rs = map (\<lambda>(tm, _, _). lt_agent tm) (filter (\<lambda>(_, agent, _). agent = a) rs)"

definition agent_passed :: "string \<Rightarrow> limiter_request list \<Rightarrow> rate_limiter \<Rightarrow> nat" where
  \<comment> \<open>how many requests of one agent pass the limiter\<close>
  "agent_passed a rs rl =
     length (filter (\<lambda>((_, agent, _), res). agent = a \<and> res = Inr ()) (zip rs (fst (serve rs rl))))"

lemma agent_passed_simps [simp]:
  "agent_passed a [] rl = 0"
  "agent_passed a ((tm, agent, tool) # rs) rl =
     (if agent = a \<and> fst (rate_check tm agent tool rl) = Inr () then 1 else 0) +
     agent_passed a rs (snd (rate_check tm agent tool rl))"
  by (auto simp: agent_passed_def split: prod.splits)

lemma agent_times_simps [simp]:
  "agent_times a [] = []"
  "agent_times a ((tm, agent, tool) # rs) = (if agent = a then [lt_agent tm] else []) @ agent_times a rs"
  by (auto simp: agent_times_def)

lemma clocked_sorted:
  "clocked now rs \<Longrightarrow> sorted (agent_times a rs) \<and> (\<forall>t \<in> set (agent_times a rs). now \<le> t)"
proof (induction rs arbitrary: now)
  case Nil
  then show ?case by simp
next
  case (Cons r rs)
  obtain tm agent tool where r: "r = (tm, agent, tool)" by (cases r)
  then have "sorted (agent_times a rs)" "\<forall>t \<in> set (agent_times a rs). lt_tool tm \<le> t"
    using Cons.IH [of "lt_tool tm"] Cons.prems by auto
  moreover have "now \<le> lt_agent tm" "lt_agent tm \<le> lt_tool tm"
    using Cons.prems r by (auto simp: times_ok_def)
  ultimately show ?case using r by (auto intro: order_trans)
qed

text \<open>Once an agent has a bucket, at most as many of its requests pass as the bucket admits.\<close>

lemma agent_passed_le_admissions:
  assumes "rl_enabled (rm_cfg rl)" and "dict_get (rm_agent_buckets rl) a = Some b"
  shows "agent_passed a rs rl \<le> admissions (agent_times a rs) b"
  using assms
proof (induction rs arbitrary: rl b)
  case Nil
  then show ?case by simp
next
  case (Cons r rs)
  obtain tm agent tool where r: "r = (tm, agent, tool)" by (cases r)
  let ?rl = "snd (rate_check tm agent tool rl)"
  have en: "rl_enabled (rm_cfg ?rl)" using Cons.prems by (simp add: rate_check_frame)
  have mine: "bucket_for (lt_agent_new tm) agent rl = b" if "agent = a"
    using Cons.prems that by (simp add: bucket_for_eq)
  show ?case
  proof (cases "agent = a")
    case True
    let ?b = "snd (consume (lt_agent tm) 1 b)"
    have "dict_get (rm_agent_buckets ?rl) a = Some ?b"
      using rate_check_frame(2) [OF Cons.prems(1), of tm agent tool a] mine True by simp
    then have "agent_passed a rs ?rl \<le> admissions (agent_times a rs) ?b"
      using Cons.IH en by blast
    then show ?thesis
      using rate_check_admits_agent [OF Cons.prems(1), of tm agent tool] mine True r by auto
  next
    case False
    then have "dict_get (rm_agent_buckets ?rl) a = Some b"
      using rate_check_frame(2) [OF Cons.prems(1), of tm agent tool a] Cons.prems by simp
    then show ?thesis using Cons.IH en False r by simp
  qed
qed

text \<open>The bucket that a run of requests of one agent meets, new or already there.\<close>

lemma agent_bucket_of_run:
  assumes "limiter_inv (now, rl)" and "clocked now rs" and "agent_times a rs = t # ts"
  shows "\<exists>b. bucket_ok t b \<and> bk_rate b = agent_rate (rm_cfg rl) a \<and>
     bk_capacity b = agent_burst (rm_cfg rl) a \<and> agent_passed a rs rl \<le> admissions (t # ts) b"
  using assms
proof (induction rs arbitrary: now rl)
  case Nil
  then show ?case by simp
next
  case (Cons r rs)
  obtain tm agent tool where r: "r = (tm, agent, tool)" by (cases r)
  let ?rl = "snd (rate_check tm agent tool rl)" and ?b = "bucket_for (lt_agent_new tm) agent rl"
  have en: "rl_enabled (rm_cfg rl)" using Cons.prems(1) by (simp add: limiter_inv_def)
  have tm: "times_ok now tm (lt_tool tm)" and rs: "clocked (lt_tool tm) rs"
    using Cons.prems(2) r by auto
  have cfg: "rm_cfg ?rl = rm_cfg rl" using en by (simp add: rate_check_frame)
  show ?case
  proof (cases "agent = a")
    case True
    have "now \<le> lt_agent_new tm" "lt_agent_new tm \<le> lt_agent tm" using tm by (auto simp: times_ok_def)
    then have "bucket_ok (lt_agent tm) ?b" "bk_rate ?b = agent_rate (rm_cfg rl) a"
      "bk_capacity ?b = agent_burst (rm_cfg rl) a"
      using limiter_inv_bucket_for [OF Cons.prems(1)] True by (auto intro: bucket_ok_later)
    moreover have "dict_get (rm_agent_buckets ?rl) a = Some (snd (consume (lt_agent tm) 1 ?b))"
      using rate_check_frame(2) [OF en, of tm agent tool a] True by simp
    then have "agent_passed a rs ?rl \<le> admissions (agent_times a rs) (snd (consume (lt_agent tm) 1 ?b))"
      using en cfg by (intro agent_passed_le_admissions) simp_all
    then have "agent_passed a (r # rs) rl \<le> admissions (t # ts) ?b"
      using rate_check_admits_agent [OF en, of tm agent tool] Cons.prems(3) r True by auto
    moreover have "t = lt_agent tm" using Cons.prems(3) r True by simp
    ultimately show ?thesis by auto
  next
    case False
    have "limiter_inv (lt_tool tm, ?rl)"
      using Cons.prems(1) tm by (blast intro: limiter_inv_step limiter_step.intros)
    then show ?thesis using Cons.IH [of "lt_tool tm" ?rl] rs Cons.prems(3) False r cfg by simp
  qed
qed

lemma passed_in_window:
  assumes "limiter_inv (now, rl)" and "clocked now rs" and "agent_times a rs = t # ts"
  shows "of_nat (agent_passed a rs rl) \<le>
     agent_burst (rm_cfg rl) a + agent_rate (rm_cfg rl) a * (last (t # ts) - t)"
proof -
  obtain b where b: "bucket_ok t b" "bk_rate b = agent_rate (rm_cfg rl) a"
      "bk_capacity b = agent_burst (rm_cfg rl) a" "agent_passed a rs rl \<le> admissions (t # ts) b"
    using agent_bucket_of_run assms by blast
  have "sorted (t # ts)" using clocked_sorted [OF assms(2), of a] assms(3) by simp
  then have "of_nat (admissions (t # ts) b) \<le> bk_capacity b + bk_rate b * (last (t # ts) - t)"
    by (rule admissions_window [OF b(1)])
  then show ?thesis using b by (metis (mono_tags, lifting) of_nat_mono order_trans)
qed

section \<open>Properties\<close>

definition example_policy :: rate_limiting_policy where
  "example_policy = default_rate_limiting_policy
     \<lparr> rl_default_agent_rate := 1, rl_default_agent_burst := 2 \<rparr>"

definition at_time :: "seconds \<Rightarrow> limiter_times" where
  "at_time t = \<lparr> lt_agent_new = t, lt_agent = t, lt_tool_new = t, lt_tool = t \<rparr>"

lemma example_policy_ok: "limiter_policy_ok example_policy"
  by (simp add: limiter_policy_ok_def example_policy_def default_rate_limiting_policy_def
      agent_rate_def agent_burst_def dict_get_default_def)

lemma example_policy_enabled: "rl_enabled example_policy"
  by (simp add: example_policy_def default_rate_limiting_policy_def)

lemma example_limiter_reachable:
  "reachable fresh_limiter limiter_step (0, new_rate_limiter example_policy)"
  by (rule reachable_init)
    (simp add: fresh_limiter_def example_policy_ok example_policy_enabled new_rate_limiter_def)

lemmas limiter_eval = rate_check_def agent_bucket_def tool_bucket_def get_or_create_def consume_def
  new_bucket_def agent_rate_def agent_burst_def dict_get_default_def Let_def
  default_rate_limiting_policy_def new_rate_limiter_def tool_key_def at_time_def

text \<open>C15. However the requests of many agents are interleaved, an agent passes the limiter at
  most \<open>burst + rate * w\<close> times in any run of its requests that spans \<open>w\<close> seconds, with the burst
  and rate its configuration gives it.\<close>

theorem agent_rate_bound:
  assumes "reachable fresh_limiter limiter_step (now, rl)" and "clocked now rs"
    and "agent_times a rs = t # ts"
  shows "of_nat (agent_passed a rs rl) \<le>
     agent_burst (rm_cfg rl) a + agent_rate (rm_cfg rl) a * (last (t # ts) - t)"
  using limiter.reachable_inv [OF assms(1)] assms(2,3) by (rule passed_in_window)

theorem agent_rate_bound_witness:
  "(of_nat (agent_passed ''ops'' [(at_time 1, ''ops'', ''pg.a''), (at_time 1, ''bot'', ''pg.a''),
      (at_time 4, ''ops'', ''pg.b'')] (new_rate_limiter example_policy)) :: rat) \<le> 2 + 1 * (4 - 1)"
  using agent_rate_bound [OF example_limiter_reachable,
    of "[(at_time 1, ''ops'', ''pg.a''), (at_time 1, ''bot'', ''pg.a''), (at_time 4, ''ops'', ''pg.b'')]"
       "''ops''" 1 "[4]"]
  by (simp add: times_ok_def at_time_def new_rate_limiter_def example_policy_def agent_rate_def
      agent_burst_def dict_get_default_def default_rate_limiting_policy_def)

text \<open>C34. When a bucket refuses a request, the time it reports to wait is, up to half a
  millisecond of rounding, exactly the time after which it admits the next one: no request for a
  token is admitted before the unrounded wait has passed, and one at or after it is.\<close>

theorem retry_after_is_exact:
  assumes "consume now 1 b = (Inr (False, w), b')" and "0 < bk_rate b" and "1 \<le> bk_capacity b"
    and "now \<le> t"
  shows "\<exists>wait. \<bar>w - wait\<bar> \<le> 1 / 2000 \<and> 0 < wait \<and>
     (admitted (fst (consume t 1 b')) \<longleftrightarrow> now + wait \<le> t)"
proof -
  have b': "b' = snd (consume now 1 b)" and refused: "bk_tokens b' < 1"
    and w: "w = py_round ((1 - bk_tokens b') / bk_rate b') 3"
    using assms(1) by (auto simp: consume_def Let_def split: if_splits)
  have cfg: "bk_rate b' = bk_rate b" "bk_capacity b' = bk_capacity b" "bk_last b' = now"
    using b' by simp_all
  let ?wait = "(1 - bk_tokens b') / bk_rate b"
  have "admitted (fst (consume t 1 b')) \<longleftrightarrow> 1 \<le> bk_tokens b' + (t - now) * bk_rate b"
    using assms(2,3) cfg by (auto simp: admitted_def consume_def Let_def)
  also have "\<dots> \<longleftrightarrow> now + ?wait \<le> t"
    using assms(2) by (auto simp: field_simps)
  finally have "admitted (fst (consume t 1 b')) \<longleftrightarrow> now + ?wait \<le> t" .
  moreover have "\<bar>w - ?wait\<bar> \<le> 1 / 2000" using py_round_error [of ?wait 3] w cfg by simp
  moreover have "0 < ?wait" using refused assms(2) by simp
  ultimately show ?thesis by blast
qed

theorem retry_after_is_exact_witness:
  "\<exists>wait. \<bar>1 / 2 - wait\<bar> \<le> 1 / 2000 \<and> (0::rat) < wait \<and>
     (admitted (fst (consume 1 1 \<lparr> bk_rate = 2, bk_capacity = 1, bk_tokens = 0, bk_last = 0 \<rparr>)) \<longleftrightarrow>
      0 + wait \<le> 1)"
  by (rule retry_after_is_exact [where b = "\<lparr> bk_rate = 2, bk_capacity = 1, bk_tokens = 0, bk_last = 0 \<rparr>"])
    (simp_all add: consume_def py_round_def round_half_even_def)

text \<open>An agent's requests never touch another agent's bucket, and the buckets of two
  (agent, tool) pairs are kept apart as long as no agent id contains a colon.\<close>

theorem buckets_are_isolated:
  assumes "CHR '':'' \<notin> set agent" and "CHR '':'' \<notin> set agent'" and "agent' \<noteq> agent"
  shows "dict_get (rm_agent_buckets (snd (rate_check tm agent tool rl))) agent' =
           dict_get (rm_agent_buckets rl) agent' \<and>
         dict_get (rm_tool_buckets (snd (rate_check tm agent tool rl))) (tool_key agent' tool') =
           dict_get (rm_tool_buckets rl) (tool_key agent' tool')"
proof
  show "dict_get (rm_agent_buckets (snd (rate_check tm agent tool rl))) agent' =
      dict_get (rm_agent_buckets rl) agent'"
    using assms(3) rate_check_frame(2) [of rl tm agent tool agent']
    by (cases "rl_enabled (rm_cfg rl)") (simp_all add: rate_check_def)
  have "takeWhile (\<lambda>c. c \<noteq> CHR '':'') (tool_key ag tl) = ag" if "CHR '':'' \<notin> set ag" for ag tl
    using that by (induction ag) (auto simp: tool_key_def)
  then have "tool_key agent' tool' \<noteq> tool_key agent tool" using assms by metis
  then show "dict_get (rm_tool_buckets (snd (rate_check tm agent tool rl))) (tool_key agent' tool') =
      dict_get (rm_tool_buckets rl) (tool_key agent' tool')"
    by (auto simp: rate_check_def Let_def dict.get_put tool_bucket_frame agent_bucket_frame
        split: prod.splits sum.splits)
qed

theorem buckets_are_isolated_witness:
  "dict_get (rm_agent_buckets (snd (rate_check (at_time 1) ''ops'' ''pg.a'' (new_rate_limiter example_policy)))) ''bot'' =
     dict_get (rm_agent_buckets (new_rate_limiter example_policy)) ''bot''"
  by (rule buckets_are_isolated [THEN conjunct1]) simp_all

text \<open>The key of a tool bucket joins agent and tool with a colon and nothing is escaped, so
  two different agents can share a bucket: with a burst of one, the agent \<open>a\<close> is refused its first
  call of \<open>b:t\<close> after the agent \<open>a:b\<close> has called \<open>t\<close>.\<close>

theorem tool_buckets_collide:
  "map fst [rate_check (at_time 0) ''a:b'' ''t'' rl,
            rate_check (at_time 0) ''a'' ''b:t'' (snd (rate_check (at_time 0) ''a:b'' ''t'' rl))] =
     [Inr (), Inl (RateLimitExceeded ''tool:a:b:t'' (1 / 5))]"
  if "rl = new_rate_limiter (default_rate_limiting_policy\<lparr>rl_default_tool_burst := 1\<rparr>)"
  unfolding that by (simp add: limiter_eval py_round_def round_half_even_def)

theorem tool_buckets_collide_witness:
  "fst (rate_check (at_time 0) ''a:b'' ''t''
     (new_rate_limiter (default_rate_limiting_policy\<lparr>rl_default_tool_burst := 1\<rparr>))) = Inr ()"
  using tool_buckets_collide [OF refl] by simp

text \<open>A call that the tool's bucket refuses has already cost the agent a token: both checks
  are made in order and nothing is given back.\<close>

theorem refused_tool_costs_agent_token:
  assumes "rate_check tm agent tool rl = (Inl (RateLimitExceeded (''tool:'' @ agent @ '':'' @ tool) w), rl')"
    and "dict_get (rm_agent_buckets rl) agent = Some b"
  shows "dict_get (rm_agent_buckets rl') agent =
     Some (b\<lparr>bk_tokens := min (bk_capacity b) (bk_tokens b + (lt_agent tm - bk_last b) * bk_rate b) - 1,
             bk_last := lt_agent tm\<rparr>)"
proof -
  have en: "rl_enabled (rm_cfg rl)"
    using assms(1) by (auto simp: rate_check_def split: if_splits)
  have bucket: "bucket_for (lt_agent_new tm) agent rl = b"
    using assms(2) by (simp add: bucket_for_eq)
  have "admitted (fst (consume (lt_agent tm) 1 (bucket_for (lt_agent_new tm) agent rl)))"
    using assms(1) en
    by (auto simp: rate_check_def Let_def bucket_for_def admitted_def dest: consume_error
        split: prod.splits sum.splits if_splits)
  then have "snd (consume (lt_agent tm) 1 b) =
      b\<lparr>bk_tokens := min (bk_capacity b) (bk_tokens b + (lt_agent tm - bk_last b) * bk_rate b) - 1,
        bk_last := lt_agent tm\<rparr>"
    unfolding bucket by (auto simp: admitted_def consume_def Let_def split: if_splits)
  then show ?thesis
    using rate_check_frame(2) [OF en, of tm agent tool agent] assms(1) bucket by simp
qed

theorem refused_tool_costs_agent_token_witness:
  "dict_get (rm_agent_buckets (snd (rate_check (at_time 0) ''ops'' ''t''
     \<lparr> rm_cfg = default_rate_limiting_policy\<lparr>rl_default_tool_burst := 0\<rparr>,
       rm_agent_buckets = [(''ops'', new_bucket 0 10 20)], rm_tool_buckets = [] \<rparr>))) ''ops'' =
   Some (new_bucket 0 10 20\<lparr>bk_tokens := 19\<rparr>)"
proof -
  let ?rl = "\<lparr> rm_cfg = default_rate_limiting_policy\<lparr>rl_default_tool_burst := 0\<rparr>,
       rm_agent_buckets = [(''ops'', new_bucket 0 10 20)], rm_tool_buckets = [] \<rparr>"
  have "fst (rate_check (at_time 0) ''ops'' ''t'' ?rl) = Inl (RateLimitExceeded (''tool:'' @ ''ops'' @ '':'' @ ''t'') (1 / 5))"
    by (simp add: limiter_eval py_round_def round_half_even_def)
  then have "rate_check (at_time 0) ''ops'' ''t'' ?rl =
      (Inl (RateLimitExceeded (''tool:'' @ ''ops'' @ '':'' @ ''t'') (1 / 5)), snd (rate_check (at_time 0) ''ops'' ''t'' ?rl))"
    by (metis prod.collapse)
  from refused_tool_costs_agent_token [OF this, of "new_bucket 0 10 20"] show ?thesis
    by (simp add: at_time_def new_bucket_def)
qed

end
