(* ===== verification/Guardrails.thy ===== *)
theory Guardrails
  imports Gateway_Config Metrics
begin

text \<open>
  The safety filter of \<open>app/guardrails/safety.py\<close> and the argument validator of
  \<open>app/guardrails/schema_validator.py\<close>.

  The regular expressions of the rules come from the operator's configuration; \<open>re.compile\<close> with
  its search is the parameter \<open>re_compile\<close>, which gives \<open>None\<close> for a pattern it refuses. The
  \<open>jsonschema\<close> package is the parameter \<open>draft7\<close>: it refuses a schema, or gives the function that
  lists the errors of a value, which may itself raise.

  A check returns the violation it raises, if any, and the metric updates it makes.
\<close>

section \<open>Safety rules\<close>

datatype violation_detail =
    ForbiddenSubstring string
  | ForbiddenPattern string
  | BelowMin string json rat
  | AboveMax string json rat

datatype guardrail_violation = GuardrailViolation string violation_detail

type_synonym re_engine = "string \<Rightarrow> (string \<Rightarrow> bool) option"

record compiled_rule =
  cm_rule :: safety_rule
  cm_regexes :: "(string \<times> (string \<Rightarrow> bool)) list"
  cm_forbidden_lower :: "string list"

datatype regex_error = RegexError string

definition compile_pattern :: "re_engine \<Rightarrow> string \<Rightarrow> regex_error + (string \<times> (string \<Rightarrow> bool))" where
  "compile_pattern re_compile p =
     (case re_compile p of None \<Rightarrow> Inl (RegexError p) | Some m \<Rightarrow> Inr (p, m))"

definition compile_rule :: "re_engine \<Rightarrow> safety_rule \<Rightarrow> regex_error + compiled_rule" where
  "compile_rule re_compile r =
     (case traverse (compile_pattern re_compile) (sr_forbidden_regex r) of
        Inl e \<Rightarrow> Inl e
      | Inr ms \<Rightarrow> Inr \<lparr> cm_rule = r, cm_regexes = ms,
                       cm_forbidden_lower = map lower (sr_forbidden_substrings r) \<rparr>)"

record safety_filter =
  sf_policy :: guardrails_policy
  sf_compiled :: "compiled_rule list"

definition new_safety_filter :: "re_engine \<Rightarrow> guardrails_policy \<Rightarrow> regex_error + safety_filter" where
  "new_safety_filter re_compile policy =
     (case traverse (compile_rule re_compile) (gp_rules policy) of
        Inl e \<Rightarrow> Inl e
      | Inr cs \<Rightarrow> Inr \<lparr> sf_policy = policy, sf_compiled = cs \<rparr>)"

definition check_string :: "compiled_rule \<Rightarrow> string \<Rightarrow> violation_detail option" where
  \<comment> \<open>one turn of the loop over the strings\<close>
  "check_string c s =
     (case first_some (\<lambda>bad. if contains bad (lower s) then Some (ForbiddenSubstring bad) else None)
             (cm_forbidden_lower c) of
        Some d \<Rightarrow> Some d
      | None \<Rightarrow> first_some (\<lambda>(p, m). if m s then Some (ForbiddenPattern p) else None) (cm_regexes c))"

fun number_of :: "json \<Rightarrow> rat option" where
  \<comment> \<open>\<open>isinstance(val, (int, float)) and not isinstance(val, bool)\<close>\<close>
  "number_of (JInt n) = Some (of_int n)"
| "number_of (JFloat x) = Some x"
| "number_of _ = None"

definition check_range :: "jdict \<Rightarrow> string \<times> (string, rat) dict \<Rightarrow> violation_detail option" where
  \<comment> \<open>one turn of the loop over the numeric ranges\<close>
  "check_range args nb =
     (let (arg_name, bounds) = nb
      in case dict_get args arg_name of
           None \<Rightarrow> None
         | Some val \<Rightarrow>
             (case number_of val of
                None \<Rightarrow> None
              | Some x \<Rightarrow>
                  (case dict_get bounds ''min'' of
                     Some lo \<Rightarrow> if x < lo then Some (BelowMin arg_name val lo)
                                else (case dict_get bounds ''max'' of
                                        Some hi \<Rightarrow> if hi < x then Some (AboveMax arg_name val hi) else None
                                      | None \<Rightarrow> None)
                   | None \<Rightarrow> (case dict_get bounds ''max'' of
                                Some hi \<Rightarrow> if hi < x then Some (AboveMax arg_name val hi) else None
                              | None \<Rightarrow> None))))"

definition check_rule :: "compiled_rule \<Rightarrow> string \<Rightarrow> jdict \<Rightarrow> guardrail_violation option" where
  "check_rule c tool args =
     (if sr_tool (cm_rule c) \<noteq> ''*'' \<and> sr_tool (cm_rule c) \<noteq> tool then None
      else map_option (GuardrailViolation (sr_name (cm_rule c)))
        (case first_some (check_string c) (iter_strings (JDict args)) of
           Some d \<Rightarrow> Some d
         | None \<Rightarrow> first_some (check_range args) (sr_numeric_ranges (cm_rule c))))"

fun violated_rule :: "guardrail_violation \<Rightarrow> string" where
  "violated_rule (GuardrailViolation r d) = r"

definition safety_check ::
  "safety_filter \<Rightarrow> string \<Rightarrow> jdict \<Rightarrow> (guardrail_violation + unit) \<times> metric list" where
  \<comment> \<open>every raise is preceded by one increment, labelled with the rule and the tool\<close>
  "safety_check sf tool arguments =
     (if \<not> gp_enabled (sf_policy sf) then (Inr (), [])
      else (case first_some (\<lambda>c. check_rule c tool arguments) (sf_compiled sf) of
              None \<Rightarrow> (Inr (), [])
            | Some v \<Rightarrow> (Inl v, [GuardrailBlocksTotal (violated_rule v) tool])))"

section \<open>What a rule forbids\<close>

text \<open>A string is a leaf of a value when it stands anywhere inside it except as a key.\<close>

inductive str_leaf :: "string \<Rightarrow> json \<Rightarrow> bool" where
  leaf_here: "str_leaf s (JStr s)"
| leaf_value: "(k, v) \<in> set d \<Longrightarrow> str_leaf s v \<Longrightarrow> str_leaf s (JDict d)"
| leaf_item: "v \<in> set xs \<Longrightarrow> str_leaf s v \<Longrightarrow> str_leaf s (JList xs)"

inductive_simps str_leaf_simps [simp]:
  "str_leaf s (JStr t)" "str_leaf s (JDict d)" "str_leaf s (JList xs)" "str_leaf s JNull"
  "str_leaf s (JBool b)" "str_leaf s (JInt n)" "str_leaf s (JFloat x)"

lemma iter_strings_leaf: "s \<in> set (iter_strings v) \<longleftrightarrow> str_leaf s v"
  by (induction v rule: iter_strings.induct) (fastforce)+

definition in_range :: "(string, rat) dict \<Rightarrow> rat \<Rightarrow> bool" where
  "in_range bounds x \<longleftrightarrow>
     (case dict_get bounds ''min'' of Some lo \<Rightarrow> lo \<le> x | None \<Rightarrow> True) \<and>
     (case dict_get bounds ''max'' of Some hi \<Rightarrow> x \<le> hi | None \<Rightarrow> True)"

definition rule_satisfied :: "re_engine \<Rightarrow> safety_rule \<Rightarrow> jdict \<Rightarrow> bool" where
  \<comment> \<open>the specification of one rule: no string inside the arguments contains a banned substring,
      whatever its case, or matches a banned pattern; every top-level number is in its range\<close>
  "rule_satisfied re_compile r args \<longleftrightarrow>
     (\<forall>s. str_leaf s (JDict args) \<longrightarrow>
        (\<forall>bad \<in> set (sr_forbidden_substrings r). \<not> contains (lower bad) (lower s)) \<and>
        (\<forall>p \<in> set (sr_forbidden_regex r). \<not> the (re_compile p) s)) \<and>
     (\<forall>(name, bounds) \<in> set (sr_numeric_ranges r). \<forall>v x.
        dict_get args name = Some v \<longrightarrow> number_of v = Some x \<longrightarrow> in_range bounds x)"

lemma or_else_None [simp]:
  "(case x of None \<Rightarrow> y | Some d \<Rightarrow> Some d) = None \<longleftrightarrow> x = None \<and> y = None"
  by (auto split: option.splits)

lemma check_range_None:
  "check_range args (name, bounds) = None \<longleftrightarrow>
   (\<forall>v x. dict_get args name = Some v \<longrightarrow> number_of v = Some x \<longrightarrow> in_range bounds x)"
  by (auto simp: check_range_def in_range_def not_less split: option.splits if_splits)

lemma compile_rule_fields:
  assumes "compile_rule re_compile r = Inr c"
  shows "cm_rule c = r" and "cm_forbidden_lower c = map lower (sr_forbidden_substrings r)"
    and "cm_regexes c = map (\<lambda>p. (p, the (re_compile p))) (sr_forbidden_regex r)"
proof -
  obtain ms where ms: "traverse (compile_pattern re_compile) (sr_forbidden_regex r) = Inr ms"
    and c: "c = \<lparr> cm_rule = r, cm_regexes = ms,
                  cm_forbidden_lower = map lower (sr_forbidden_substrings r) \<rparr>"
    using assms by (auto simp: compile_rule_def split: sum.splits)
  have "ms = map (\<lambda>p. (p, the (re_compile p))) (sr_forbidden_regex r)"
    using ms unfolding traverse_Inr
    by (induction rule: list_all2_induct) (auto simp: compile_pattern_def split: option.splits)
  then show "cm_rule c = r" and "cm_forbidden_lower c = map lower (sr_forbidden_substrings r)"
    and "cm_regexes c = map (\<lambda>p. (p, the (re_compile p))) (sr_forbidden_regex r)"
    using c by auto
qed

lemma check_string_None:
  assumes "compile_rule re_compile r = Inr c"
  shows "check_string c s = None \<longleftrightarrow>
     (\<forall>bad \<in> set (sr_forbidden_substrings r). \<not> contains (lower bad) (lower s)) \<and>
     (\<forall>p \<in> set (sr_forbidden_regex r). \<not> the (re_compile p) s)"
  by (auto simp: check_string_def compile_rule_fields [OF assms])

lemma check_rule_None:
  assumes "compile_rule re_compile r = Inr c"
  shows "check_rule c tool args = None \<longleftrightarrow>
     (sr_tool r = ''*'' \<or> sr_tool r = tool \<longrightarrow> rule_satisfied re_compile r args)"
proof -
  have strings: "(\<forall>s \<in> set (iter_strings (JDict args)). check_string c s = None) \<longleftrightarrow>
      (\<forall>s. str_leaf s (JDict args) \<longrightarrow> check_string c s = None)"
    by (simp only: Ball_def iter_strings_leaf)
  have ranges: "(\<forall>nb \<in> set (sr_numeric_ranges r). check_range args nb = None) \<longleftrightarrow>
      (\<forall>(name, bounds) \<in> set (sr_numeric_ranges r). \<forall>v x.
         dict_get args name = Some v \<longrightarrow> number_of v = Some x \<longrightarrow> in_range bounds x)"
    by (auto simp: check_range_None)
  have checks: "check_rule c tool args = None \<longleftrightarrow> (sr_tool r \<noteq> ''*'' \<and> sr_tool r \<noteq> tool) \<or>
      (\<forall>s \<in> set (iter_strings (JDict args)). check_string c s = None) \<and>
      (\<forall>nb \<in> set (sr_numeric_ranges r). check_range args nb = None)"
    by (simp add: check_rule_def compile_rule_fields(1) [OF assms] del: iter_strings.simps)
  show ?thesis
    using checks [unfolded strings ranges]
    unfolding check_string_None [OF assms] rule_satisfied_def by blast
qed

lemma compiled_rules:
  assumes "new_safety_filter re_compile policy = Inr sf"
  shows "sf_policy sf = policy" and "list_all2 (\<lambda>r c. compile_rule re_compile r = Inr c) (gp_rules policy) (sf_compiled sf)"
  using assms by (auto simp: new_safety_filter_def traverse_Inr split: sum.splits)

lemma all_rules_pass:
  assumes "list_all2 (\<lambda>r c. compile_rule re_compile r = Inr c) rs cs"
  shows "(\<forall>c \<in> set cs. check_rule c tool args = None) \<longleftrightarrow>
     (\<forall>r \<in> set rs. sr_tool r = ''*'' \<or> sr_tool r = tool \<longrightarrow> rule_satisfied re_compile r args)"
  using assms by (induction rule: list_all2_induct) (auto simp: check_rule_None)

section \<open>Schema validation\<close>

datatype path_elem = PKey string | PIdx int

text \<open>
  Paths are compared as Python compares lists: element by element. Two elements of the same kind
  compare as strings or numbers; keys and indices never stand at the same place of the same value.
\<close>

instantiation path_elem :: linorder
begin

fun less_eq_path_elem :: "path_elem \<Rightarrow> path_elem \<Rightarrow> bool" where
  "less_eq_path_elem (PIdx i) (PIdx j) = (i \<le> j)"
| "less_eq_path_elem (PIdx i) (PKey t) = True"
| "less_eq_path_elem (PKey s) (PIdx j) = False"
| "less_eq_path_elem (PKey s) (PKey t) = (s \<le> t)"

definition less_path_elem :: "path_elem \<Rightarrow> path_elem \<Rightarrow> bool" where
  "less_path_elem p q \<longleftrightarrow> p \<le> q \<and> \<not> q \<le> p"

instance
proof
  fix p q r :: path_elem
  show "(p < q) = (p \<le> q \<and> \<not> q \<le> p)" by (simp add: less_path_elem_def)
  show "p \<le> p" by (cases p) simp_all
  show "p \<le> q \<Longrightarrow> q \<le> r \<Longrightarrow> p \<le> r" by (cases p; cases q; cases r) auto
  show "p \<le> q \<Longrightarrow> q \<le> p \<Longrightarrow> p = q" by (cases p; cases q) auto
  show "p \<le> q \<or> q \<le> p" by (cases p; cases q) auto
qed

end

record schema_violation =
  se_path :: "path_elem list"
  se_absolute_path :: "path_elem list"
  se_message :: string

record field_error =
  fe_field :: string
  fe_error :: string

datatype schema_message =
    MissingSchema string
  | ArgumentsInvalid string nat

datatype schema_failure =
    SchemaValidationError schema_message "field_error list"
  | ValidatorRaised string

type_synonym draft7 = "jdict \<Rightarrow> string + (jdict \<Rightarrow> string + schema_violation list)"

fun show_elem :: "path_elem \<Rightarrow> string" where
  "show_elem (PKey s) = s"
| "show_elem (PIdx n) = show_int n"

definition field_name :: "path_elem list \<Rightarrow> string" where
  \<comment> \<open>\<open>".".join(str(p) for p in path) or "$"\<close>\<close>
  "field_name path = (let f = join ''.'' (map show_elem path) in if f = [] then ''$'' else f)"

definition field_error_of :: "schema_violation \<Rightarrow> field_error" where
  "field_error_of e = \<lparr> fe_field = field_name (se_absolute_path e), fe_error = se_message e \<rparr>"

definition validate_arguments ::
  "draft7 \<Rightarrow> schema_validation_config \<Rightarrow> string \<Rightarrow> jdict \<Rightarrow> jdict option \<Rightarrow>
   (schema_failure + unit) \<times> metric list" where
  "validate_arguments draft7 cfg tool_name arguments input_schema =
     (if \<not> sv_enabled cfg then (Inr (), [])
      else if input_schema = None \<or> input_schema = Some [] then
        (if sv_strict_on_missing_schema cfg
         then (Inl (SchemaValidationError (MissingSchema tool_name)
                 [\<lparr> fe_field = ''$'', fe_error = ''missing inputSchema'' \<rparr>]), [])
         else (Inr (), []))
      else
        (case draft7 (the input_schema) of
           Inl bad \<Rightarrow> (Inr (), [])
         | Inr iter_errors \<Rightarrow>
             (case iter_errors arguments of
                Inl exc \<Rightarrow> (Inl (ValidatorRaised exc), [])
              | Inr found \<Rightarrow>
                  (let errors = sort_key se_path found
                   in if errors = [] then (Inr (), [])
                      else (Inl (SchemaValidationError (ArgumentsInvalid tool_name (length errors))
                              (map field_error_of errors)),
                            [GuardrailBlocksTotal ''schema_validation'' tool_name])))))"

section \<open>Properties\<close>

definition sql_rule :: safety_rule where
  "sql_rule = (safety_rule_named ''no-destructive-sql'')
     \<lparr> sr_tool := ''execute_sql'', sr_forbidden_substrings := [''DROP TABLE''],
       sr_numeric_ranges := [(''limit'', [(''min'', 1), (''max'', 1000)])] \<rparr>"

definition sql_filter :: safety_filter where
  "sql_filter = \<lparr> sf_policy = \<lparr> gp_enabled = True, gp_rules = [sql_rule] \<rparr>,
     sf_compiled = [\<lparr> cm_rule = sql_rule, cm_regexes = [],
                      cm_forbidden_lower = map lower (sr_forbidden_substrings sql_rule) \<rparr>] \<rparr>"

lemma sql_filter_compiled:
  "new_safety_filter (\<lambda>_. None) \<lparr> gp_enabled = True, gp_rules = [sql_rule] \<rparr> = Inr sql_filter"
  by (simp add: new_safety_filter_def compile_rule_def sql_filter_def)
    (simp add: sql_rule_def safety_rule_named_def)

lemmas guardrail_eval = sql_filter_def sql_rule_def safety_rule_named_def safety_check_def
  check_rule_def check_string_def check_range_def lower_def

text \<open>C17. The filter lets a call through exactly when it is switched off or every rule for this
  tool (or for all tools) is satisfied: no string anywhere inside the arguments contains a banned
  substring in any case or matches a banned pattern, and every top-level number is in its range.\<close>

theorem guardrails_pass_iff:
  assumes "new_safety_filter re_compile policy = Inr sf"
  shows "fst (safety_check sf tool arguments) = Inr () \<longleftrightarrow>
     \<not> gp_enabled policy \<or>
     (\<forall>r \<in> set (gp_rules policy). sr_tool r = ''*'' \<or> sr_tool r = tool \<longrightarrow>
        rule_satisfied re_compile r arguments)"
proof -
  note sf = compiled_rules [OF assms]
  show ?thesis
    using all_rules_pass [OF sf(2), of tool arguments] sf(1)
    by (auto simp: safety_check_def split: option.splits)
      (metis first_some_None option.distinct(1))+
qed

theorem guardrails_pass_iff_witness:
  "fst (safety_check sql_filter ''execute_sql'' [(''q'', JList [JStr ''x; drop table t''])]) \<noteq> Inr () \<and>
   \<not> rule_satisfied (\<lambda>_. None) sql_rule [(''q'', JList [JStr ''x; drop table t''])]"
  using guardrails_pass_iff [OF sql_filter_compiled, of "''execute_sql''" "[(''q'', JList [JStr ''x; drop table t''])]"]
  by (simp add: guardrail_eval)

text \<open>A blocked call names a rule of the policy that applies to the tool and that the
  arguments violate, the first such rule in the policy's order, and increments the block counter
  of that rule and tool exactly once; a call that passes increments nothing.\<close>

theorem guardrail_block_reported:
  assumes "new_safety_filter re_compile policy = Inr sf"
    and "safety_check sf tool arguments = (res, ms)"
  shows "(res = Inr () \<and> ms = []) \<or>
     (\<exists>before r after d. gp_rules policy = before @ r # after \<and>
        res = Inl (GuardrailViolation (sr_name r) d) \<and> ms = [GuardrailBlocksTotal (sr_name r) tool] \<and>
        (sr_tool r = ''*'' \<or> sr_tool r = tool) \<and> \<not> rule_satisfied re_compile r arguments \<and>
        (\<forall>q \<in> set before. sr_tool q = ''*'' \<or> sr_tool q = tool \<longrightarrow> rule_satisfied re_compile q arguments))"
proof (cases "res = Inr ()")
  case True
  then show ?thesis using assms(2) by (auto simp: safety_check_def split: if_splits option.splits)
next
  case False
  then obtain v where v: "first_some (\<lambda>c. check_rule c tool arguments) (sf_compiled sf) = Some v"
    and res: "res = Inl v" "ms = [GuardrailBlocksTotal (violated_rule v) tool]"
    using assms(2) by (auto simp: safety_check_def split: if_splits option.splits)
  from v obtain us c vs where c: "sf_compiled sf = us @ c # vs" "check_rule c tool arguments = Some v"
    and us: "\<forall>u \<in> set us. check_rule u tool arguments = None"
    by (auto simp: first_some_Some)
  from compiled_rules(2) [OF assms(1)] obtain before r after
    where rules: "gp_rules policy = before @ r # after"
      and r: "compile_rule re_compile r = Inr c"
      and before: "list_all2 (\<lambda>r c. compile_rule re_compile r = Inr c) before us"
    unfolding c(1) by (auto simp: list_all2_append2 list_all2_Cons2)
  obtain d where d: "v = GuardrailViolation (sr_name r) d"
    using c(2) compile_rule_fields(1) [OF r] by (auto simp: check_rule_def split: if_splits)
  have "(sr_tool r = ''*'' \<or> sr_tool r = tool) \<and> \<not> rule_satisfied re_compile r arguments"
    using check_rule_None [OF r, of tool arguments] c(2) by auto
  then show ?thesis
    using rules res d all_rules_pass [OF before, of tool arguments] us by auto
qed

theorem guardrail_block_reported_witness:
  "\<exists>d. fst (safety_check sql_filter ''execute_sql'' [(''limit'', JInt 5000)]) =
     Inl (GuardrailViolation ''no-destructive-sql'' d)"
  using guardrail_block_reported [OF sql_filter_compiled prod.collapse [symmetric],
      of "''execute_sql''" "[(''limit'', JInt 5000)]"]
  by (auto simp: guardrail_eval)


definition missing_query :: schema_violation where
  "missing_query = \<lparr> se_path = [], se_absolute_path = [], se_message = ''q is required'' \<rparr>"


text \<open>With strict validation a tool without a schema is refused, although the module's
  configuration notes say that the strict setting treats a missing schema as accepting any
  arguments; without it the call passes.\<close>

theorem missing_schema_blocks_only_when_strict:
  assumes "sv_enabled cfg" and "schema = None \<or> schema = Some []"
  shows "fst (validate_arguments draft7 cfg tool arguments schema) = Inr () \<longleftrightarrow>
     \<not> sv_strict_on_missing_schema cfg"
  using assms by (auto simp: validate_arguments_def)

theorem missing_schema_blocks_only_when_strict_witness:
  "fst (validate_arguments (\<lambda>_. Inl ''bad'') \<lparr> sv_enabled = True, sv_strict_on_missing_schema = True \<rparr>
     ''t'' [] None) \<noteq> Inr ()"
  by (subst missing_schema_blocks_only_when_strict) simp_all

end
