(* ===== verification/Pattern_Matching.thy ===== *)
theory Pattern_Matching
  imports Json_Values
begin

text \<open>
  The part of Python's \<open>re\<close> that the fixed patterns of the gateway use. A pattern is a term of
  \<open>rx\<close>; \<open>ends\<close> gives the ends of its matches at a position in the order a backtracking matcher
  tries them, so the first is the match \<open>re\<close> reports; \<open>subn\<close> is \<open>pattern.subn(repl, text)\<close> for
  a replacement without backslashes. \<open>\d\<close> and \<open>\b\<close> are taken on ASCII.

  The lemmas show that a substitution leaves no match of its own pattern behind and creates none of
  another: \<open>subn_no_match\<close>.
\<close>

section \<open>Patterns\<close>

datatype rx =
    Cls "char \<Rightarrow> bool"
  | Sq rx rx
  | Greedy rx nat "nat option"
  | LazyStar rx
  | WordB

definition word_char :: "char \<Rightarrow> bool" where
  "word_char c \<longleftrightarrow>
     (CHR ''a'' \<le> c \<and> c \<le> CHR ''z'') \<or> (CHR ''A'' \<le> c \<and> c \<le> CHR ''Z'') \<or>
     (CHR ''0'' \<le> c \<and> c \<le> CHR ''9'') \<or> c = CHR ''_''"

definition word_at :: "string \<Rightarrow> nat \<Rightarrow> bool" where
  "word_at s i \<longleftrightarrow> i < length s \<and> word_char (s ! i)"

definition boundary :: "string \<Rightarrow> nat \<Rightarrow> bool" where
  "boundary s i \<longleftrightarrow> (0 < i \<and> word_at s (i - 1)) \<noteq> word_at s i"

fun rep_greedy :: "nat \<Rightarrow> nat \<Rightarrow> (nat \<Rightarrow> nat list) \<Rightarrow> nat \<Rightarrow> nat list" where
  \<comment> \<open>at most \<open>n\<close> and at least \<open>lo\<close> turns, more turns first\<close>
  "rep_greedy 0 lo f i = (if lo = 0 then [i] else [])"
| "rep_greedy (Suc n) lo f i =
     concat (map (rep_greedy n (lo - 1) f) (f i)) @ (if lo = 0 then [i] else [])"

fun rep_lazy :: "nat \<Rightarrow> (nat \<Rightarrow> nat list) \<Rightarrow> nat \<Rightarrow> nat list" where
  "rep_lazy 0 f i = [i]"
| "rep_lazy (Suc n) f i = i # concat (map (rep_lazy n f) (f i))"

primrec ends :: "rx \<Rightarrow> string \<Rightarrow> nat \<Rightarrow> nat list" where
  "ends (Cls P) s i = (if i < length s \<and> P (s ! i) then [Suc i] else [])"
| "ends (Sq a b) s i = concat (map (ends b s) (ends a s i))"
| "ends (Greedy r lo hi) s i = rep_greedy (case hi of Some h \<Rightarrow> h | None \<Rightarrow> length s) lo (ends r s) i"
| "ends (LazyStar r) s i = rep_lazy (length s) (ends r s) i"
| "ends WordB s i = (if boundary s i then [i] else [])"

fun seq :: "rx list \<Rightarrow> rx" where
  "seq [] = Greedy (Cls (\<lambda>_. True)) 0 (Some 0)"
| "seq [r] = r"
| "seq (r # rs) = Sq r (seq rs)"

section \<open>Substitution\<close>

function sub_from :: "rx \<Rightarrow> string \<Rightarrow> string \<Rightarrow> nat \<Rightarrow> string \<times> nat" where
  \<comment> \<open>the rest of the text from position \<open>i\<close> on, with the matches replaced, and their number; the
      patterns here do not match the empty string\<close>
  "sub_from r repl s i =
     (if length s \<le> i then ([], 0)
      else
        (case ends r s i of
           [] \<Rightarrow> (let (t, n) = sub_from r repl s (Suc i) in (s ! i # t, n))
         | e # _ \<Rightarrow>
             if i < e then (let (t, n) = sub_from r repl s e in (repl @ t, Suc n))
             else (let (t, n) = sub_from r repl s (Suc i) in (s ! i # t, n))))"
  by pat_completeness auto
termination
  by (relation "measure (\<lambda>(r, repl, s, i). length s - i)") auto

declare sub_from.simps [simp del]

definition subn :: "rx \<Rightarrow> string \<Rightarrow> string \<Rightarrow> string \<times> nat" where
  "subn r repl s = sub_from r repl s 0"

section \<open>Where a match can end\<close>

primrec turns :: "nat \<Rightarrow> (nat \<Rightarrow> nat list) \<Rightarrow> nat \<Rightarrow> nat set" where
  \<comment> \<open>the ends of exactly \<open>k\<close> turns\<close>
  "turns 0 f i = {i}"
| "turns (Suc k) f i = (\<Union>m \<in> set (f i). turns k f m)"

lemma ex_nat_split: "(\<exists>k. P k) \<longleftrightarrow> P 0 \<or> (\<exists>k. P (Suc k))" for P :: "nat \<Rightarrow> bool"
  by (metis not0_implies_Suc)

lemma rep_greedy_turns:
  "e \<in> set (rep_greedy n lo f i) \<longleftrightarrow> (\<exists>k. lo \<le> k \<and> k \<le> n \<and> e \<in> turns k f i)"
proof (induction n arbitrary: lo i)
  case 0
  then show ?case by auto
next
  case (Suc n)
  have "e \<in> set (rep_greedy (Suc n) lo f i) \<longleftrightarrow>
      (\<exists>m \<in> set (f i). \<exists>k. lo - 1 \<le> k \<and> k \<le> n \<and> e \<in> turns k f m) \<or> (lo = 0 \<and> e = i)"
    using Suc.IH by auto
  also have "\<dots> \<longleftrightarrow> (\<exists>k. lo \<le> k \<and> k \<le> Suc n \<and> e \<in> turns k f i)"
    by (subst (2) ex_nat_split) (auto simp: le_diff_conv)
  finally show ?case .
qed

lemma rep_lazy_turns: "e \<in> set (rep_lazy n f i) \<longleftrightarrow> (\<exists>k. k \<le> n \<and> e \<in> turns k f i)"
proof (induction n arbitrary: i)
  case 0
  then show ?case by simp
next
  case (Suc n)
  have "e \<in> set (rep_lazy (Suc n) f i) \<longleftrightarrow>
      e = i \<or> (\<exists>m \<in> set (f i). \<exists>k. k \<le> n \<and> e \<in> turns k f m)"
    using Suc.IH by auto
  also have "\<dots> \<longleftrightarrow> (\<exists>k. k \<le> Suc n \<and> e \<in> turns k f i)"
    by (subst (2) ex_nat_split) auto
  finally show ?case .
qed

primrec consumes :: "rx \<Rightarrow> bool" where
  \<comment> \<open>every match is longer than the empty string\<close>
  "consumes (Cls P) = True"
| "consumes (Sq a b) = (consumes a \<or> consumes b)"
| "consumes (Greedy r lo hi) = (consumes r \<and> 0 < lo)"
| "consumes (LazyStar r) = False"
| "consumes WordB = False"

primrec wf_rx :: "rx \<Rightarrow> bool" where
  \<comment> \<open>what is repeated never matches the empty string\<close>
  "wf_rx (Cls P) = True"
| "wf_rx (Sq a b) = (wf_rx a \<and> wf_rx b)"
| "wf_rx (Greedy r lo hi) = (wf_rx r \<and> consumes r)"
| "wf_rx (LazyStar r) = (wf_rx r \<and> consumes r)"
| "wf_rx WordB = True"

primrec over :: "(char \<Rightarrow> bool) \<Rightarrow> rx \<Rightarrow> bool" where
  \<comment> \<open>every character a match consumes is in the class\<close>
  "over C (Cls P) = (\<forall>c. P c \<longrightarrow> C c)"
| "over C (Sq a b) = (over C a \<and> over C b)"
| "over C (Greedy r lo hi) = over C r"
| "over C (LazyStar r) = over C r"
| "over C WordB = True"

lemma turns_weak:
  assumes "e \<in> turns k f i" and "\<And>i e. e \<in> set (f i) \<Longrightarrow> i \<le> e"
  shows "i \<le> e"
  using assms(1)
proof (induction k arbitrary: i)
  case 0
  then show ?case by simp
next
  case (Suc k)
  then show ?case using assms(2) by (fastforce intro: order_trans)
qed

lemma turns_strict:
  assumes "e \<in> turns k f i" and "\<And>i e. e \<in> set (f i) \<Longrightarrow> i < e"
  shows "i + k \<le> e"
  using assms(1)
proof (induction k arbitrary: i)
  case 0
  then show ?case by simp
next
  case (Suc k)
  then obtain m where "m \<in> set (f i)" "e \<in> turns k f m" by auto
  then show ?case using Suc.IH [of m] assms(2) [of m i] by simp
qed

lemma ends_ge: "e \<in> set (ends r s i) \<Longrightarrow> i \<le> e"
proof (induction r arbitrary: i e)
  case (Sq a b)
  then show ?case by (fastforce intro: order_trans)
next
  case (Greedy r lo hi)
  then show ?case by (auto simp: rep_greedy_turns intro: turns_weak)
next
  case (LazyStar r)
  then show ?case by (auto simp: rep_lazy_turns intro: turns_weak)
qed (auto split: if_splits)

lemma ends_gt: "consumes r \<Longrightarrow> e \<in> set (ends r s i) \<Longrightarrow> i < e"
proof (induction r arbitrary: i e)
  case (Sq a b)
  then obtain m where m: "m \<in> set (ends a s i)" "e \<in> set (ends b s m)" by auto
  show ?case
  proof (cases "consumes a")
    case True
    then show ?thesis using Sq.IH(1) [OF _ m(1)] ends_ge [OF m(2)] by simp
  next
    case False
    then show ?thesis using Sq.IH(2) [OF _ m(2)] Sq.prems(1) ends_ge [OF m(1)] by simp
  qed
next
  case (Greedy r lo hi)
  then obtain k where "lo \<le> k" "e \<in> turns k (ends r s) i" by (auto simp: rep_greedy_turns)
  then have "i + k \<le> e" using Greedy by (auto intro: turns_strict)
  then show ?case using Greedy.prems(1) \<open>lo \<le> k\<close> by simp
qed (auto split: if_splits)

lemma turns_le:
  assumes "e \<in> turns k f i" and "i \<le> n" and "\<And>i e. e \<in> set (f i) \<Longrightarrow> i \<le> n \<Longrightarrow> e \<le> n"
  shows "e \<le> n"
  using assms(1,2)
proof (induction k arbitrary: i)
  case 0
  then show ?case by simp
next
  case (Suc k)
  then show ?case using assms(3) by auto
qed

lemma ends_le: "e \<in> set (ends r s i) \<Longrightarrow> i \<le> length s \<Longrightarrow> e \<le> length s"
proof (induction r arbitrary: i e)
  case (Greedy r lo hi)
  then show ?case by (auto simp: rep_greedy_turns intro: turns_le)
next
  case (LazyStar r)
  then show ?case by (auto simp: rep_lazy_turns intro: turns_le)
qed (auto split: if_splits)

lemma turns_over:
  assumes "e \<in> turns k f i" and "i \<le> j" and "j < e"
    and "\<And>i e j. e \<in> set (f i) \<Longrightarrow> i \<le> j \<Longrightarrow> j < e \<Longrightarrow> Q j"
  shows "Q j"
  using assms(1,2)
proof (induction k arbitrary: i)
  case 0
  then show ?case using assms(3) by simp
next
  case (Suc k)
  then obtain m where m: "m \<in> set (f i)" "e \<in> turns k f m" by auto
  show ?case
  proof (cases "j < m")
    case True
    then show ?thesis using assms(4) m(1) Suc.prems(2) by blast
  next
    case False
    then show ?thesis using Suc.IH [OF m(2)] by simp
  qed
qed

lemma ends_over: "over C r \<Longrightarrow> e \<in> set (ends r s i) \<Longrightarrow> i \<le> j \<Longrightarrow> j < e \<Longrightarrow> C (s ! j)"
proof (induction r arbitrary: i e j)
  case (Cls P)
  then have "j = i" by (auto split: if_splits)
  then show ?case using Cls by (auto split: if_splits)
next
  case (Sq a b)
  then obtain m where m: "m \<in> set (ends a s i)" "e \<in> set (ends b s m)" by auto
  then show ?case using Sq by (cases "j < m") auto
next
  case (Greedy r lo hi)
  then obtain k where "e \<in> turns k (ends r s) i" by (auto simp: rep_greedy_turns)
  then show ?case
    by (rule turns_over [where Q = "\<lambda>j. C (s ! j)"]) (use Greedy in auto)
next
  case (LazyStar r)
  then obtain k where "e \<in> turns k (ends r s) i" by (auto simp: rep_lazy_turns)
  then show ?case
    by (rule turns_over [where Q = "\<lambda>j. C (s ! j)"]) (use LazyStar in auto)
qed (auto split: if_splits)

section \<open>Moving a match to another text\<close>

primrec no_boundary :: "rx \<Rightarrow> bool" where
  "no_boundary (Cls P) = True"
| "no_boundary (Sq a b) = (no_boundary a \<and> no_boundary b)"
| "no_boundary (Greedy r lo hi) = no_boundary r"
| "no_boundary (LazyStar r) = no_boundary r"
| "no_boundary WordB = False"

lemma turns_transfer:
  assumes "e \<in> turns k f (j + a)" and "e \<le> j + n" and "a \<le> n"
    and mono: "\<And>i e. e \<in> set (f i) \<Longrightarrow> i \<le> e"
    and step: "\<And>a e. a \<le> n \<Longrightarrow> e \<in> set (f (j + a)) \<Longrightarrow> e \<le> j + n \<Longrightarrow> p + (e - j) \<in> set (g (p + a))"
  shows "p + (e - j) \<in> turns k g (p + a)"
  using assms(1,3)
proof (induction k arbitrary: a)
  case 0
  then show ?case by simp
next
  case (Suc k)
  then obtain m where m: "m \<in> set (f (j + a))" "e \<in> turns k f m" by auto
  have "j + a \<le> m" "m \<le> e" using m mono by (auto intro: turns_weak)
  then have j: "m = j + (m - j)" "m - j \<le> n" "m \<le> j + n" using assms(2) by auto
  have "p + (e - j) \<in> turns k g (p + (m - j))"
    using Suc.IH [of "m - j"] m(2) j by simp
  moreover have "p + (m - j) \<in> set (g (p + a))" using step Suc.prems(2) m(1) j(3) by blast
  ultimately show ?case by auto
qed

text \<open>
  Two texts that agree on a window, and on the word boundaries in it, have the same matches inside
  the window.
\<close>

lemma ends_transfer:
  assumes "j + n \<le> length t" and "p + n \<le> length s"
    and "\<And>k. k < n \<Longrightarrow> t ! (j + k) = s ! (p + k)"
  shows "wf_rx r \<Longrightarrow> no_boundary r \<or> (\<forall>k \<le> n. boundary t (j + k) \<longrightarrow> boundary s (p + k)) \<Longrightarrow>
    a \<le> n \<Longrightarrow> e \<in> set (ends r t (j + a)) \<Longrightarrow> e \<le> j + n \<Longrightarrow> p + (e - j) \<in> set (ends r s (p + a))"
proof (induction r arbitrary: a e)
  case (Cls P)
  then have "a < n" and "P (t ! (j + a))" and "e = Suc (j + a)" by (auto split: if_splits)
  then show ?case using assms by simp
next
  case (Sq x y)
  then obtain m where m: "m \<in> set (ends x t (j + a))" "e \<in> set (ends y t m)" by auto
  have ge: "j + a \<le> m" "m \<le> e" using m by (auto dest: ends_ge)
  then have j: "m = j + (m - j)" "m - j \<le> n" "m \<le> j + n" using Sq.prems(5) by auto
  have "p + (m - j) \<in> set (ends x s (p + a))" using Sq.IH(1) Sq.prems m(1) j(3) by auto
  moreover have "p + (e - j) \<in> set (ends y s (p + (m - j)))"
    using Sq.IH(2) [of "m - j"] Sq.prems m(2) j by auto
  ultimately show ?case by auto
next
  case (Greedy r lo hi)
  then obtain k where k: "lo \<le> k" "k \<le> (case hi of None \<Rightarrow> length t | Some h \<Rightarrow> h)"
    "e \<in> turns k (ends r t) (j + a)" by (auto simp: rep_greedy_turns)
  have "j + a + k \<le> e" using k(3) Greedy.prems(1) by (auto intro: turns_strict ends_gt)
  then have "k \<le> length s" using Greedy.prems(5) assms(2) by simp
  then have "k \<le> (case hi of None \<Rightarrow> length s | Some h \<Rightarrow> h)" using k(2) by (cases hi) auto
  moreover have "p + (e - j) \<in> turns k (ends r s) (p + a)"
    using Greedy.IH Greedy.prems k(3) by (intro turns_transfer [where f = "ends r t"]) (auto dest: ends_ge)
  ultimately show ?case using k(1) by (auto simp: rep_greedy_turns)
next
  case (LazyStar r)
  then obtain k where k: "e \<in> turns k (ends r t) (j + a)" by (auto simp: rep_lazy_turns)
  have "j + a + k \<le> e" using k LazyStar.prems(1) by (auto intro: turns_strict ends_gt)
  then have "k \<le> length s" using LazyStar.prems(5) assms(2) by simp
  moreover have "p + (e - j) \<in> turns k (ends r s) (p + a)"
    using LazyStar.IH LazyStar.prems k by (intro turns_transfer [where f = "ends r t"]) (auto dest: ends_ge)
  ultimately show ?case by (auto simp: rep_lazy_turns)
next
  case WordB
  then show ?case by (auto split: if_splits)
qed

section \<open>The text after a substitution\<close>

lemma sub_from_end: "length s \<le> i \<Longrightarrow> sub_from r repl s i = ([], 0)"
  by (subst sub_from.simps) simp

lemma sub_from_step:
  assumes "consumes r" and "i < length s"
  shows "fst (sub_from r repl s i) =
    (if ends r s i = [] then s ! i # fst (sub_from r repl s (Suc i))
     else repl @ fst (sub_from r repl s (hd (ends r s i))))"
proof (cases "ends r s i")
  case Nil
  then show ?thesis using assms by (subst sub_from.simps) (simp split: prod.splits)
next
  case (Cons e es)
  then have "i < e" using ends_gt [OF assms(1), of e s i] by simp
  then show ?thesis using assms Cons by (subst sub_from.simps) (simp split: prod.splits)
qed

text \<open>How the new text continues at \<open>m\<close> where the old one is at \<open>i\<close>.\<close>

definition same_next :: "rx \<Rightarrow> string \<Rightarrow> string \<Rightarrow> nat \<Rightarrow> nat \<Rightarrow> bool" where
  "same_next r s t i m \<longleftrightarrow>
     (m = length t \<and> i = length s) \<or> (m < length t \<and> i < length s \<and> t ! m = s ! i) \<or> ends r s i \<noteq> []"

lemma prefix_run:
  assumes "consumes r" and "repl \<noteq> []" and "\<not> C (hd repl)"
  shows "i \<le> length s \<Longrightarrow> n \<le> length (fst (sub_from r repl s i)) \<Longrightarrow>
    (\<And>k. k < n \<Longrightarrow> C (fst (sub_from r repl s i) ! k)) \<Longrightarrow>
    i + n \<le> length s \<and> (\<forall>k < n. fst (sub_from r repl s i) ! k = s ! (i + k)) \<and>
    same_next r s (fst (sub_from r repl s i)) (i + n) n"
proof (induction "length s - i" arbitrary: i n rule: less_induct)
  case less
  let ?t = "fst (sub_from r repl s i)"
  consider "i = length s" | "i < length s" "ends r s i = []" | "i < length s" "ends r s i \<noteq> []"
    using less.prems(1) by linarith
  then show ?case
  proof cases
    case 1
    then show ?thesis using less.prems(2) by (simp add: sub_from_end same_next_def)
  next
    case 2
    let ?u = "fst (sub_from r repl s (Suc i))"
    have t: "?t = s ! i # ?u" using sub_from_step [OF assms(1) 2(1)] 2(2) by simp
    show ?thesis
    proof (cases n)
      case 0
      then show ?thesis using 2(1) unfolding t by (simp add: same_next_def)
    next
      case (Suc m)
      have "Suc i + m \<le> length s \<and> (\<forall>k < m. ?u ! k = s ! (Suc i + k)) \<and> same_next r s ?u (Suc i + m) m"
        using less.prems(2,3) 2(1) Suc unfolding t by (intro less.hyps) fastforce+
      then show ?thesis using Suc unfolding t
        by (auto simp: same_next_def nth_Cons split: nat.splits)
    qed
  next
    case 3
    then have t: "?t = repl @ fst (sub_from r repl s (hd (ends r s i)))"
      using sub_from_step [OF assms(1) 3(1)] by simp
    have "n = 0"
    proof (rule ccontr)
      assume "n \<noteq> 0"
      then have "C (?t ! 0)" using less.prems(3) by simp
      then show False using assms(2,3) t by (simp add: nth_append hd_conv_nth)
    qed
    then show ?thesis using 3 by (simp add: same_next_def)
  qed
qed

definition same_prev :: "rx \<Rightarrow> string \<Rightarrow> string \<Rightarrow> nat \<Rightarrow> nat \<Rightarrow> nat \<Rightarrow> bool" where
  "same_prev r s t i p j \<longleftrightarrow>
     (j = 0 \<and> p = i) \<or> (0 < j \<and> 0 < p \<and> t ! (j - 1) = s ! (p - 1)) \<or> (\<exists>q. p \<in> set (ends r s q))"

definition from_source :: "rx \<Rightarrow> string \<Rightarrow> string \<Rightarrow> nat \<Rightarrow> nat \<Rightarrow> nat \<Rightarrow> bool" where
  \<comment> \<open>the \<open>n\<close> characters at \<open>j\<close> of the new text are those at a position where nothing matched\<close>
  "from_source r s t i j n \<longleftrightarrow>
     (\<exists>p. p + n \<le> length s \<and> ends r s p = [] \<and> (\<forall>k < n. t ! (j + k) = s ! (p + k)) \<and>
        same_prev r s t i p j \<and> same_next r s t (p + n) (j + n))"

definition from_repl :: "string \<Rightarrow> string \<Rightarrow> nat \<Rightarrow> nat \<Rightarrow> bool" where
  "from_repl repl t j n \<longleftrightarrow>
     (\<exists>pre post. t = pre @ repl @ post \<and> length pre \<le> j \<and> j + n \<le> length pre + length repl)"

lemma from_repl_app: "from_repl repl t j n \<Longrightarrow> from_repl repl (u @ t) (length u + j) n"
  unfolding from_repl_def by (metis append.assoc add.assoc add_le_mono1 length_append nat_add_left_cancel_le)

lemma from_source_shift:
  assumes "from_source r s t i' j n" and "i' \<in> set (ends r s i) \<or> (0 < i' \<and> u \<noteq> [] \<and> last u = s ! (i' - 1))"
    and "u \<noteq> []"
  shows "from_source r s (u @ t) i (length u + j) n"
proof -
  obtain p where p: "p + n \<le> length s" "ends r s p = []" "\<forall>k < n. t ! (j + k) = s ! (p + k)"
    "same_prev r s t i' p j" "same_next r s t (p + n) (j + n)"
    using assms(1) by (auto simp: from_source_def)
  have "same_next r s (u @ t) (p + n) (length u + j + n)"
    using p(5) by (auto simp: same_next_def nth_append)
  moreover have "same_prev r s (u @ t) i p (length u + j)"
    using p(4) assms(2,3) by (auto simp: same_prev_def nth_append last_conv_nth)
  ultimately show ?thesis
    using p(1-3) by (auto simp: from_source_def nth_append)
qed

lemma origin_after_copy:
  \<comment> \<open>a run behind a copied character has its origin where the rest of the text has it\<close>
  assumes "ends r s i = []" and "from_source r s u (Suc i) j n \<or> from_repl repl u j n"
  shows "from_source r s (s ! i # u) i (Suc j) n \<or> from_repl repl (s ! i # u) (Suc j) n"
  using assms(2)
proof
  assume "from_source r s u (Suc i) j n"
  then show ?thesis using from_source_shift [of r s u "Suc i" j n i "[s ! i]"] by simp
next
  assume "from_repl repl u j n"
  then show ?thesis using from_repl_app [of repl u j n "[s ! i]"] by simp
qed

lemma origin_after_repl:
  assumes "e \<in> set (ends r s i)" and "repl \<noteq> []" and "length repl \<le> j"
    and "from_source r s u e (j - length repl) n \<or> from_repl repl u (j - length repl) n"
  shows "from_source r s (repl @ u) i j n \<or> from_repl repl (repl @ u) j n"
  using assms(4)
proof
  assume "from_source r s u e (j - length repl) n"
  then show ?thesis using from_source_shift [of r s u e "j - length repl" n i repl] assms(1-3) by simp
next
  assume "from_repl repl u (j - length repl) n"
  then show ?thesis using from_repl_app [of repl u "j - length repl" n repl] assms(3) by simp
qed

lemma run_in_repl:
  \<comment> \<open>a run that starts in the replacement ends in it, when its last character is not of the class\<close>
  assumes "repl \<noteq> []" and "\<not> C (last repl)" and "j < length repl"
    and "\<And>k. k < n \<Longrightarrow> C ((repl @ u) ! (j + k))"
  shows "from_repl repl (repl @ u) j n"
proof -
  have "j + n \<le> length repl"
  proof (rule ccontr)
    assume "\<not> j + n \<le> length repl"
    then have "C ((repl @ u) ! (j + (length repl - 1 - j)))" using assms(3) by (intro assms(4)) simp
    then show False using assms(1-3) by (simp add: nth_append last_conv_nth)
  qed
  then show ?thesis unfolding from_repl_def by (intro exI [of _ "[]"] exI [of _ u]) simp
qed

lemma run_origin:
  assumes "consumes r" and "repl \<noteq> []" and "\<not> C (hd repl)" and "\<not> C (last repl)" and "0 < n"
  shows "i \<le> length s \<Longrightarrow> j + n \<le> length (fst (sub_from r repl s i)) \<Longrightarrow>
    (\<And>k. k < n \<Longrightarrow> C (fst (sub_from r repl s i) ! (j + k))) \<Longrightarrow>
    from_source r s (fst (sub_from r repl s i)) i j n \<or> from_repl repl (fst (sub_from r repl s i)) j n"
proof (induction "length s - i" arbitrary: i j rule: less_induct)
  case less
  let ?t = "fst (sub_from r repl s i)"
  consider "i = length s" | "i < length s" "ends r s i = []" | "i < length s" "ends r s i \<noteq> []"
    using less.prems(1) by linarith
  then show ?case
  proof cases
    case 1
    then show ?thesis using less.prems(2) assms(5) by (simp add: sub_from_end)
  next
    case 2
    let ?u = "fst (sub_from r repl s (Suc i))"
    have t: "?t = s ! i # ?u" using sub_from_step [OF assms(1) 2(1)] 2(2) by simp
    show ?thesis
    proof (cases j)
      case 0
      have "i + n \<le> length s \<and> (\<forall>k < n. ?t ! k = s ! (i + k)) \<and> same_next r s ?t (i + n) n"
        using prefix_run [where C = C and r = r and repl = repl and i = i and s = s and n = n] assms less.prems 0 by simp
      then show ?thesis using 0 2(2) by (auto simp: from_source_def same_prev_def)
    next
      case (Suc j')
      have "from_source r s ?u (Suc i) j' n \<or> from_repl repl ?u j' n"
        using less.prems(2,3) 2(1) Suc unfolding t by (intro less.hyps) auto
      then show ?thesis using origin_after_copy [OF 2(2)] Suc unfolding t by blast
    qed
  next
    case 3
    let ?e = "hd (ends r s i)"
    let ?u = "fst (sub_from r repl s ?e)"
    have e: "?e \<in> set (ends r s i)" using 3(2) by simp
    have lt: "i < ?e" "?e \<le> length s" using ends_gt [OF assms(1) e] ends_le [OF e] 3(1) by auto
    have t: "?t = repl @ ?u" using sub_from_step [OF assms(1) 3(1)] 3(2) by simp
    show ?thesis
    proof (cases "j < length repl")
      case True
      then show ?thesis using run_in_repl [where C = C, OF assms(2,4) True, of n ?u] less.prems(3) unfolding t by blast
    next
      case False
      then have "C (?u ! (j - length repl + k))" if "k < n" for k
        using less.prems(3) [OF that] unfolding t by (simp add: nth_append)
      moreover have "j - length repl + n \<le> length ?u" using less.prems(2) False unfolding t by simp
      ultimately have "from_source r s ?u ?e (j - length repl) n \<or> from_repl repl ?u (j - length repl) n"
        using lt by (intro less.hyps) auto
      then show ?thesis using origin_after_repl [OF e assms(2)] False unfolding t by simp
    qed
  qed
qed

lemma ends_inside: "e \<in> set (ends r s i) \<Longrightarrow> e = i \<or> e \<le> length s"
proof (cases "i \<le> length s")
  case False
  then show "e \<in> set (ends r s i) \<Longrightarrow> e = i \<or> e \<le> length s"
  proof (induction r arbitrary: e)
    case (Sq a b)
    then obtain m where m: "m \<in> set (ends a s i)" "e \<in> set (ends b s m)" by auto
    then have "m = i" using Sq.IH(1) [OF m(1)] Sq.prems(2) ends_ge [OF m(1)] by auto
    then show ?case using Sq.IH(2) m(2) Sq.prems(2) by auto
  next
    case (Greedy r lo hi)
    then obtain k where "e \<in> turns k (ends r s) i" by (auto simp: rep_greedy_turns)
    then show ?case
    proof (induction k arbitrary: e)
      case (Suc k)
      then obtain m where m: "m \<in> set (ends r s i)" "e \<in> turns k (ends r s) m" by auto
      then have "m = i" using Greedy.IH [OF m(1)] Greedy.prems(2) ends_ge [OF m(1)] by auto
      then show ?case using Suc.IH m(2) by simp
    qed simp
  next
    case (LazyStar r)
    then obtain k where "e \<in> turns k (ends r s) i" by (auto simp: rep_lazy_turns)
    then show ?case
    proof (induction k arbitrary: e)
      case (Suc k)
      then obtain m where m: "m \<in> set (ends r s i)" "e \<in> turns k (ends r s) m" by auto
      then have "m = i" using LazyStar.IH [OF m(1)] LazyStar.prems(2) ends_ge [OF m(1)] by auto
      then show ?case using Suc.IH m(2) by simp
    qed simp
  qed (auto split: if_splits)
qed (auto dest: ends_le)

definition at_boundaries :: "rx \<Rightarrow> bool" where
  \<comment> \<open>every match of the pattern begins and ends at a word boundary\<close>
  "at_boundaries r \<longleftrightarrow> (\<forall>s i e. e \<in> set (ends r s i) \<longrightarrow> boundary s i \<and> boundary s e)"

lemma at_boundaries_seq: "at_boundaries (Sq WordB (Sq x WordB))"
  by (auto simp: at_boundaries_def split: if_splits)

lemma from_source_no_match:
  assumes "consumes q" "wf_rx q" "no_boundary q \<or> at_boundaries r"
    and "\<And>p. ends r s p = [] \<Longrightarrow> ends q s p = []"
    and "e \<in> set (ends q t j)" and "e \<le> length t" and "from_source r s t 0 j (e - j)"
  shows False
proof -
  let ?n = "e - j"
  have je: "j < e" using ends_gt [OF assms(1,5)] .
  obtain p where p: "p + ?n \<le> length s" "ends r s p = []" "\<forall>k < ?n. t ! (j + k) = s ! (p + k)"
    "same_prev r s t 0 p j" "same_next r s t (p + ?n) (j + ?n)"
    using assms(7) by (auto simp: from_source_def)
  have word: "word_at t (j + k) = word_at s (p + k)" if "k < ?n" for k
    using that p(1,3) assms(6) je by (auto simp: word_at_def)
  have b: "boundary s (p + k)" if k: "k \<le> ?n" "boundary t (j + k)" and g: "\<not> no_boundary q" for k
  proof -
    have bd: "boundary s x" "boundary s y" if "y \<in> set (ends r s x)" for x y
      using assms(3) g that by (auto simp: at_boundaries_def)
    have prev: "(0 < j + k \<and> word_at t (j + k - 1)) = (0 < p + k \<and> word_at s (p + k - 1)) \<or> boundary s (p + k)"
    proof (cases k)
      case 0
      have "word_at t (j - 1) = word_at s (p - 1)" if "0 < j" "0 < p" "t ! (j - 1) = s ! (p - 1)"
        using that p(1) assms(6) je by (auto simp: word_at_def)
      then show ?thesis using p(4) 0 bd unfolding same_prev_def by auto
    next
      case (Suc m)
      then show ?thesis using word [of m] k(1) by simp
    qed
    have nxt: "word_at t (j + k) = word_at s (p + k) \<or> boundary s (p + k)"
    proof (cases "k = ?n")
      case True
      have "boundary s (p + ?n)" if ne: "ends r s (p + ?n) \<noteq> []"
        using bd [of "hd (ends r s (p + ?n))" "p + ?n"] hd_in_set [OF ne] by blast
      then show ?thesis using p(5) True unfolding same_next_def by (auto simp: word_at_def)
    next
      case False
      then show ?thesis using word k(1) by simp
    qed
    show ?thesis using prev nxt k(2) unfolding boundary_def by blast
  qed
  have "p + (e - j) \<in> set (ends q s (p + 0))"
    using assms(2,5,6) je p(1,3) b
    by (intro ends_transfer [where j = j and n = "?n" and t = t]) auto
  then show False using assms(4) [OF p(2)] by simp
qed

lemma strictly_inside_repl:
  assumes "repl \<noteq> []" "\<not> C (hd repl)" "\<not> C (last repl)" "0 < n"
    and "length pre \<le> j" "j + n \<le> length pre + length repl"
    and c: "\<And>k. k < n \<Longrightarrow> C ((pre @ repl @ post) ! (j + k))"
  shows "length pre < j" and "j + n < length pre + length repl"
proof -
  have "length pre \<noteq> j"
    using c [of 0] assms(1,2,4,6) by (auto simp: nth_append hd_conv_nth)
  then show "length pre < j" using assms(5) by simp
  have "j + n \<noteq> length pre + length repl"
  proof
    assume eq: "j + n = length pre + length repl"
    then have "j + (n - 1) = length pre + (length repl - 1)" using assms(1,4) by (cases repl) auto
    moreover have "(pre @ repl @ post) ! (length pre + (length repl - 1)) = last repl"
      using assms(1) by (auto simp: nth_append last_conv_nth)
    ultimately show False using c [of "n - 1"] assms(3,4) by simp
  qed
  then show "j + n < length pre + length repl" using assms(6) by simp
qed

lemma boundary_inside:
  assumes "length pre < m" "m < length pre + length repl" and "boundary (pre @ repl @ post) m"
  shows "boundary repl (m - length pre)"
proof -
  have "word_at (pre @ repl @ post) k = word_at repl (k - length pre)"
    if "length pre \<le> k" "k < length pre + length repl" for k
    using that by (auto simp: word_at_def nth_append)
  from this [of m] this [of "m - 1"] assms show ?thesis
    by (auto simp: boundary_def diff_right_commute)
qed

lemma from_repl_no_match:
  assumes "consumes r" "wf_rx r" "over C r" "repl \<noteq> []" "\<not> C (hd repl)" "\<not> C (last repl)"
    and "\<And>i. ends r repl i = []"
    and "e \<in> set (ends r t j)" and "e \<le> length t" and "from_repl repl t j (e - j)"
  shows False
proof -
  let ?n = "e - j"
  have je: "j < e" using ends_gt [OF assms(1,8)] .
  obtain pre post where t: "t = pre @ repl @ post" and l: "length pre \<le> j" "j + ?n \<le> length pre + length repl"
    using assms(10) by (auto simp: from_repl_def)
  have c: "C ((pre @ repl @ post) ! (j + k))" if "k < ?n" for k
    using ends_over [OF assms(3,8), of "j + k"] that unfolding t by simp
  have l': "length pre < j" "j + ?n < length pre + length repl"
    using strictly_inside_repl [OF assms(4-6) _ l c] je by simp_all
  let ?p = "j - length pre"
  have "?p + (e - j) \<in> set (ends r repl (?p + 0))"
  proof (rule ends_transfer [where j = j and n = ?n and t = t])
    show "t ! (j + k) = repl ! (?p + k)" if "k < ?n" for k
      using l' that unfolding t by (auto simp: nth_append)
    show "e \<le> j + ?n" "0 \<le> ?n" using je by simp_all
    show "j + ?n \<le> length t" using assms(9) je by simp
    show "?p + ?n \<le> length repl" using l' by linarith
    show "e \<in> set (ends r t (j + 0))" using assms(8) by simp
    show "no_boundary r \<or> (\<forall>k \<le> ?n. boundary t (j + k) \<longrightarrow> boundary repl (?p + k))"
      using boundary_inside [of pre _ repl post] l' unfolding t by simp
  qed (fact assms(2))
  then show False using assms(7) by simp
qed

text \<open>
  Substituting for \<open>r\<close> leaves no match of \<open>q\<close> in the text, whether \<open>q\<close> is \<open>r\<close> itself or a pattern
  that had no match before, if the replacement is delimited by characters \<open>q\<close> cannot consume and
  holds no match of \<open>q\<close>.
\<close>

definition delimited :: "rx \<Rightarrow> string \<Rightarrow> bool" where
  "delimited q repl \<longleftrightarrow> repl \<noteq> [] \<and> (\<forall>i. ends q repl i = []) \<and>
     (\<exists>C. over C q \<and> \<not> C (hd repl) \<and> \<not> C (last repl))"

lemma subn_no_match:
  assumes "consumes r" "consumes q" "wf_rx q" "no_boundary q \<or> at_boundaries r" "delimited q repl"
    and "q = r \<or> (\<forall>p. ends q s p = [])"
  shows "ends q (fst (subn r repl s)) j = []"
proof (rule ccontr)
  let ?t = "fst (subn r repl s)"
  obtain C where C: "repl \<noteq> []" "over C q" "\<not> C (hd repl)" "\<not> C (last repl)" "\<And>i. ends q repl i = []"
    using assms(5) by (auto simp: delimited_def)
  assume "ends q ?t j \<noteq> []"
  then obtain e where e: "e \<in> set (ends q ?t j)" by (cases "ends q ?t j") auto
  have je: "j < e" using ends_gt [OF assms(2) e] .
  have le: "e \<le> length ?t" using ends_inside [OF e] je by simp
  have "from_source r s ?t 0 j (e - j) \<or> from_repl repl ?t j (e - j)"
    unfolding subn_def
    by (rule run_origin [where C = C])
      (use assms(1) C(1,3,4) je le e ends_over [OF C(2) e] in \<open>auto simp: subn_def\<close>)
  moreover have "ends r s p = [] \<Longrightarrow> ends q s p = []" for p using assms(6) by auto
  ultimately show False
    using from_source_no_match [OF assms(2,3,4) _ e le] from_repl_no_match [OF assms(2,3) C(2,1,3-5) e le]
    by blast
qed

lemma sub_from_no_match: "(\<And>j. ends r t j = []) \<Longrightarrow> sub_from r repl t i = (drop i t, 0)"
proof (induction "length t - i" arbitrary: i rule: less_induct)
  case less
  show ?case
  proof (cases "length t \<le> i")
    case True
    then show ?thesis by (simp add: sub_from_end)
  next
    case False
    then have "sub_from r repl t (Suc i) = (drop (Suc i) t, 0)" using less by simp
    then show ?thesis using False less.prems
      by (subst sub_from.simps) (simp add: Cons_nth_drop_Suc)
  qed
qed

lemma subn_id: "(\<And>j. ends r t j = []) \<Longrightarrow> subn r repl t = (t, 0)"
  by (simp add: subn_def sub_from_no_match)

lemma sub_from_zero:
  "consumes r \<Longrightarrow> snd (sub_from r repl s i) = 0 \<Longrightarrow> i \<le> j \<Longrightarrow> ends r s j = []"
proof (induction "length s - i" arbitrary: i rule: less_induct)
  case less
  show ?case
  proof (cases "length s \<le> i")
    case True
    show ?thesis
    proof (rule ccontr)
      assume "ends r s j \<noteq> []"
      then have "hd (ends r s j) \<in> set (ends r s j)" by simp
      then show False using ends_gt [OF less.prems(1)] ends_inside True less.prems(3) by fastforce
    qed
  next
    case False
    have e: "ends r s i = []"
    proof (rule ccontr)
      assume ne: "ends r s i \<noteq> []"
      then obtain e es where "ends r s i = e # es" "i < e"
        using ends_gt [OF less.prems(1), of _ s i] by (cases "ends r s i") auto
      then show False using less.prems(2) False by (subst (asm) sub_from.simps) (simp split: prod.splits)
    qed
    then have "snd (sub_from r repl s (Suc i)) = 0"
      using less.prems(2) False by (subst (asm) sub_from.simps) (simp split: prod.splits)
    then show ?thesis using less.hyps [of "Suc i"] less.prems e False by (cases "i = j") auto
  qed
qed

lemma subn_zero: "consumes r \<Longrightarrow> snd (subn r repl s) = 0 \<Longrightarrow> ends r s j = []"
  unfolding subn_def using sub_from_zero [of r repl s 0 j] by simp

end
