(* ===== verification/Redaction.thy ===== *)
theory Redaction
  imports Gateway_Config Metrics Pattern_Matching
begin

text \<open>
  The redactor of \<open>app/middleware/redaction.py\<close>.

  The five fallback patterns are fixed, so they are written out as terms of \<open>Pattern_Matching\<close>,
  and their substitution is \<open>subn\<close>.

  Presidio's analyzer is a parameter of the redactor: it gives the spans it finds in a text, or
  raises. A function returns the new value with the code's flag and the metric updates.
\<close>

section \<open>The fallback patterns\<close>

definition lit :: "char \<Rightarrow> rx" where
  "lit c = Cls (\<lambda>x. x = c)"

definition digit_char :: "char \<Rightarrow> bool" where
  "digit_char c \<longleftrightarrow> CHR ''0'' \<le> c \<and> c \<le> CHR ''9''"

definition alpha_char :: "char \<Rightarrow> bool" where
  "alpha_char c \<longleftrightarrow> (CHR ''a'' \<le> c \<and> c \<le> CHR ''z'') \<or> (CHR ''A'' \<le> c \<and> c \<le> CHR ''Z'')"

definition local_char :: "char \<Rightarrow> bool" where
  \<comment> \<open>\<open>[A-Za-z0-9._%+-]\<close>\<close>
  "local_char c \<longleftrightarrow> alpha_char c \<or> digit_char c \<or> c \<in> set ''._%+-''"

definition host_char :: "char \<Rightarrow> bool" where
  \<comment> \<open>\<open>[A-Za-z0-9.-]\<close>\<close>
  "host_char c \<longleftrightarrow> alpha_char c \<or> digit_char c \<or> c \<in> set ''.-''"

definition phone_char :: "char \<Rightarrow> bool" where
  \<comment> \<open>\<open>[\d \-().]\<close>\<close>
  "phone_char c \<longleftrightarrow> digit_char c \<or> c \<in> set '' -().''"

abbreviation digits :: "nat \<Rightarrow> nat option \<Rightarrow> rx" where
  "digits lo hi \<equiv> Greedy (Cls digit_char) lo hi"

definition email_rx :: rx where
  "email_rx = seq [Greedy (Cls local_char) 1 None, lit CHR ''@'', Greedy (Cls host_char) 1 None,
                   lit CHR ''.'', Greedy (Cls alpha_char) 2 None]"

definition phone_rx :: rx where
  "phone_rx = seq [Greedy (lit CHR ''+'') 0 (Some 1), Cls digit_char, Greedy (Cls phone_char) 7 None,
                   Cls digit_char]"

definition card_rx :: rx where
  "card_rx = seq [WordB, Greedy (Sq (Cls digit_char) (LazyStar (Cls (\<lambda>c. c = CHR '' '' \<or> c = CHR ''-'')))) 13 (Some 16),
                  WordB]"

definition ssn_rx :: rx where
  "ssn_rx = seq [WordB, digits 3 (Some 3), lit CHR ''-'', digits 2 (Some 2), lit CHR ''-'',
                 digits 4 (Some 4), WordB]"

definition ip_rx :: rx where
  "ip_rx = seq [WordB, Greedy (Sq (digits 1 (Some 3)) (lit CHR ''.'')) 3 (Some 3), digits 1 (Some 3), WordB]"

definition fallback_patterns :: "(string, rx) dict" where
  "fallback_patterns =
     [(''EMAIL_ADDRESS'', email_rx), (''PHONE_NUMBER'', phone_rx), (''CREDIT_CARD'', card_rx),
      (''US_SSN'', ssn_rx), (''IP_ADDRESS'', ip_rx)]"

section \<open>The redactor\<close>

record span =
  sp_start :: nat
  sp_end :: nat
  sp_entity :: string

type_synonym analyzer = "string \<Rightarrow> string list \<Rightarrow> rat \<Rightarrow> string + span list"

record redactor =
  rd_policy :: redaction_policy
  rd_analyzer :: "analyzer option"

definition new_redactor :: "(string + analyzer) \<Rightarrow> redaction_policy \<Rightarrow> redactor" where
  \<comment> \<open>\<open>load\<close> is the outcome of importing Presidio and constructing its engine\<close>
  "new_redactor load policy =
     \<lparr> rd_policy = policy,
       rd_analyzer =
         (if rp_enabled policy then (case load of Inl exc \<Rightarrow> None | Inr a \<Rightarrow> Some a) else None) \<rparr>"

definition apply_span :: "(string \<Rightarrow> string) \<Rightarrow> string \<Rightarrow> span \<Rightarrow> string" where
  \<comment> \<open>\<open>text[: r.start] + self._replace(r.entity_type) + text[r.end :]\<close>\<close>
  "apply_span replacement text r =
     take (sp_start r) text @ replacement (sp_entity r) @ drop (sp_end r) text"

definition right_to_left :: "span list \<Rightarrow> span list" where
  \<comment> \<open>\<open>sorted(results, key=lambda r: r.start, reverse=True)\<close>, which keeps the order of equal starts\<close>
  "right_to_left results = sort_key (\<lambda>r. - int (sp_start r)) results"

definition presidio_pass ::
  "redactor \<Rightarrow> string \<Rightarrow> string \<Rightarrow> (string \<times> bool) \<times> metric list" where
  "presidio_pass rd direction text =
     (case rd_analyzer rd of
        None \<Rightarrow> ((text, False), [])
      | Some analyze \<Rightarrow>
          (case analyze text (rp_entities (rd_policy rd)) (rp_score_threshold (rd_policy rd)) of
             Inl exc \<Rightarrow> ((text, False), [])
           | Inr results \<Rightarrow>
               ((foldl (apply_span (rp_replacement (rd_policy rd))) text (right_to_left results),
                 results \<noteq> []),
                map (\<lambda>r. RedactionsTotal direction (sp_entity r) 1) (right_to_left results))))"

definition fallback_step ::
  "redaction_policy \<Rightarrow> string \<Rightarrow> string \<Rightarrow> (string \<times> bool) \<times> metric list \<Rightarrow> (string \<times> bool) \<times> metric list" where
  \<comment> \<open>one turn of the loop over the entities\<close>
  "fallback_step policy direction entity st =
     (let ((text, changed), ms) = st
      in case dict_get fallback_patterns entity of
           None \<Rightarrow> st
         | Some pattern \<Rightarrow>
             (let (new_text, n) = subn pattern (rp_replacement policy entity) text
              in if n \<noteq> 0 then ((new_text, True), ms @ [RedactionsTotal direction entity n]) else st))"

definition redact_string :: "redactor \<Rightarrow> string \<Rightarrow> string \<Rightarrow> (string \<times> bool) \<times> metric list" where
  "redact_string rd direction text =
     (if text = [] \<or> \<not> rp_enabled (rd_policy rd) then ((text, False), [])
      else fold (fallback_step (rd_policy rd) direction) (rp_entities (rd_policy rd))
             (presidio_pass rd direction text))"

fun walk :: "redactor \<Rightarrow> string \<Rightarrow> json \<Rightarrow> (json \<times> bool) \<times> metric list" where
  "walk rd direction (JStr s) =
     (let ((t, c), ms) = redact_string rd direction s in ((JStr t, c), ms))"
| "walk rd direction (JDict d) =
     (let rs = map (\<lambda>(k, v). (k, walk rd direction v)) d
      in ((JDict (map (\<lambda>(k, r). (k, fst (fst r))) rs), list_ex (\<lambda>(k, r). snd (fst r)) rs),
          concat (map (\<lambda>(k, r). snd r) rs)))"
| "walk rd direction (JList xs) =
     (let rs = map (walk rd direction) xs
      in ((JList (map (\<lambda>r. fst (fst r)) rs), list_ex (\<lambda>r. snd (fst r)) rs), concat (map snd rs)))"
| "walk rd direction v = ((v, False), [])"

definition redact :: "redactor \<Rightarrow> string \<Rightarrow> json \<Rightarrow> (json \<times> bool) \<times> metric list" where
  "redact rd direction obj =
     (if \<not> rp_enabled (rd_policy rd) then ((obj, False), [])
      else if direction = ''request'' \<and> \<not> rp_redact_requests (rd_policy rd) then ((obj, False), [])
      else if direction = ''response'' \<and> \<not> rp_redact_responses (rd_policy rd) then ((obj, False), [])
      else walk rd direction obj)"

section \<open>What the fallback patterns leave\<close>

lemma starts_at_boundary: "e \<in> set (ends (Sq WordB y) s i) \<Longrightarrow> boundary s i"
  by (simp split: if_splits)

definition closes :: "rx \<Rightarrow> bool" where
  "closes y \<longleftrightarrow> (\<forall>s i e. e \<in> set (ends y s i) \<longrightarrow> boundary s e)"

lemma closes_WordB: "closes WordB"
  by (simp add: closes_def)

lemma closes_Sq: "closes y \<Longrightarrow> closes (Sq a y)"
  by (auto simp: closes_def)

lemma at_boundaries_intro: "closes y \<Longrightarrow> at_boundaries (Sq WordB y)"
  unfolding at_boundaries_def using starts_at_boundary closes_Sq [of y WordB] unfolding closes_def by blast

lemma guarded_patterns:
  "at_boundaries card_rx" "at_boundaries ssn_rx" "at_boundaries ip_rx"
  unfolding card_rx_def ssn_rx_def ip_rx_def seq.simps
  by (intro at_boundaries_intro closes_Sq closes_WordB)+

lemma plain_patterns: "no_boundary email_rx" "no_boundary phone_rx"
  by (simp_all add: email_rx_def phone_rx_def lit_def)

lemma fallback_patterns_wf: "dict_get fallback_patterns entity = Some p \<Longrightarrow> consumes p \<and> wf_rx p"
  by (auto simp: fallback_patterns_def email_rx_def phone_rx_def card_rx_def ssn_rx_def ip_rx_def lit_def
      split: if_splits)

abbreviation outside_brackets :: "char \<Rightarrow> bool" where
  "outside_brackets c \<equiv> c \<noteq> CHR ''<'' \<and> c \<noteq> CHR ''>''"

lemma fallback_patterns_over:
  "dict_get fallback_patterns entity = Some p \<Longrightarrow> over outside_brackets p"
  by (auto simp: fallback_patterns_def email_rx_def phone_rx_def card_rx_def ssn_rx_def ip_rx_def lit_def
      local_char_def host_char_def phone_char_def alpha_char_def digit_char_def split: if_splits)

definition default_replacement :: "string \<Rightarrow> string" where
  "default_replacement = rp_replacement default_redaction_policy"

lemma default_replacement_eq: "default_replacement entity = ''<REDACTED:'' @ entity @ ''>''"
  by (simp add: default_replacement_def default_redaction_policy_def)

lemma no_match_upto: "consumes r \<Longrightarrow> (\<forall>i < length t. ends r t i = []) \<Longrightarrow> ends r t j = []"
proof (rule ccontr)
  assume "consumes r" "\<forall>i < length t. ends r t i = []" and ne: "ends r t j \<noteq> []"
  then have "length t \<le> j" "hd (ends r t j) \<in> set (ends r t j)" using not_less by auto
  then show False using ends_gt [OF \<open>consumes r\<close>] ends_inside by fastforce
qed

lemma replacements_hold_no_match:
  "list_all (\<lambda>(entity, _). list_all (\<lambda>(_, q).
     list_all (\<lambda>i. ends q (default_replacement entity) i = []) [0..<length (default_replacement entity)])
     fallback_patterns) fallback_patterns"
  unfolding default_replacement_eq by code_simp

lemma delimited_default:
  assumes "dict_get fallback_patterns f = Some q" and "dict_get fallback_patterns entity = Some p"
  shows "delimited q (default_replacement entity)"
  unfolding delimited_def
proof (intro conjI)
  have "\<forall>i < length (default_replacement entity). ends q (default_replacement entity) i = []"
    using replacements_hold_no_match dict_get_mem [OF assms(1)] dict_get_mem [OF assms(2)]
    unfolding list_all_iff by fastforce
  then show "\<forall>i. ends q (default_replacement entity) i = []"
    using no_match_upto fallback_patterns_wf [OF assms(1)] by blast
  show "\<exists>C. over C q \<and> \<not> C (hd (default_replacement entity)) \<and> \<not> C (last (default_replacement entity))"
    using fallback_patterns_over [OF assms(1)]
    by (intro exI [of _ outside_brackets]) (simp add: default_replacement_eq)
qed (simp add: default_replacement_eq)

lemma pattern_shape:
  "dict_get fallback_patterns f = Some q \<Longrightarrow> no_boundary q \<or> at_boundaries q"
  using guarded_patterns plain_patterns by (auto simp: fallback_patterns_def split: if_splits)

lemma fallback_step_text:
  assumes "rp_replacement policy = default_replacement"
  shows "fst (fst (fallback_step policy direction entity st)) =
    (case dict_get fallback_patterns entity of
       None \<Rightarrow> fst (fst st)
     | Some p \<Rightarrow> fst (subn p (default_replacement entity) (fst (fst st))))"
proof (cases "dict_get fallback_patterns entity")
  case None
  then show ?thesis by (simp add: fallback_step_def split: prod.splits)
next
  case (Some p)
  have "fst (subn p repl t) = t" if "snd (subn p repl t) = 0" for t repl
    using subn_id [of p t repl] subn_zero [OF _ that] fallback_patterns_wf [OF Some] by simp
  then have same: "t = u" if "subn p repl t = (u, 0)" for t repl u
    using that by (metis fst_conv snd_conv)
  show ?thesis using Some assms same by (auto simp: fallback_step_def split: prod.splits)
qed

definition clean_of :: "string \<Rightarrow> string \<Rightarrow> bool" where
  \<comment> \<open>the pattern of the entity, where it has one, is found nowhere in the text\<close>
  "clean_of entity t =
     (case dict_get fallback_patterns entity of None \<Rightarrow> True | Some p \<Rightarrow> snd (subn p [] t) = 0)"

definition entity_order :: "string list \<Rightarrow> bool" where
  \<comment> \<open>no pattern that ends inside words is applied after one that looks at word boundaries\<close>
  "entity_order es = sorted_wrt (\<lambda>e f. f \<in> {''EMAIL_ADDRESS'', ''PHONE_NUMBER''} \<longrightarrow>
     e \<notin> {''CREDIT_CARD'', ''US_SSN'', ''IP_ADDRESS''}) es"

lemma clean_of_iff:
  "dict_get fallback_patterns f = Some q \<Longrightarrow> clean_of f t \<longleftrightarrow> (\<forall>j. ends q t j = [])"
  using subn_zero [of q "[]" t] subn_id [of q t "[]"] fallback_patterns_wf [of f q]
  by (auto simp: clean_of_def)

lemma order_shapes:
  assumes "e \<in> {''CREDIT_CARD'', ''US_SSN'', ''IP_ADDRESS''} \<longrightarrow> f \<notin> {''EMAIL_ADDRESS'', ''PHONE_NUMBER''}"
    and "dict_get fallback_patterns e = Some q" and "dict_get fallback_patterns f = Some p"
  shows "no_boundary q \<or> at_boundaries p"
  using assms guarded_patterns plain_patterns by (auto simp: fallback_patterns_def split: if_splits)

lemma step_keeps_clean:
  assumes "rp_replacement policy = default_replacement"
    and "f = e \<or> (clean_of f (fst (fst st)) \<and>
      (f \<in> {''CREDIT_CARD'', ''US_SSN'', ''IP_ADDRESS''} \<longrightarrow> e \<notin> {''EMAIL_ADDRESS'', ''PHONE_NUMBER''}))"
  shows "clean_of f (fst (fst (fallback_step policy direction e st)))"
proof (cases "dict_get fallback_patterns f")
  case None
  then show ?thesis by (simp add: clean_of_def)
next
  case (Some q)
  show ?thesis
  proof (cases "dict_get fallback_patterns e")
    case None
    then show ?thesis using Some assms by (auto simp: fallback_step_text)
  next
    case p: (Some p)
    have "no_boundary q \<or> at_boundaries p" and "q = p \<or> (\<forall>j. ends q (fst (fst st)) j = [])"
      using assms(2) Some p pattern_shape [OF Some] order_shapes [OF _ Some p]
      by (auto simp: clean_of_iff)
    then have "ends q (fst (subn p (default_replacement e) (fst (fst st)))) j = []" for j
      using subn_no_match [of p q] fallback_patterns_wf [OF Some] fallback_patterns_wf [OF p]
        delimited_default [OF Some p] by blast
    then show ?thesis by (simp add: clean_of_iff [OF Some] fallback_step_text [OF assms(1)] p)
  qed
qed

lemma fold_keeps_clean:
  assumes "rp_replacement policy = default_replacement"
  shows "clean_of f (fst (fst st)) \<Longrightarrow>
    (\<forall>e \<in> set es. f \<in> {''CREDIT_CARD'', ''US_SSN'', ''IP_ADDRESS''} \<longrightarrow> e \<notin> {''EMAIL_ADDRESS'', ''PHONE_NUMBER''}) \<Longrightarrow>
    clean_of f (fst (fst (fold (fallback_step policy direction) es st)))"
proof (induction es arbitrary: st)
  case (Cons e es)
  then show ?case using step_keeps_clean [OF assms, of f e st direction] by simp
qed simp

lemma fallback_cleans:
  assumes "rp_replacement policy = default_replacement"
  shows "entity_order es \<Longrightarrow> f \<in> set es \<Longrightarrow>
    clean_of f (fst (fst (fold (fallback_step policy direction) es st)))"
proof (induction es arbitrary: st)
  case (Cons e es)
  show ?case
  proof (cases "f \<in> set es")
    case True
    then show ?thesis using Cons by (simp add: entity_order_def)
  next
    case False
    then have "f = e" using Cons.prems(2) by simp
    then have "clean_of f (fst (fst (fold (fallback_step policy direction) es (fallback_step policy direction e st))))"
      using Cons.prems(1) step_keeps_clean [OF assms, of f e st direction]
      by (intro fold_keeps_clean [OF assms]) (auto simp: entity_order_def)
    then show ?thesis by simp
  qed
qed simp

lemma clean_of_empty: "clean_of f []"
  by (simp add: clean_of_def subn_def sub_from_end split: option.splits)

lemma redact_string_clean:
  assumes "rp_enabled (rd_policy rd)" and "rp_replacement (rd_policy rd) = default_replacement"
    and "entity_order (rp_entities (rd_policy rd))" and "f \<in> set (rp_entities (rd_policy rd))"
  shows "clean_of f (fst (fst (redact_string rd direction text)))"
  using fallback_cleans [OF assms(2-4)] assms(1) by (auto simp: redact_string_def clean_of_empty)

section \<open>The walk over a value\<close>

fun map_strings :: "(string \<Rightarrow> string) \<Rightarrow> json \<Rightarrow> json" where
  \<comment> \<open>the value with its string leaves replaced: keys, numbers, nulls and the order of the entries
      stay\<close>
  "map_strings f (JStr s) = JStr (f s)"
| "map_strings f (JDict d) = JDict (map (\<lambda>(k, v). (k, map_strings f v)) d)"
| "map_strings f (JList xs) = JList (map (map_strings f) xs)"
| "map_strings f v = v"

lemma walk_leafwise:
  "walk rd direction v =
     ((map_strings (\<lambda>s. fst (fst (redact_string rd direction s))) v,
       list_ex (\<lambda>s. snd (fst (redact_string rd direction s))) (iter_strings v)),
      concat (map (\<lambda>s. snd (redact_string rd direction s)) (iter_strings v)))"
proof (induction rd direction v rule: walk.induct)
  case (1 rd direction s)
  then show ?case by (simp split: prod.splits)
next
  case (2 rd direction d)
  have d: "map (\<lambda>p. (fst p, walk rd direction (snd p))) d =
      map (\<lambda>p. (fst p, ((map_strings (\<lambda>s. fst (fst (redact_string rd direction s))) (snd p),
       list_ex (\<lambda>s. snd (fst (redact_string rd direction s))) (iter_strings (snd p))),
      concat (map (\<lambda>s. snd (redact_string rd direction s)) (iter_strings (snd p)))))) d"
    using 2 by (auto intro!: map_cong)
  have c: "concat (map f (concat (map (\<lambda>p. iter_strings (snd p)) d))) =
      concat (map (\<lambda>p. concat (map f (iter_strings (snd p)))) d)" for f :: "string \<Rightarrow> metric list"
    by (induction d) auto
  show ?case
    using c by (auto simp: d Let_def comp_def case_prod_unfold list_ex_iff)
next
  case (3 rd direction xs)
  have d: "map (walk rd direction) xs =
      map (\<lambda>v. ((map_strings (\<lambda>s. fst (fst (redact_string rd direction s))) v,
       list_ex (\<lambda>s. snd (fst (redact_string rd direction s))) (iter_strings v)),
      concat (map (\<lambda>s. snd (redact_string rd direction s)) (iter_strings v)))) xs"
    using 3 by (auto intro!: map_cong)
  have c: "concat (map f (concat (map iter_strings xs))) =
      concat (map (\<lambda>v. concat (map f (iter_strings v))) xs)" for f :: "string \<Rightarrow> metric list"
    by (induction xs) auto
  show ?case
    by (auto simp add: d c Let_def comp_def list_ex_iff)
qed simp_all

lemma iter_strings_map: "iter_strings (map_strings f v) = map f (iter_strings v)"
proof (induction f v rule: map_strings.induct)
  case (2 f d)
  then have "map (\<lambda>p. iter_strings (map_strings f (snd p))) d = map (\<lambda>p. map f (iter_strings (snd p))) d"
    by (auto intro!: map_cong)
  then have "concat (map (\<lambda>p. iter_strings (map_strings f (snd p))) d) =
      concat (map (\<lambda>p. map f (iter_strings (snd p))) d)"
    by (rule arg_cong)
  then show ?case by (simp add: comp_def case_prod_unfold map_concat)
next
  case (3 f xs)
  then have "map (\<lambda>x. iter_strings (map_strings f x)) xs = map (\<lambda>x. map f (iter_strings x)) xs"
    by (auto intro!: map_cong)
  then have "concat (map (\<lambda>x. iter_strings (map_strings f x)) xs) = concat (map (\<lambda>x. map f (iter_strings x)) xs)"
    by (rule arg_cong)
  then show ?case by (simp add: comp_def map_concat)
qed simp_all

lemma map_strings_id: "(\<forall>s \<in> set (iter_strings v). f s = s) \<Longrightarrow> map_strings f v = v"
proof (induction f v rule: map_strings.induct)
  case (2 f d)
  then show ?case by (auto simp: case_prod_beta intro!: map_idI)
next
  case (3 f xs)
  then show ?case by (auto intro!: map_idI)
qed simp_all

section \<open>The flag and the counters\<close>

definition accounted :: "string \<Rightarrow> (string \<times> bool) \<times> metric list \<Rightarrow> bool" where
  \<comment> \<open>the flag is set exactly when a counter moved, and an unset flag means the text is the original\<close>
  "accounted text r \<longleftrightarrow> (snd (fst r) \<longleftrightarrow> snd r \<noteq> []) \<and> (\<not> snd (fst r) \<longrightarrow> fst (fst r) = text)"

lemma right_to_left_empty: "right_to_left rs = [] \<longleftrightarrow> rs = []"
  by (metis right_to_left_def length_0_conv length_sort)

lemma presidio_pass_accounted: "accounted text (presidio_pass rd direction text)"
  by (auto simp: accounted_def presidio_pass_def right_to_left_empty right_to_left_empty [THEN iffD2]
      split: option.splits sum.splits)

lemma fold_accounted:
  "accounted text st \<Longrightarrow> accounted text (fold (fallback_step policy direction) es st)"
proof (induction es arbitrary: st)
  case (Cons e es)
  have "accounted text (fallback_step policy direction e st)"
    using Cons.prems by (auto simp: accounted_def fallback_step_def split: option.splits prod.splits)
  then show ?case using Cons.IH by simp
qed simp

lemma redact_string_accounted: "accounted text (redact_string rd direction text)"
  using fold_accounted [OF presidio_pass_accounted]
  by (auto simp: redact_string_def accounted_def)

lemma walk_accounted:
  "walk rd direction v = ((v', changed), ms) \<Longrightarrow>
   (changed \<longleftrightarrow> ms \<noteq> []) \<and> (\<not> changed \<longrightarrow> v' = v)"
  using redact_string_accounted [of _ rd direction]
  by (fastforce simp: walk_leafwise list_ex_iff accounted_def intro!: map_strings_id)

section \<open>Presidio's spans\<close>

fun splice_spans :: "(string \<Rightarrow> string) \<Rightarrow> string \<Rightarrow> nat \<Rightarrow> span list \<Rightarrow> string" where
  \<comment> \<open>the text from \<open>pos\<close> on with each span, taken from left to right, replaced\<close>
  "splice_spans f text pos [] = drop pos text"
| "splice_spans f text pos (r # rs) =
     take (sp_start r - pos) (drop pos text) @ f (sp_entity r) @ splice_spans f text (sp_end r) rs"

fun chain :: "nat \<Rightarrow> nat \<Rightarrow> span list \<Rightarrow> bool" where
  \<comment> \<open>nonempty spans that do not overlap, from left to right, inside the text\<close>
  "chain n pos [] = (pos \<le> n)"
| "chain n pos (r # rs) = (pos \<le> sp_start r \<and> sp_start r < sp_end r \<and> chain n (sp_end r) rs)"

lemma chain_bounds: "chain n pos rs \<Longrightarrow> pos \<le> n \<and> (\<forall>r \<in> set rs. pos \<le> sp_start r)"
proof (induction rs arbitrary: pos)
  case (Cons r rs)
  then have "sp_end r \<le> n \<and> (\<forall>q \<in> set rs. sp_end r \<le> sp_start q)" by simp
  then show ?case using Cons.prems by fastforce
qed simp

lemma chain_sorted: "chain n pos rs \<Longrightarrow> sorted_wrt (\<lambda>q r. sp_start q < sp_start r) rs"
proof (induction rs arbitrary: pos)
  case (Cons r rs)
  then show ?case using chain_bounds [of n "sp_end r" rs] by fastforce
qed simp

lemma apply_spans_chain:
  "chain (length text) pos rs \<Longrightarrow>
   foldl (apply_span f) text (rev rs) = take pos text @ splice_spans f text pos rs"
proof (induction rs arbitrary: pos)
  case (Cons r rs)
  have e: "sp_end r \<le> length text" using Cons.prems chain_bounds [of _ "sp_end r" rs] by simp
  have "foldl (apply_span f) text (rev (r # rs)) =
      apply_span f (take (sp_end r) text @ splice_spans f text (sp_end r) rs) r"
    using Cons.IH [of "sp_end r"] Cons.prems by simp
  also have "\<dots> = take (sp_start r) text @ f (sp_entity r) @ splice_spans f text (sp_end r) rs"
    using Cons.prems e by (simp add: apply_span_def min_def)
  also have "take (sp_start r) text = take pos text @ take (sp_start r - pos) (drop pos text)"
    using Cons.prems by (simp flip: take_add)
  finally show ?case by simp
qed simp

lemma right_to_left_chain:
  assumes "chain n pos rs" and "mset results = mset rs"
  shows "right_to_left results = rev rs"
  unfolding right_to_left_def
proof (rule sort_key_inj_key_eq)
  show "mset results = mset (rev rs)" using assms(2) by simp
  have s: "sorted_wrt (\<lambda>q r. sp_start q < sp_start r) rs" using chain_sorted [OF assms(1)] .
  then have "sorted_wrt (<) (map sp_start rs)" by (simp add: sorted_wrt_map)
  then have "distinct (map sp_start rs)" by (simp add: strict_sorted_iff)
  then have "inj_on sp_start (set rs)" by (simp add: distinct_map)
  moreover have "set results = set rs" using assms(2) by (metis set_mset_mset)
  ultimately show "inj_on (\<lambda>r. - int (sp_start r)) (set results)"
    by (simp add: inj_on_def)
  have "sorted_wrt (\<lambda>q r. - int (sp_start q) \<le> - int (sp_start r)) (rev rs)"
    unfolding sorted_wrt_rev by (rule sorted_wrt_mono_rel [OF _ s]) simp
  then show "sorted (map (\<lambda>r. - int (sp_start r)) (rev rs))" by (simp add: sorted_wrt_map)
qed

section \<open>Properties\<close>

lemma redact_on:
  assumes "rp_enabled (rd_policy rd)"
    and "direction = ''request'' \<longrightarrow> rp_redact_requests (rd_policy rd)"
    and "direction = ''response'' \<longrightarrow> rp_redact_responses (rd_policy rd)"
  shows "redact rd direction obj = walk rd direction obj"
  unfolding redact_def using assms by auto

lemma redacted_clean:
  assumes "rp_enabled (rd_policy rd)" and "rp_replacement (rd_policy rd) = default_replacement"
    and "entity_order (rp_entities (rd_policy rd))"
    and "direction = ''request'' \<longrightarrow> rp_redact_requests (rd_policy rd)"
    and "direction = ''response'' \<longrightarrow> rp_redact_responses (rd_policy rd)"
    and "redact rd direction obj = ((obj', changed), ms)"
    and "entity \<in> set (rp_entities (rd_policy rd))" and "s \<in> set (iter_strings obj')"
  shows "clean_of entity s"
proof -
  have "obj' = map_strings (\<lambda>s. fst (fst (redact_string rd direction s))) obj"
    using assms(6) redact_on [OF assms(1,4,5)] by (simp add: walk_leafwise)
  then show ?thesis
    using assms(8) redact_string_clean [OF assms(1-3,7)] by (auto simp: iter_strings_map)
qed

text \<open>C16. With the default replacement and the default order of entities, whatever Presidio found or
  failed to find, no string inside a redacted value holds a match of the built-in pattern of any
  configured entity (e-mail address, phone number, card number, SSN, IP address).\<close>

theorem redaction_leaves_no_match:
  assumes "rp_enabled (rd_policy rd)" and "rp_replacement (rd_policy rd) = default_replacement"
    and "entity_order (rp_entities (rd_policy rd))"
    and "direction = ''request'' \<longrightarrow> rp_redact_requests (rd_policy rd)"
    and "direction = ''response'' \<longrightarrow> rp_redact_responses (rd_policy rd)"
    and "redact rd direction obj = ((obj', changed), ms)"
    and "entity \<in> set (rp_entities (rd_policy rd))" and "s \<in> set (iter_strings obj')"
  shows "clean_of entity s"
  by (rule redacted_clean [OF assms])

definition contact_card :: json where
  "contact_card =
     JDict [(''to'', JStr ''bob@corp.com''), (''n'', JInt 7), (''ssn'', JList [JStr ''id 123-45-6789.''])]"

definition regex_redactor :: redactor where
  "regex_redactor = new_redactor (Inl ''no module named presidio_analyzer'') default_redaction_policy"

lemma regex_redactor_eval:
  "redact regex_redactor ''response'' contact_card =
     ((JDict [(''to'', JStr ''<REDACTED:EMAIL_ADDRESS>''), (''n'', JInt 7),
              (''ssn'', JList [JStr ''id <REDACTED:PHONE_NUMBER>.''])], True),
      [RedactionsTotal ''response'' ''EMAIL_ADDRESS'' 1, RedactionsTotal ''response'' ''PHONE_NUMBER'' 1])"
  by code_simp

lemma default_order:
  "entity_order (rp_entities default_redaction_policy)"
  "rp_replacement default_redaction_policy = default_replacement"
  "rd_policy regex_redactor = default_redaction_policy"
  by (simp_all add: entity_order_def default_redaction_policy_def default_replacement_def regex_redactor_def
      new_redactor_def)

theorem redaction_leaves_no_match_witness: "clean_of ''US_SSN'' ''id <REDACTED:PHONE_NUMBER>.''"
  by (rule redaction_leaves_no_match [OF _ _ _ _ _ regex_redactor_eval])
    (simp_all add: default_order, simp_all add: default_redaction_policy_def)

text \<open>Redaction changes string leaves only: with the redactor on for a direction, the redacted
  value has the shape, keys, numbers and order of the original, each string is the redaction of the
  string it replaces, and the counters move as the strings are met.\<close>

theorem redact_is_leafwise:
  assumes "rp_enabled (rd_policy rd)"
    and "direction = ''request'' \<longrightarrow> rp_redact_requests (rd_policy rd)"
    and "direction = ''response'' \<longrightarrow> rp_redact_responses (rd_policy rd)"
  shows "redact rd direction obj =
     ((map_strings (\<lambda>s. fst (fst (redact_string rd direction s))) obj,
       list_ex (\<lambda>s. snd (fst (redact_string rd direction s))) (iter_strings obj)),
      concat (map (\<lambda>s. snd (redact_string rd direction s)) (iter_strings obj)))"
  using redact_on [OF assms] by (simp add: walk_leafwise)

theorem redact_is_leafwise_witness:
  "fst (fst (redact regex_redactor ''response'' contact_card)) =
   map_strings (\<lambda>s. fst (fst (redact_string regex_redactor ''response'' s))) contact_card"
  by (subst redact_is_leafwise) (simp_all add: default_order default_redaction_policy_def)

text \<open>The flag \<open>redact\<close> returns is set exactly when a redaction counter was incremented; when it
  is not set the value comes back unchanged, in particular when redaction is off for the
  direction.\<close>

theorem redact_flag_is_accounted:
  assumes "redact rd direction obj = ((obj', changed), ms)"
  shows "(changed \<longleftrightarrow> ms \<noteq> []) \<and> (\<not> changed \<longrightarrow> obj' = obj)"
  using assms walk_accounted by (auto simp: redact_def split: if_splits)

theorem redact_flag_is_accounted_witness:
  "True \<longleftrightarrow> snd (redact regex_redactor ''response'' contact_card) \<noteq> []"
  using redact_flag_is_accounted [OF regex_redactor_eval] regex_redactor_eval by simp

text \<open>C35. When the spans Presidio reports do not overlap, replacing them from right to left puts one
  replacement in the place of each span and keeps every other character, whatever the order in which
  Presidio reports them.\<close>

theorem disjoint_spans_are_spliced:
  assumes "rd_analyzer rd = Some analyze"
    and "analyze s (rp_entities (rd_policy rd)) (rp_score_threshold (rd_policy rd)) = Inr results"
    and "mset results = mset rs" and "chain (length s) 0 rs"
  shows "fst (fst (presidio_pass rd direction s)) = splice_spans (rp_replacement (rd_policy rd)) s 0 rs"
  using assms apply_spans_chain [OF assms(4)] right_to_left_chain [OF assms(4,3)]
  by (simp add: presidio_pass_def)

definition two_spans :: "span list" where
  "two_spans = [\<lparr> sp_start = 5, sp_end = 8, sp_entity = ''PERSON'' \<rparr>,
                \<lparr> sp_start = 12, sp_end = 18, sp_entity = ''LOCATION'' \<rparr>]"

definition presidio_found :: "span list \<Rightarrow> redactor" where
  "presidio_found rs =
     \<lparr> rd_policy = default_redaction_policy, rd_analyzer = Some (\<lambda>text entities threshold. Inr rs) \<rparr>"

theorem disjoint_spans_are_spliced_witness:
  "fst (fst (presidio_pass (presidio_found (rev two_spans)) ''response'' ''from Ann in Berlin'')) =
   ''from <REDACTED:PERSON> in <REDACTED:LOCATION>''"
  using disjoint_spans_are_spliced
    [where rd = "presidio_found (rev two_spans)" and rs = two_spans and s = "''from Ann in Berlin''"
       and direction = "''response''" and results = "rev two_spans"
       and analyze = "\<lambda>text entities threshold. Inr (rev two_spans)"]
  by (simp add: presidio_found_def two_spans_def default_redaction_policy_def)

definition overlapping :: "span list" where
  "overlapping = [\<lparr> sp_start = 0, sp_end = 20, sp_entity = ''EMAIL_ADDRESS'' \<rparr>,
                  \<lparr> sp_start = 6, sp_end = 11, sp_entity = ''PERSON'' \<rparr>]"

text \<open>C0. When two spans overlap, the second replacement is cut by the indices of the first: for the
  text \<open>alice.smith@corp.com\<close>, with the spans Presidio may report for the address (0 to 20) and for
  the person inside it (6 to 11), the outcome still holds the domain of the address.\<close>

theorem overlapping_spans_leak:
  "fst (fst (redact_string (presidio_found overlapping) ''response'' ''alice.smith@corp.com'')) =
   ''<REDACTED:EMAIL_ADDRESS>ON>@corp.com''"
  by code_simp

end
