(* ===== verification/Tool_Cache.thy ===== *)
theory Tool_Cache
  imports Gateway_Config
begin

text \<open>
  The two-tier cache of \<open>app/cache/tool_cache.py\<close>. \<open>TTLStore\<close> is a dict of entries with an
  expiry time; its coroutines hold the store's lock, so each is one step, and take the reading of
  \<open>time.monotonic()\<close>. \<open>get\<close> also returns the store, because an expired entry is deleted when it
  is looked up. \<open>ToolCache\<close> keeps one store for the manifest and one for tool results.

  \<open>_args_hash\<close> prints the arguments with sorted keys and hashes the text: the printing and the
  hash are one parameter, a function \<open>digest\<close> of the canonical value \<open>canon\<close>.

  What the orchestrator relies on is the locale \<open>ttl_map\<close>: a value that was stored is returned
  until it expires, and other keys are not disturbed. \<open>TTLStore\<close> and, through it, both tiers
  of the cache interpret it.
\<close>

section \<open>The store\<close>

record 'v cache_entry =
  ce_value :: 'v
  ce_expires_at :: seconds

type_synonym 'v ttl_store = "(string, 'v cache_entry) dict"

definition ttl_get :: "seconds \<Rightarrow> string \<Rightarrow> 'v ttl_store \<Rightarrow> 'v option \<times> 'v ttl_store" where
  "ttl_get now key st =
     (case dict_get st key of
        None \<Rightarrow> (None, st)
      | Some entry \<Rightarrow>
          if ce_expires_at entry < now then (None, dict_del key st) else (Some (ce_value entry), st))"

definition ttl_set :: "seconds \<Rightarrow> string \<Rightarrow> 'v \<Rightarrow> seconds \<Rightarrow> 'v ttl_store \<Rightarrow> 'v ttl_store" where
  "ttl_set now key v ttl st =
     (if ttl \<le> 0 then st else dict_put key \<lparr> ce_value = v, ce_expires_at = now + ttl \<rparr> st)"

definition ttl_delete :: "string \<Rightarrow> 'v ttl_store \<Rightarrow> 'v ttl_store" where
  "ttl_delete key st = dict_del key st"

definition ttl_clear :: "'v ttl_store \<Rightarrow> 'v ttl_store" where
  "ttl_clear st = []"

definition ttl_size :: "'v ttl_store \<Rightarrow> nat" where
  "ttl_size st = length st"

section \<open>The contract of a store with expiry\<close>

locale ttl_map =
  fixes lookup :: "seconds \<Rightarrow> 'k \<Rightarrow> 'm \<Rightarrow> 'v option"
    and sweep :: "seconds \<Rightarrow> 'k \<Rightarrow> 'm \<Rightarrow> 'm"
    and store :: "seconds \<Rightarrow> 'k \<Rightarrow> 'v \<Rightarrow> seconds \<Rightarrow> 'm \<Rightarrow> 'm"
  assumes lookup_store: "0 < ttl \<Longrightarrow>
      lookup t j (store now k v ttl m) =
        (if j = k then (if now + ttl < t then None else Some v) else lookup t j m)"
    and store_off: "ttl \<le> 0 \<Longrightarrow> store now k v ttl m = m"
    and lookup_sweep: "t \<le> t' \<Longrightarrow> lookup t' j (sweep t k m) = lookup t' j m"
begin

lemma hit_until_expiry: "0 < ttl \<Longrightarrow> t \<le> now + ttl \<Longrightarrow> lookup t k (store now k v ttl m) = Some v"
  by (simp add: lookup_store)

lemma miss_after_expiry: "0 < ttl \<Longrightarrow> now + ttl < t \<Longrightarrow> lookup t k (store now k v ttl m) = None"
  by (simp add: lookup_store)

lemma other_key: "j \<noteq> k \<Longrightarrow> lookup t j (store now k v ttl m) = lookup t j m"
  by (cases "0 < ttl") (simp_all add: lookup_store store_off)

lemma last_write_wins:
  "0 < ttl' \<Longrightarrow> lookup t k (store now' k v' ttl' (store now k v ttl m)) = lookup t k (store now' k v' ttl' m)"
  by (simp add: lookup_store)

text \<open>A lookup in between, with its deletion of an expired entry, is not observable later.\<close>

lemma lookup_after_lookup:
  "t \<le> t' \<Longrightarrow> 0 < ttl \<Longrightarrow>
   lookup t' j (sweep t i (store now k v ttl m)) = lookup t' j (store now k v ttl m)"
  by (simp add: lookup_sweep)

end

interpretation ttl: ttl_map
  "\<lambda>now key st. fst (ttl_get now key st)" "\<lambda>now key st. snd (ttl_get now key st)" ttl_set
  by unfold_locales
    (auto simp: ttl_get_def ttl_set_def dict.get_put dict.get_del split: option.splits)

lemma ttl_delete_get: "fst (ttl_get now key (ttl_delete key st)) = None"
  by (simp add: ttl_get_def ttl_delete_def dict.get_del)

section \<open>The cache\<close>

record ('m, 'v) tool_cache =
  tc_cfg :: cache_config
  tc_manifest_store :: "'m ttl_store"
  tc_result_store :: "'v ttl_store"

definition new_tool_cache :: "cache_config \<Rightarrow> ('m, 'v) tool_cache" where
  "new_tool_cache cfg = \<lparr> tc_cfg = cfg, tc_manifest_store = [], tc_result_store = [] \<rparr>"

definition MANIFEST_KEY :: string where
  "MANIFEST_KEY = ''__manifest__''"

definition get_manifest :: "seconds \<Rightarrow> ('m, 'v) tool_cache \<Rightarrow> 'm option \<times> ('m, 'v) tool_cache" where
  "get_manifest now c =
     (if \<not> cc_enabled (tc_cfg c) \<or> cc_manifest_ttl (tc_cfg c) \<le> 0 then (None, c)
      else (let (r, st) = ttl_get now MANIFEST_KEY (tc_manifest_store c)
            in (r, c\<lparr>tc_manifest_store := st\<rparr>)))"

definition set_manifest :: "seconds \<Rightarrow> 'm \<Rightarrow> ('m, 'v) tool_cache \<Rightarrow> ('m, 'v) tool_cache" where
  "set_manifest now m c =
     (if \<not> cc_enabled (tc_cfg c) \<or> cc_manifest_ttl (tc_cfg c) \<le> 0 then c
      else c\<lparr>tc_manifest_store :=
               ttl_set now MANIFEST_KEY m (cc_manifest_ttl (tc_cfg c)) (tc_manifest_store c)\<rparr>)"

definition invalidate_manifest :: "('m, 'v) tool_cache \<Rightarrow> ('m, 'v) tool_cache" where
  "invalidate_manifest c = c\<lparr>tc_manifest_store := ttl_delete MANIFEST_KEY (tc_manifest_store c)\<rparr>"

definition args_hash :: "(json \<Rightarrow> string) \<Rightarrow> jdict \<Rightarrow> string" where
  \<comment> \<open>\<open>digest\<close> stands for \<open>sha256(json.dumps(_).encode()).hexdigest()\<close>\<close>
  "args_hash digest arguments = take 20 (digest (canon (JDict arguments)))"

definition tool_ttl :: "cache_config \<Rightarrow> string \<Rightarrow> seconds" where
  "tool_ttl cfg qualified =
     (if \<not> cc_tool_results_enabled cfg then 0
      else dict_get_default (cc_tool_ttls cfg) qualified (cc_default_tool_ttl cfg))"

definition result_key :: "(json \<Rightarrow> string) \<Rightarrow> string \<Rightarrow> jdict \<Rightarrow> string" where
  "result_key digest qualified arguments = qualified @ '':'' @ args_hash digest arguments"

definition get_result ::
  "(json \<Rightarrow> string) \<Rightarrow> seconds \<Rightarrow> string \<Rightarrow> jdict \<Rightarrow> ('m, 'v) tool_cache \<Rightarrow> 'v option \<times> ('m, 'v) tool_cache" where
  "get_result digest now qualified arguments c =
     (if \<not> cc_enabled (tc_cfg c) then (None, c)
      else if tool_ttl (tc_cfg c) qualified \<le> 0 then (None, c)
      else (let (r, st) = ttl_get now (result_key digest qualified arguments) (tc_result_store c)
            in (r, c\<lparr>tc_result_store := st\<rparr>)))"

definition set_result ::
  "(json \<Rightarrow> string) \<Rightarrow> seconds \<Rightarrow> string \<Rightarrow> jdict \<Rightarrow> 'v \<Rightarrow> ('m, 'v) tool_cache \<Rightarrow> ('m, 'v) tool_cache" where
  "set_result digest now qualified arguments v c =
     (if \<not> cc_enabled (tc_cfg c) then c
      else if tool_ttl (tc_cfg c) qualified \<le> 0 then c
      else c\<lparr>tc_result_store :=
               ttl_set now (result_key digest qualified arguments) v (tool_ttl (tc_cfg c) qualified)
                 (tc_result_store c)\<rparr>)"

definition cache_stats :: "('m, 'v) tool_cache \<Rightarrow> (string, nat) dict" where
  "cache_stats c =
     [(''manifest_entries'', ttl_size (tc_manifest_store c)),
      (''result_entries'', ttl_size (tc_result_store c))]"

section \<open>Frames and the results tier\<close>

definition cacheable :: "cache_config \<Rightarrow> string \<Rightarrow> bool" where
  "cacheable cfg qualified \<longleftrightarrow> cc_enabled cfg \<and> 0 < tool_ttl cfg qualified"

lemma cache_cfg_stable [simp]:
  "tc_cfg (snd (get_manifest now c)) = tc_cfg c"
  "tc_cfg (set_manifest now m c) = tc_cfg c"
  "tc_cfg (invalidate_manifest c) = tc_cfg c"
  "tc_cfg (snd (get_result digest now q a c)) = tc_cfg c"
  "tc_cfg (set_result digest now q a v c) = tc_cfg c"
  by (simp_all add: get_manifest_def set_manifest_def invalidate_manifest_def get_result_def
      set_result_def split: prod.splits)

lemma get_result_lookup:
  "fst (get_result digest t q a c) =
     (if cacheable (tc_cfg c) q then fst (ttl_get t (result_key digest q a) (tc_result_store c)) else None)"
  by (auto simp: get_result_def cacheable_def split: prod.splits)

lemma set_result_store:
  "tc_result_store (set_result digest now q a v c) =
     (if cacheable (tc_cfg c) q
      then ttl_set now (result_key digest q a) v (tool_ttl (tc_cfg c) q) (tc_result_store c)
      else tc_result_store c)"
  by (auto simp: set_result_def cacheable_def)

lemma canon_dict_reorder:
  assumes "mset d = mset d'" and "distinct (map fst d)"
  shows "canon (JDict d) = canon (JDict d')"
proof -
  let ?f = "\<lambda>(k, v). (k, canon v)"
  have "mset (map ?f d) = mset (map ?f d')" by (metis assms(1) mset_map)
  moreover have "distinct (map fst (map ?f d))"
    using assms(2) by (simp add: comp_def case_prod_beta)
  ultimately have "sort_key fst (map ?f d) = sort_key fst (map ?f d')"
    by (rule sort_key_fst_unique)
  then show ?thesis by simp
qed

lemma result_kept:
  "cacheable (tc_cfg c) q \<Longrightarrow> t \<le> now + tool_ttl (tc_cfg c) q \<Longrightarrow>
   fst (get_result digest t q a (set_result digest now q a v c)) = Some v"
  by (simp add: get_result_lookup set_result_store cacheable_def ttl.lookup_store)

section \<open>Properties\<close>

text \<open>C37. Once a result has been stored for a cacheable tool, a lookup with the same arguments
  returns it up to and including the instant the tool's time to live ends, and nothing after it.\<close>

theorem result_cached_until_ttl:
  assumes "cacheable (tc_cfg c) q"
  shows "fst (get_result digest t q a (set_result digest now q a v c)) =
           (if now + tool_ttl (tc_cfg c) q < t then None else Some v)"
  using assms by (simp add: get_result_lookup set_result_store cacheable_def ttl.lookup_store)

definition example_cache :: "(unit, json) tool_cache" where
  "example_cache = new_tool_cache (default_cache_config\<lparr>cc_tool_ttls := [(''fx.get_rate'', 60)]\<rparr>)"

lemmas cache_eval = example_cache_def new_tool_cache_def default_cache_config_def cacheable_def
  tool_ttl_def dict_get_default_def

theorem result_cached_until_ttl_witness:
  "fst (get_result (\<lambda>_. ''h'') 61 ''fx.get_rate'' []
     (set_result (\<lambda>_. ''h'') 1 ''fx.get_rate'' [] (JInt 7) example_cache)) = Some (JInt 7)"
  by (subst result_cached_until_ttl) (simp_all add: cache_eval)

text \<open>The order in which a caller writes the arguments does not matter: two dicts with the
  same items have the same cache key, so one's stored result answers the other's call.\<close>

theorem result_key_ignores_argument_order:
  assumes "mset a = mset a'" and "distinct (map fst a)"
  shows "result_key digest q a = result_key digest q a'"
  using canon_dict_reorder [OF assms] by (simp add: result_key_def args_hash_def del: canon.simps)

theorem result_key_ignores_argument_order_witness:
  "result_key (\<lambda>v. if v = JDict [(''a'', JInt 1), (''b'', JInt 2)] then ''x'' else ''y'') ''t''
     [(''b'', JInt 2), (''a'', JInt 1)] =
   result_key (\<lambda>v. if v = JDict [(''a'', JInt 1), (''b'', JInt 2)] then ''x'' else ''y'') ''t''
     [(''a'', JInt 1), (''b'', JInt 2)]"
  by (rule result_key_ignores_argument_order) simp_all

text \<open>Storing a result for one call leaves every other key of the cache, and the manifest,
  as they were; for a tool with no time to live nothing is stored at all.\<close>

theorem set_result_frame:
  shows "result_key digest q' a' \<noteq> result_key digest q a \<Longrightarrow>
     fst (get_result digest t q' a' (set_result digest now q a v c)) = fst (get_result digest t q' a' c)"
    and "tc_manifest_store (set_result digest now q a v c) = tc_manifest_store c"
    and "\<not> cacheable (tc_cfg c) q \<Longrightarrow> set_result digest now q a v c = c"
  by (simp_all add: get_result_lookup set_result_store ttl.other_key set_result_def cacheable_def not_less)

theorem set_result_frame_witness:
  "fst (get_result (\<lambda>_. ''h'') 2 ''fx.other'' []
     (set_result (\<lambda>_. ''h'') 1 ''fx.get_rate'' [] (JInt 7) example_cache)) =
   fst (get_result (\<lambda>_. ''h'') 2 ''fx.other'' [] example_cache) \<and>
   set_result (\<lambda>_. ''h'') 1 ''fx.other'' [] (JInt 7) example_cache = example_cache"
proof
  show "fst (get_result (\<lambda>_. ''h'') 2 ''fx.other'' []
     (set_result (\<lambda>_. ''h'') 1 ''fx.get_rate'' [] (JInt 7) example_cache)) =
   fst (get_result (\<lambda>_. ''h'') 2 ''fx.other'' [] example_cache)"
    by (rule set_result_frame(1)) (simp add: result_key_def)
  show "set_result (\<lambda>_. ''h'') 1 ''fx.other'' [] (JInt 7) example_cache = example_cache"
    by (rule set_result_frame(3)) (simp add: cache_eval)
qed

end
