(* ===== verification/Auth_Provider.thy ===== *)
theory Auth_Provider
  imports Gateway_Config
begin

text \<open>
  \<open>app/transport/auth_provider.py\<close>: the headers that authenticate the gateway to an upstream, from a
  fixed token, an environment variable or an OAuth2 token that is cached and refreshed.

  The environment variables, the clock, the POST to the token endpoint and the parsing of floats are
  the record \<open>auth_env\<close>. \<open>get_headers\<close> returns the headers or the exception, with the provider it
  leaves (the OAuth2 provider keeps its token); the lock of that provider makes the call atomic.

  The locale \<open>header_source\<close> is what the client of a provider relies on: one header under a name the
  provider keeps. It is interpreted on the three providers together.
\<close>

section \<open>Exceptions and the outside world\<close>

datatype provider_error =
    EnvVarUnset string
  | ClientSecretUnset string
  | MissingAccessToken

datatype net_exc =
    TransportError string     \<comment> \<open>\<open>httpx.TransportError\<close>, \<open>ConnectionError\<close>, \<open>asyncio.TimeoutError\<close>\<close>
  | Failure string            \<comment> \<open>any other exception\<close>

datatype provider_exc =
    ProviderError provider_error
  | NetExc net_exc

record auth_env =
  ae_environ :: "string \<Rightarrow> string option"
  ae_now :: seconds
  ae_now_after :: seconds                \<comment> \<open>the clock when the token endpoint has answered\<close>
  ae_post :: "string option \<Rightarrow> (string, string option) dict \<Rightarrow> net_exc + jdict"
  ae_float :: "string \<Rightarrow> string + rat"
  ae_repr :: "json \<Rightarrow> string"

section \<open>References to environment variables\<close>

function resolve_env :: "(string \<Rightarrow> string option) \<Rightarrow> string \<Rightarrow> string" where
  \<comment> \<open>\<open>re.sub(r"\$\{([^}]+)\}", ..., value)\<close>, an unset variable replaced by the empty string\<close>
  "resolve_env environ [] = []"
| "resolve_env environ (c # s) =
     (if c = CHR ''$'' \<and> starts_with ''{'' s
         \<and> takeWhile (\<lambda>x. x \<noteq> CHR ''}'') (tl s) \<noteq> [] \<and> dropWhile (\<lambda>x. x \<noteq> CHR ''}'') (tl s) \<noteq> []
      then (case environ (takeWhile (\<lambda>x. x \<noteq> CHR ''}'') (tl s)) of None \<Rightarrow> [] | Some v \<Rightarrow> v)
             @ resolve_env environ (tl (dropWhile (\<lambda>x. x \<noteq> CHR ''}'') (tl s)))
      else c # resolve_env environ s)"
  by pat_completeness auto
termination
proof (relation "measure (\<lambda>(environ, s). length s)")
  fix environ :: "string \<Rightarrow> string option" and c s
  have "length (tl (dropWhile (\<lambda>x. x \<noteq> CHR ''}'') (tl s))) \<le> length s"
    using length_dropWhile_le [of "\<lambda>x. x \<noteq> CHR ''}''" "tl s"] by simp
  then show "((environ, tl (dropWhile (\<lambda>x. x \<noteq> CHR ''}'') (tl s))), environ, c # s)
      \<in> measure (\<lambda>(environ, s). length s)"
    by simp
qed auto

section \<open>The providers\<close>

record token_cache =
  tk_access_token :: json
  tk_expires_at :: seconds

record oauth2_provider =
  oa_header :: string
  oa_token_url :: "string option"
  oa_client_id :: "string option"
  oa_client_secret_env :: "string option"
  oa_scope :: "string option"
  oa_extra_params :: "(string, string) dict"
  oa_buffer :: seconds
  oa_cache :: "token_cache option"

datatype auth_provider =
    StaticProvider string string            \<comment> \<open>header, resolved token\<close>
  | EnvVarProvider string string            \<comment> \<open>header, variable\<close>
  | OAuth2Provider oauth2_provider

definition static_provider :: "(string \<Rightarrow> string option) \<Rightarrow> string \<Rightarrow> string \<Rightarrow> auth_provider" where
  "static_provider environ header token = StaticProvider header (resolve_env environ token)"

definition token_expired :: "seconds \<Rightarrow> oauth2_provider \<Rightarrow> bool" where
  "token_expired now p =
     (case oa_cache p of None \<Rightarrow> True | Some c \<Rightarrow> tk_expires_at c - oa_buffer p \<le> now)"

definition token_request :: "oauth2_provider \<Rightarrow> string \<Rightarrow> (string, string option) dict" where
  "token_request p secret =
     (let data = fold (\<lambda>(k, v) d. dict_put k (Some v) d) (oa_extra_params p)
                   [(''grant_type'', Some ''client_credentials''), (''client_id'', oa_client_id p),
                    (''client_secret'', Some secret)]
      in if truthy_opt (oa_scope p) then dict_put ''scope'' (oa_scope p) data else data)"

definition fetch_token :: "auth_env \<Rightarrow> oauth2_provider \<Rightarrow> provider_exc + token_cache" where
  "fetch_token ae p =
     (case oa_client_secret_env p of
        None \<Rightarrow> Inl (NetExc (Failure ''TypeError''))
      | Some var \<Rightarrow>
          if \<not> truthy_opt (ae_environ ae var) then Inl (ProviderError (ClientSecretUnset var))
          else
            (case ae_post ae (oa_token_url p) (token_request p (the (ae_environ ae var))) of
               Inl e \<Rightarrow> Inl (NetExc e)
             | Inr body \<Rightarrow>
                 (case dict_get body ''access_token'' of
                    None \<Rightarrow> Inl (ProviderError MissingAccessToken)
                  | Some token \<Rightarrow>
                      if \<not> truthy token then Inl (ProviderError MissingAccessToken)
                      else
                        (case py_float (ae_float ae) (dict_get_default body ''expires_in'' (JInt 3600)) of
                           Inl e \<Rightarrow> Inl (NetExc (Failure e))
                         | Inr expires_in \<Rightarrow>
                             Inr \<lparr> tk_access_token = token, tk_expires_at = ae_now_after ae + expires_in \<rparr>))))"

definition bearer_header :: "auth_env \<Rightarrow> oauth2_provider \<Rightarrow> token_cache \<Rightarrow> (string, string) dict" where
  "bearer_header ae p c = [(oa_header p, ''Bearer '' @ py_str (ae_repr ae) (tk_access_token c))]"

definition oauth2_get_headers ::
  "auth_env \<Rightarrow> oauth2_provider \<Rightarrow> (provider_exc + (string, string) dict) \<times> oauth2_provider" where
  "oauth2_get_headers ae p =
     (if token_expired (ae_now ae) p then
        (case fetch_token ae p of
           Inl e \<Rightarrow> (Inl e, p)
         | Inr c \<Rightarrow> (Inr (bearer_header ae p c), p\<lparr> oa_cache := Some c \<rparr>))
      else (Inr (bearer_header ae p (the (oa_cache p))), p))"

fun get_headers :: "auth_env \<Rightarrow> auth_provider \<Rightarrow> (provider_exc + (string, string) dict) \<times> auth_provider" where
  "get_headers ae (StaticProvider header token) = (Inr [(header, token)], StaticProvider header token)"
| "get_headers ae (EnvVarProvider header var) =
     ((if truthy_opt (ae_environ ae var) then Inr [(header, the (ae_environ ae var))]
       else Inl (ProviderError (EnvVarUnset var))), EnvVarProvider header var)"
| "get_headers ae (OAuth2Provider p) =
     (let (r, p') = oauth2_get_headers ae p in (r, OAuth2Provider p'))"

definition build_auth_provider :: "(string \<Rightarrow> string option) \<Rightarrow> server_auth_config option \<Rightarrow> auth_provider option" where
  "build_auth_provider environ cfg =
     (case cfg of
        None \<Rightarrow> None
      | Some c \<Rightarrow>
          (case sa_strategy c of
             StaticAuth \<Rightarrow>
               (if \<not> truthy_opt (sa_header c) \<or> \<not> truthy_opt (sa_token c) then None
                else Some (static_provider environ (the (sa_header c)) (the (sa_token c))))
           | EnvAuth \<Rightarrow>
               (if \<not> truthy_opt (sa_header c) \<or> \<not> truthy_opt (sa_env_var c) then None
                else Some (EnvVarProvider (the (sa_header c)) (the (sa_env_var c))))
           | OAuth2Auth \<Rightarrow>
               Some (OAuth2Provider
                 \<lparr> oa_header = str_or (sa_header c) ''Authorization'',
                   oa_token_url = sa_oauth2_token_url c, oa_client_id = sa_oauth2_client_id c,
                   oa_client_secret_env = sa_oauth2_client_secret_env c, oa_scope = sa_oauth2_scope c,
                   oa_extra_params = sa_oauth2_extra_params c, oa_buffer = sa_oauth2_refresh_buffer c,
                   oa_cache = None \<rparr>)))"

section \<open>What a client of a provider relies on\<close>

locale header_source =
  fixes get :: "'e \<Rightarrow> 'p \<Rightarrow> ('x + (string, string) dict) \<times> 'p"
    and name :: "'p \<Rightarrow> string"
  assumes one_header: "get e p = (Inr hs, p') \<Longrightarrow> \<exists>v. hs = [(name p, v)]"
    and name_kept: "get e p = (r, p') \<Longrightarrow> name p' = name p"
begin

fun after :: "'e list \<Rightarrow> 'p \<Rightarrow> 'p" where
  \<comment> \<open>the provider after a sequence of calls\<close>
  "after [] p = p"
| "after (e # es) p = after es (snd (get e p))"

lemma name_after: "name (after es p) = name p"
proof (induction es arbitrary: p)
  case (Cons e es)
  then show ?case using name_kept [of e p] by (cases "get e p") simp
qed simp

lemma header_after:
  assumes "get e (after es p) = (Inr hs, p')"
  shows "\<exists>v. hs = [(name p, v)]"
  using one_header [OF assms] name_after by simp

end

fun provider_header :: "auth_provider \<Rightarrow> string" where
  "provider_header (StaticProvider header token) = header"
| "provider_header (EnvVarProvider header var) = header"
| "provider_header (OAuth2Provider p) = oa_header p"

lemma oauth2_get_headers_one:
  "oauth2_get_headers ae p = (r, p') \<Longrightarrow>
   oa_header p' = oa_header p \<and> (\<forall>hs. r = Inr hs \<longrightarrow> (\<exists>v. hs = [(oa_header p, v)]))"
  by (auto simp: oauth2_get_headers_def bearer_header_def split: if_splits sum.splits)

lemma get_headers_one:
  "get_headers ae p = (r, p') \<Longrightarrow>
   provider_header p' = provider_header p \<and> (\<forall>hs. r = Inr hs \<longrightarrow> (\<exists>v. hs = [(provider_header p, v)]))"
  by (cases p) (auto split: prod.splits if_splits dest: oauth2_get_headers_one)

interpretation providers: header_source get_headers provider_header
  by unfold_locales (auto dest: get_headers_one)

lemma fetch_token_Inr:
  assumes "fetch_token ae p = Inr c"
  shows "\<exists>var secret body secs. oa_client_secret_env p = Some var \<and> ae_environ ae var = Some secret \<and>
    ae_post ae (oa_token_url p) (token_request p secret) = Inr body \<and>
    dict_get body ''access_token'' = Some (tk_access_token c) \<and>
    py_float (ae_float ae) (dict_get_default body ''expires_in'' (JInt 3600)) = Inr secs \<and>
    tk_expires_at c = ae_now_after ae + secs"
proof -
  obtain var where var: "oa_client_secret_env p = Some var" "truthy_opt (ae_environ ae var)"
    using assms by (auto simp: fetch_token_def split: option.splits if_splits)
  then obtain secret where secret: "ae_environ ae var = Some secret" by (cases "ae_environ ae var") auto
  show ?thesis
    using assms var secret
    by (intro exI [of _ var] exI [of _ secret])
      (auto simp: fetch_token_def split: option.splits if_splits sum.splits)
qed

section \<open>Properties\<close>

text \<open>\<open>${VAR}\<close> references are expanded from left to right, each replaced by the value of its variable
  and the value itself not expanded again; text without a dollar sign is kept.\<close>

theorem resolve_env_expands:
  assumes "CHR ''$'' \<notin> set before" and "var \<noteq> []" and "CHR ''}'' \<notin> set var"
  shows "resolve_env environ (before @ ''${'' @ var @ ''}'' @ rest) =
    before @ (case environ var of None \<Rightarrow> [] | Some v \<Rightarrow> v) @ resolve_env environ rest"
  using assms(1)
proof (induction before)
  case Nil
  have "takeWhile (\<lambda>x. x \<noteq> CHR ''}'') (var @ ''}'' @ rest) = var"
    "dropWhile (\<lambda>x. x \<noteq> CHR ''}'') (var @ ''}'' @ rest) = ''}'' @ rest"
    using assms(3) by (induction var) auto
  then show ?case using assms(2) by simp
next
  case (Cons c before)
  then have "c \<noteq> CHR ''$''" by auto
  then show ?case using Cons by simp
qed

theorem resolve_env_expands_witness:
  "resolve_env (\<lambda>v. if v = ''KEY'' then Some ''s3cr${KEY}'' else None) (''Bearer '' @ ''${'' @ ''KEY'' @ ''}'' @ ''!'') =
   ''Bearer s3cr${KEY}!''"
  by (subst resolve_env_expands) simp_all

text \<open>C39. The OAuth2 provider answers with a bearer token that is either the cached one, more than the
  refresh buffer before its expiry and without a request, or one the token endpoint has just issued,
  which it caches with the expiry counted from the reply. When the token cannot be fetched the
  cached one is kept.\<close>

theorem oauth2_token_is_fresh:
  assumes "oauth2_get_headers ae p = (r, p')"
  shows "(case r of
      Inr hs \<Rightarrow> \<exists>c. oa_cache p' = Some c \<and> hs = bearer_header ae p c \<and>
        ((p' = p \<and> ae_now ae < tk_expires_at c - oa_buffer p) \<or>
         (fetch_token ae p = Inr c \<and>
           (\<exists>var secret body secs. oa_client_secret_env p = Some var \<and> ae_environ ae var = Some secret \<and>
              ae_post ae (oa_token_url p) (token_request p secret) = Inr body \<and>
              dict_get body ''access_token'' = Some (tk_access_token c) \<and>
              py_float (ae_float ae) (dict_get_default body ''expires_in'' (JInt 3600)) = Inr secs \<and>
              tk_expires_at c = ae_now_after ae + secs)))
    | Inl e \<Rightarrow> p' = p \<and> token_expired (ae_now ae) p \<and> fetch_token ae p = Inl e)"
proof (cases "token_expired (ae_now ae) p")
  case True
  show ?thesis
  proof (cases "fetch_token ae p")
    case (Inl e)
    then show ?thesis using assms True by (auto simp: oauth2_get_headers_def)
  next
    case (Inr c)
    with fetch_token_Inr [OF Inr] show ?thesis using assms True by (auto simp: oauth2_get_headers_def)
  qed
next
  case False
  then show ?thesis using assms
    by (auto simp: oauth2_get_headers_def token_expired_def split: option.splits)
qed

definition crm_provider :: oauth2_provider where
  "crm_provider =
     \<lparr> oa_header = ''Authorization'', oa_token_url = Some ''https://idp/token'', oa_client_id = Some ''gw'',
       oa_client_secret_env = Some ''SECRET'', oa_scope = Some ''crm.read'', oa_extra_params = [(''audience'', ''crm'')],
       oa_buffer = 60, oa_cache = Some \<lparr> tk_access_token = JStr ''old'', tk_expires_at = 1050 \<rparr> \<rparr>"

definition token_endpoint :: auth_env where
  "token_endpoint =
     \<lparr> ae_environ = (\<lambda>v. if v = ''SECRET'' then Some ''pw'' else None), ae_now = 1000, ae_now_after = 1001,
       ae_post = (\<lambda>url data.
         if dict_get data ''client_secret'' = Some (Some ''pw'') \<and> dict_get data ''scope'' = Some (Some ''crm.read'')
         then Inr [(''access_token'', JStr ''new''), (''expires_in'', JInt 600)] else Inl (Failure ''401'')),
       ae_float = (\<lambda>s. Inl ''ValueError''), ae_repr = (\<lambda>v. []) \<rparr>"

theorem oauth2_token_is_fresh_witness:
  "fetch_token token_endpoint crm_provider = Inr \<lparr> tk_access_token = JStr ''new'', tk_expires_at = 1601 \<rparr>"
proof -
  have eval: "oauth2_get_headers token_endpoint crm_provider =
      (Inr [(''Authorization'', ''Bearer new'')],
       crm_provider\<lparr> oa_cache := Some \<lparr> tk_access_token = JStr ''new'', tk_expires_at = 1601 \<rparr> \<rparr>)"
    by (simp add: oauth2_get_headers_def token_expired_def crm_provider_def token_endpoint_def fetch_token_def
        token_request_def dict_get_default_def py_float_def bearer_header_def py_str_def)
  from oauth2_token_is_fresh [OF eval] show ?thesis
    by (auto simp: crm_provider_def)
qed

end
