(* ===== verification/Circuit_Breaker.thy ===== *)
theory Circuit_Breaker
  imports Gateway_Config
begin

text \<open>
  The per-upstream circuit breaker of \<open>app/transport/circuit_breaker.py\<close>: the class
  \<open>CircuitBreaker\<close> as the record \<open>breaker\<close>, its three coroutines as functions of the breaker and
  of the reading of \<open>time.monotonic()\<close>, and \<open>CircuitBreakerRegistry\<close>. Each coroutine holds the
  breaker's lock over its whole body, so it is one atomic step.

  The lemmas give the invariant of the fields, the transitions each operation can take, and what
  sequences of results do to a breaker.
\<close>

section \<open>State and operations\<close>

datatype circuit_state = CLOSED | OPEN | HALF_OPEN

datatype circuit_open_error = CircuitOpenError string seconds

record breaker =
  cb_server_id :: string
  cb_failure_threshold :: int
  cb_recovery_timeout :: seconds
  cb_probe_successes :: int
  cb_state :: circuit_state
  cb_failures :: int
  cb_probe_ok :: int
  cb_opened_at :: "seconds option"

definition new_breaker :: "string \<Rightarrow> int \<Rightarrow> seconds \<Rightarrow> int \<Rightarrow> breaker" where
  "new_breaker sid threshold timeout probes =
     \<lparr> cb_server_id = sid, cb_failure_threshold = threshold, cb_recovery_timeout = timeout,
       cb_probe_successes = probes, cb_state = CLOSED, cb_failures = 0, cb_probe_ok = 0,
       cb_opened_at = None \<rparr>"

definition before_call :: "seconds \<Rightarrow> breaker \<Rightarrow> (circuit_open_error + unit) \<times> breaker" where
  "before_call now cb =
     (if cb_state cb = OPEN then
        (let elapsed = now - (case cb_opened_at cb of None \<Rightarrow> 0 | Some t \<Rightarrow> t);
             remaining = cb_recovery_timeout cb - elapsed
         in if 0 < remaining
            then (Inl (CircuitOpenError (cb_server_id cb) (py_round remaining 1)), cb)
            else (Inr (), cb\<lparr>cb_state := HALF_OPEN, cb_probe_ok := 0\<rparr>))
      else (Inr (), cb))"

definition on_success :: "breaker \<Rightarrow> breaker" where
  "on_success cb =
     (if cb_state cb = HALF_OPEN then
        (let cb' = cb\<lparr>cb_probe_ok := cb_probe_ok cb + 1\<rparr>
         in if cb_probe_successes cb' \<le> cb_probe_ok cb'
            then cb'\<lparr>cb_state := CLOSED, cb_failures := 0, cb_opened_at := None\<rparr>
            else cb')
      else if cb_state cb = CLOSED then cb\<lparr>cb_failures := 0\<rparr>
      else cb)"

definition on_failure :: "seconds \<Rightarrow> breaker \<Rightarrow> breaker" where
  "on_failure now cb =
     (let cb' = cb\<lparr>cb_failures := cb_failures cb + 1\<rparr>
      in if cb_state cb' = HALF_OPEN then cb'\<lparr>cb_state := OPEN, cb_opened_at := Some now\<rparr>
         else if cb_state cb' = CLOSED then
           (if cb_failure_threshold cb' \<le> cb_failures cb'
            then cb'\<lparr>cb_state := OPEN, cb_opened_at := Some now\<rparr>
            else cb')
         else cb')"

fun circuit_state_name :: "circuit_state \<Rightarrow> string" where
  "circuit_state_name CLOSED = ''CLOSED''"
| "circuit_state_name OPEN = ''OPEN''"
| "circuit_state_name HALF_OPEN = ''HALF_OPEN''"

definition breaker_to_dict :: "breaker \<Rightarrow> jdict" where
  "breaker_to_dict cb =
     [(''state'', JStr (circuit_state_name (cb_state cb))),
      (''failures'', JInt (cb_failures cb)),
      (''probe_ok'', JInt (cb_probe_ok cb)),
      (''opened_at'', case cb_opened_at cb of None \<Rightarrow> JNull | Some t \<Rightarrow> JFloat t)]"

record cb_registry =
  cr_enabled :: bool
  cr_failure_threshold :: int
  cr_recovery_timeout :: seconds
  cr_probe_successes :: int
  cr_breakers :: "(string, breaker) dict"

definition new_cb_registry :: "bool \<Rightarrow> int \<Rightarrow> seconds \<Rightarrow> int \<Rightarrow> cb_registry" where
  "new_cb_registry enabled threshold timeout probes =
     \<lparr> cr_enabled = enabled, cr_failure_threshold = threshold, cr_recovery_timeout = timeout,
       cr_probe_successes = probes, cr_breakers = [] \<rparr>"

definition cb_registry_get :: "string \<Rightarrow> cb_registry \<Rightarrow> breaker \<times> cb_registry" where
  "cb_registry_get sid r =
     (let (cb, d) = get_or_create (cr_breakers r) sid
            (new_breaker sid (cr_failure_threshold r) (cr_recovery_timeout r) (cr_probe_successes r))
      in (cb, r\<lparr>cr_breakers := d\<rparr>))"

definition cb_all_states :: "cb_registry \<Rightarrow> (string, jdict) dict" where
  "cb_all_states r = map (\<lambda>(sid, cb). (sid, breaker_to_dict cb)) (cr_breakers r)"

lemmas breaker_ops [gateway_simps] = before_call_def on_success_def on_failure_def

section \<open>The breaker as a machine\<close>

datatype breaker_event = BeforeCall seconds | Succeeded | Failed seconds

fun breaker_step :: "breaker \<Rightarrow> breaker_event \<Rightarrow> breaker" where
  "breaker_step cb (BeforeCall now) = snd (before_call now cb)"
| "breaker_step cb Succeeded = on_success cb"
| "breaker_step cb (Failed now) = on_failure now cb"

definition fresh_breaker :: "breaker \<Rightarrow> bool" where
  "fresh_breaker cb \<longleftrightarrow>
     cb = new_breaker (cb_server_id cb) (cb_failure_threshold cb) (cb_recovery_timeout cb)
            (cb_probe_successes cb)"

definition breaker_inv :: "breaker \<Rightarrow> bool" where
  "breaker_inv cb \<longleftrightarrow>
     0 \<le> cb_failures cb \<and> 0 \<le> cb_probe_ok cb \<and>
     (cb_opened_at cb = None \<longleftrightarrow> cb_state cb = CLOSED) \<and>
     (cb_state cb = CLOSED \<longrightarrow> cb_failures cb < max 1 (cb_failure_threshold cb)) \<and>
     (cb_state cb = HALF_OPEN \<longrightarrow> cb_probe_ok cb < max 1 (cb_probe_successes cb))"

lemma breaker_inv_fresh: "fresh_breaker cb \<Longrightarrow> breaker_inv cb"
  by (cases cb) (auto simp: fresh_breaker_def new_breaker_def breaker_inv_def)

lemma breaker_inv_before_call: "breaker_inv cb \<Longrightarrow> breaker_inv (snd (before_call now cb))"
  by (auto simp: breaker_inv_def before_call_def Let_def)

lemma breaker_inv_on_success: "breaker_inv cb \<Longrightarrow> breaker_inv (on_success cb)"
  by (cases "cb_state cb") (auto simp: breaker_inv_def on_success_def Let_def)

lemma breaker_inv_on_failure: "breaker_inv cb \<Longrightarrow> breaker_inv (on_failure now cb)"
  by (cases "cb_state cb") (auto simp: breaker_inv_def on_failure_def Let_def)

lemma breaker_inv_step: "breaker_inv cb \<Longrightarrow> breaker_inv (breaker_step cb e)"
  by (cases e) (auto intro: breaker_inv_before_call breaker_inv_on_success breaker_inv_on_failure)

interpretation cb: det_machine fresh_breaker breaker_step breaker_inv
  by unfold_locales (auto intro: breaker_inv_fresh breaker_inv_step)

lemma breaker_config_ops [simp]:
  "cb_failure_threshold (snd (before_call now cb)) = cb_failure_threshold cb"
  "cb_recovery_timeout (snd (before_call now cb)) = cb_recovery_timeout cb"
  "cb_probe_successes (snd (before_call now cb)) = cb_probe_successes cb"
  "cb_server_id (snd (before_call now cb)) = cb_server_id cb"
  "cb_failure_threshold (on_success cb) = cb_failure_threshold cb"
  "cb_recovery_timeout (on_success cb) = cb_recovery_timeout cb"
  "cb_probe_successes (on_success cb) = cb_probe_successes cb"
  "cb_server_id (on_success cb) = cb_server_id cb"
  "cb_failure_threshold (on_failure now cb) = cb_failure_threshold cb"
  "cb_recovery_timeout (on_failure now cb) = cb_recovery_timeout cb"
  "cb_probe_successes (on_failure now cb) = cb_probe_successes cb"
  "cb_server_id (on_failure now cb) = cb_server_id cb"
  by (simp_all add: breaker_ops Let_def)

lemma breaker_config_step [simp]:
  "cb_failure_threshold (breaker_step cb e) = cb_failure_threshold cb"
  "cb_recovery_timeout (breaker_step cb e) = cb_recovery_timeout cb"
  "cb_probe_successes (breaker_step cb e) = cb_probe_successes cb"
  "cb_server_id (breaker_step cb e) = cb_server_id cb"
  by (cases e; simp)+

lemma breaker_config_run [simp]:
  "cb_failure_threshold (run_events breaker_step cb es) = cb_failure_threshold cb"
  "cb_recovery_timeout (run_events breaker_step cb es) = cb_recovery_timeout cb"
  "cb_probe_successes (run_events breaker_step cb es) = cb_probe_successes cb"
  by (induction es arbitrary: cb) auto

section \<open>Transitions\<close>

text \<open>The four transitions that the module's documentation lists.\<close>

inductive documented_transition :: "circuit_state \<Rightarrow> circuit_state \<Rightarrow> bool" where
  trip: "documented_transition CLOSED OPEN"
| probe: "documented_transition OPEN HALF_OPEN"
| recover: "documented_transition HALF_OPEN CLOSED"
| relapse: "documented_transition HALF_OPEN OPEN"

inductive_simps from_CLOSED [simp]: "documented_transition CLOSED t"
inductive_simps from_OPEN [simp]: "documented_transition OPEN t"
inductive_simps from_HALF_OPEN [simp]: "documented_transition HALF_OPEN t"

lemma step_transition:
  "cb_state (breaker_step cb e) = cb_state cb \<or>
   documented_transition (cb_state cb) (cb_state (breaker_step cb e))"
  by (cases e; cases "cb_state cb") (auto simp: breaker_ops Let_def)

lemma admitted_iff:
  assumes "breaker_inv cb"
  shows "fst (before_call now cb) = Inr () \<longleftrightarrow>
     cb_state cb = OPEN \<longrightarrow> the (cb_opened_at cb) + cb_recovery_timeout cb \<le> now"
  using assms by (cases "cb_opened_at cb") (auto simp: before_call_def breaker_inv_def Let_def)

lemma rejected_unchanged: "fst (before_call now cb) = Inl e \<Longrightarrow> snd (before_call now cb) = cb"
  by (auto simp: before_call_def Let_def split: if_splits)

lemma admitted_not_open: "fst (before_call now cb) = Inr () \<Longrightarrow> cb_state (snd (before_call now cb)) \<noteq> OPEN"
  by (auto simp: before_call_def Let_def split: if_splits)

section \<open>Runs of results\<close>

fun result_of :: "breaker_event \<Rightarrow> bool list" where
  \<comment> \<open>the results in a run of events: \<open>True\<close> for a failure, \<open>False\<close> for a success\<close>
  "result_of (BeforeCall now) = []"
| "result_of Succeeded = [False]"
| "result_of (Failed now) = [True]"

abbreviation results :: "breaker_event list \<Rightarrow> bool list" where
  "results es \<equiv> concat (map result_of es)"

definition has_run :: "nat \<Rightarrow> bool list \<Rightarrow> bool" where
  \<comment> \<open>\<open>k\<close> failures in a row\<close>
  "has_run k bs \<longleftrightarrow> (\<exists>u v. bs = u @ replicate k True @ v)"

lemma has_run_short: "length bs < k \<Longrightarrow> \<not> has_run k bs"
  by (auto simp: has_run_def)

lemma has_run_start: "k \<le> f \<Longrightarrow> has_run k (replicate f True @ bs)"
  unfolding has_run_def
  by (intro exI [of _ "[]"] exI [of _ "replicate (f - k) True @ bs"])
    (simp add: replicate_add [symmetric] flip: append_assoc)

lemma has_run_success:
  assumes "f < k"
  shows "has_run k (replicate f True @ False # bs) \<longleftrightarrow> has_run k bs"
proof
  assume "has_run k (replicate f True @ False # bs)"
  then obtain u v where eq: "replicate f True @ False # bs = u @ replicate k True @ v"
    by (auto simp: has_run_def)
  have "f < length u"
  proof (rule ccontr)
    assume "\<not> f < length u"
    moreover have "f - length u < k" using assms by simp
    ultimately have "(u @ replicate k True @ v) ! f = True"
      by (simp add: nth_append)
    moreover have "(replicate f True @ False # bs) ! f = False"
      by (simp add: nth_append)
    ultimately show False using eq by simp
  qed
  then have "bs = drop (Suc f) u @ replicate k True @ v"
    using arg_cong [OF eq, of "drop (Suc f)"] by simp
  then show "has_run k bs" unfolding has_run_def by blast
next
  assume "has_run k bs"
  then obtain u v where "bs = u @ replicate k True @ v" by (auto simp: has_run_def)
  then have "replicate f True @ False # bs = (replicate f True @ False # u) @ replicate k True @ v"
    by simp
  then show "has_run k (replicate f True @ False # bs)" unfolding has_run_def by blast
qed

text \<open>
  A closed breaker with \<open>f\<close> failures behind it behaves as one that has just seen \<open>f\<close> failures.
\<close>

lemma leaves_closed_Cons:
  assumes "cb_state cb = CLOSED"
  shows "(\<exists>n \<le> length (e # es). cb_state (run_events breaker_step cb (take n (e # es))) \<noteq> CLOSED) \<longleftrightarrow>
      (\<exists>n \<le> length es. cb_state (run_events breaker_step (breaker_step cb e) (take n es)) \<noteq> CLOSED)"
    (is "?L \<longleftrightarrow> ?R")
proof
  assume ?L
  then obtain n where "n \<le> Suc (length es)"
    and "cb_state (run_events breaker_step cb (take n (e # es))) \<noteq> CLOSED" by auto
  then show ?R using assms by (cases n) auto
next
  assume ?R
  then obtain n where "n \<le> length es"
    "cb_state (run_events breaker_step (breaker_step cb e) (take n es)) \<noteq> CLOSED" by blast
  then show ?L by (intro exI [of _ "Suc n"]) simp
qed

lemma leaves_closed_iff:
  assumes "cb_state cb = CLOSED" and "cb_failures cb = int f" and "f < k"
    and "cb_failure_threshold cb = int k"
  shows "(\<exists>n \<le> length es. cb_state (run_events breaker_step cb (take n es)) \<noteq> CLOSED) \<longleftrightarrow>
         has_run k (replicate f True @ results es)"
  using assms
proof (induction es arbitrary: cb f)
  case Nil
  then show ?case by (simp add: has_run_short)
next
  case (Cons e es)
  note split = leaves_closed_Cons [OF Cons.prems(1), of e es]
  show ?case
  proof (cases e)
    case (BeforeCall now)
    then have "breaker_step cb e = cb" using Cons.prems(1) by (simp add: before_call_def)
    then show ?thesis using Cons BeforeCall unfolding split by simp
  next
    case Succeeded
    then have "cb_state (breaker_step cb e) = CLOSED" "cb_failures (breaker_step cb e) = int 0"
      using Cons.prems(1) by (simp_all add: on_success_def)
    then show ?thesis
      using Cons.IH [of "breaker_step cb e" 0] Cons.prems Succeeded
      unfolding split by (simp add: has_run_success)
  next
    case (Failed now)
    have grow: "replicate (Suc f) True @ results es = replicate f True @ results (e # es)"
      using Failed by (simp add: replicate_app_Cons_same)
    show ?thesis
    proof (cases "Suc f < k")
      case True
      then have "cb_state (breaker_step cb e) = CLOSED" "cb_failures (breaker_step cb e) = int (Suc f)"
        using Cons.prems Failed by (simp_all add: on_failure_def Let_def)
      then show ?thesis
        using Cons.IH [of "breaker_step cb e" "Suc f"] Cons.prems True
        unfolding split grow [symmetric] by simp
    next
      case False
      then have "cb_state (breaker_step cb e) = OPEN"
        using Cons.prems Failed by (simp add: on_failure_def Let_def)
      then have ?thesis if "has_run k (replicate (Suc f) True @ results es)"
        using that unfolding split grow [symmetric] by (intro iffI exI [of _ 0]) auto
      then show ?thesis using False by (simp add: has_run_start del: replicate.simps)
    qed
  qed
qed

lemma half_open_successes:
  assumes "cb_state cb = HALF_OPEN" and "0 \<le> cb_probe_ok cb"
  shows "cb_probe_ok cb + int n < max 1 (cb_probe_successes cb) \<Longrightarrow>
     run_events breaker_step cb (replicate n Succeeded) = cb\<lparr>cb_probe_ok := cb_probe_ok cb + int n\<rparr>"
  using assms
proof (induction n arbitrary: cb)
  case 0
  then show ?case by simp
next
  case (Suc n)
  then have "on_success cb = cb\<lparr>cb_probe_ok := cb_probe_ok cb + 1\<rparr>"
    by (simp add: on_success_def Let_def less_max_iff_disj)
  then show ?case using Suc by (simp add: algebra_simps)
qed

lemma closed_successes:
  "cb_state cb = CLOSED \<Longrightarrow> cb_state (run_events breaker_step cb (replicate n Succeeded)) = CLOSED"
  by (induction n arbitrary: cb) (auto simp: on_success_def)

lemma half_open_closes:
  assumes "cb_state cb = HALF_OPEN" and "0 \<le> cb_probe_ok cb"
    and "max 1 (cb_probe_successes cb) \<le> cb_probe_ok cb + int n"
    and "cb_probe_ok cb < max 1 (cb_probe_successes cb)"
  shows "cb_state (run_events breaker_step cb (replicate n Succeeded)) = CLOSED"
  using assms
proof (induction n arbitrary: cb)
  case 0
  then show ?case by (simp add: less_max_iff_disj)
next
  case (Suc n)
  show ?case
  proof (cases "cb_probe_successes cb \<le> cb_probe_ok cb + 1")
    case True
    then have "cb_state (on_success cb) = CLOSED" using Suc.prems by (simp add: on_success_def Let_def)
    then show ?thesis by (simp add: closed_successes)
  next
    case False
    then have "on_success cb = cb\<lparr>cb_probe_ok := cb_probe_ok cb + 1\<rparr>"
      using Suc.prems by (simp add: on_success_def Let_def)
    then show ?thesis using Suc.IH [of "on_success cb"] Suc.prems False by simp
  qed
qed

section \<open>Properties\<close>

abbreviation reachable_breaker :: "breaker \<Rightarrow> bool" where
  "reachable_breaker \<equiv> reachable fresh_breaker (\<lambda>cb e cb'. cb' = breaker_step cb e)"

definition example_breaker :: breaker where
  "example_breaker = new_breaker ''pg'' 3 10 2"

lemma example_breaker_fresh: "fresh_breaker example_breaker"
  by (simp add: example_breaker_def fresh_breaker_def new_breaker_def)

lemma reachable_run: "reachable_breaker cb \<Longrightarrow> reachable_breaker (run_events breaker_step cb es)"
  by (induction es arbitrary: cb) (auto intro: reachable_step)

lemma example_breaker_run: "reachable_breaker (run_events breaker_step example_breaker es)"
  by (intro reachable_run reachable.reachable_init example_breaker_fresh)

lemmas breaker_eval = example_breaker_def new_breaker_def breaker_ops Let_def

text \<open>C28. A breaker that starts closed leaves CLOSED, in any sequence of admissions and results,
  exactly when the results contain \<open>failure_threshold\<close> failures in a row: a success in between
  starts the count again, and admissions do not count.\<close>

theorem trips_iff_consecutive_failures:
  assumes "fresh_breaker cb" and "0 < cb_failure_threshold cb"
  shows "(\<exists>n \<le> length es. cb_state (run_events breaker_step cb (take n es)) \<noteq> CLOSED) \<longleftrightarrow>
         has_run (nat (cb_failure_threshold cb)) (results es)"
  using leaves_closed_iff [of cb 0 "nat (cb_failure_threshold cb)" es] assms
  by (simp add: fresh_breaker_def [of cb])
     (metis breaker.select_convs(5,6) new_breaker_def)

theorem trips_iff_consecutive_failures_witness:
  "(\<exists>n \<le> 4. cb_state (run_events breaker_step example_breaker
      (take n [Failed 1, Failed 2, BeforeCall 3, Failed 4])) \<noteq> CLOSED) \<longleftrightarrow>
   has_run (nat (cb_failure_threshold example_breaker)) [True, True, True]"
  using trips_iff_consecutive_failures [OF example_breaker_fresh, of "[Failed 1, Failed 2, BeforeCall 3, Failed 4]"]
  by (simp add: breaker_eval eval_nat_numeral)

text \<open>An open breaker, reached by any sequence of operations, rejects every call before
  \<open>opened_at + recovery_timeout\<close> and stays as it is; from that instant on it admits the call and is
  half open with no successful probe counted.\<close>

theorem open_breaker_gate:
  assumes "reachable_breaker cb" and "cb_state cb = OPEN"
  shows "\<exists>t. cb_opened_at cb = Some t \<and>
    before_call now cb =
      (if now < t + cb_recovery_timeout cb
       then (Inl (CircuitOpenError (cb_server_id cb)
                   (py_round (t + cb_recovery_timeout cb - now) 1)), cb)
       else (Inr (), cb\<lparr>cb_state := HALF_OPEN, cb_probe_ok := 0\<rparr>))"
proof -
  have "breaker_inv cb" using assms(1) by (rule cb.reachable_inv)
  then obtain t where "cb_opened_at cb = Some t"
    using assms(2) by (auto simp: breaker_inv_def)
  then show ?thesis using assms(2) by (simp add: before_call_def Let_def algebra_simps)
qed

theorem open_breaker_gate_witness:
  "\<exists>t. cb_opened_at (run_events breaker_step example_breaker [Failed 1, Failed 2, Failed 3]) = Some t \<and> t = 3"
  using open_breaker_gate [OF example_breaker_run, of "[Failed 1, Failed 2, Failed 3]" 5]
  by (simp add: breaker_eval)

text \<open>A half-open breaker with no successful probe counted closes on the
  \<open>probe_successes\<close>-th success in a row and not before, and a failure before that opens it again
  and restarts the recovery timeout.\<close>

theorem half_open_probing:
  assumes "cb_state cb = HALF_OPEN" and "cb_probe_ok cb = 0"
  shows "cb_state (run_events breaker_step cb (replicate n Succeeded)) =
           (if max 1 (cb_probe_successes cb) \<le> int n then CLOSED else HALF_OPEN)" (is ?count)
    and "int n < max 1 (cb_probe_successes cb) \<Longrightarrow>
         cb_state (run_events breaker_step cb (replicate n Succeeded @ [Failed now])) = OPEN \<and>
         cb_opened_at (run_events breaker_step cb (replicate n Succeeded @ [Failed now])) = Some now"
      (is "_ \<Longrightarrow> ?relapse")
proof -
  show ?count
    using half_open_closes [of cb n] half_open_successes [of cb n] assms by auto
  show ?relapse if "int n < max 1 (cb_probe_successes cb)"
    using half_open_successes [of cb n] assms that
    by (simp add: run_events_append on_failure_def Let_def)
qed

theorem half_open_probing_witness:
  "cb_state (run_events breaker_step (example_breaker\<lparr>cb_state := HALF_OPEN\<rparr>) [Succeeded, Succeeded]) = CLOSED \<and>
   cb_state (run_events breaker_step (example_breaker\<lparr>cb_state := HALF_OPEN\<rparr>) [Succeeded, Failed 7]) = OPEN"
  using half_open_probing(1) [of "example_breaker\<lparr>cb_state := HALF_OPEN\<rparr>" 2]
    half_open_probing(2) [of "example_breaker\<lparr>cb_state := HALF_OPEN\<rparr>" 1 7]
  by (simp add: example_breaker_def new_breaker_def eval_nat_numeral)


text \<open>C29. Every reachable breaker can recover: once the recovery timeout has passed, an admission
  followed by \<open>probe_successes\<close> successes (at least one) leaves it closed.\<close>

theorem breaker_recovers:
  assumes "reachable_breaker cb"
    and "cb_state cb = OPEN \<longrightarrow> the (cb_opened_at cb) + cb_recovery_timeout cb \<le> now"
  shows "cb_state (run_events breaker_step cb
           (BeforeCall now # replicate (nat (max 1 (cb_probe_successes cb))) Succeeded)) = CLOSED"
proof -
  let ?cb = "snd (before_call now cb)" and ?n = "nat (max 1 (cb_probe_successes cb))"
  have inv: "breaker_inv cb" using assms(1) by (rule cb.reachable_inv)
  then have adm: "fst (before_call now cb) = Inr ()"
    using assms(2) by (simp add: admitted_iff)
  have probes: "cb_probe_successes ?cb = cb_probe_successes cb"
    using breaker_config_step(3) [of cb "BeforeCall now"] by simp
  have inv': "breaker_inv ?cb" using inv by (rule breaker_inv_before_call)
  consider "cb_state ?cb = CLOSED" | "cb_state ?cb = HALF_OPEN"
    using admitted_not_open [OF adm] by (cases "cb_state ?cb") auto
  then have "cb_state (run_events breaker_step ?cb (replicate ?n Succeeded)) = CLOSED"
  proof cases
    case 1
    then show ?thesis by (rule closed_successes)
  next
    case 2
    then show ?thesis using inv' probes by (intro half_open_closes) (auto simp: breaker_inv_def)
  qed
  then show ?thesis by simp
qed

theorem breaker_recovers_witness:
  "cb_state (run_events breaker_step (run_events breaker_step example_breaker [Failed 1, Failed 2, Failed 3])
      [BeforeCall 13, Succeeded, Succeeded]) = CLOSED"
  using breaker_recovers [OF example_breaker_run, of "[Failed 1, Failed 2, Failed 3]" 13]
  by (simp add: breaker_eval eval_nat_numeral)

text \<open>A half-open breaker does not limit itself to one probe: while no result has come back,
  every further call is admitted, however many there are.\<close>

theorem half_open_admits_every_call:
  assumes "cb_state cb = HALF_OPEN"
  shows "fst (before_call now (run_events breaker_step cb (map BeforeCall ts))) = Inr ()"
proof -
  have "run_events breaker_step cb (map BeforeCall ts) = cb"
    using assms by (induction ts) (auto simp: before_call_def)
  then show ?thesis using assms by (simp add: before_call_def)
qed

theorem half_open_admits_every_call_witness:
  "fst (before_call 13 (run_events breaker_step
     (run_events breaker_step example_breaker [Failed 1, Failed 2, Failed 3, BeforeCall 13])
     [BeforeCall 13, BeforeCall 13])) = Inr ()"
  using half_open_admits_every_call
    [of "run_events breaker_step example_breaker [Failed 1, Failed 2, Failed 3, BeforeCall 13]" 13 "[13, 13]"]
  by (simp add: breaker_eval)

section \<open>The registry of breakers\<close>

lemma cb_registry_get_stable:
  assumes "dict_get (cr_breakers r) sid = Some cb"
  shows "cb_registry_get sid r = (cb, r)"
  using assms by (simp add: cb_registry_get_def get_or_create_def)

lemma cb_registry_get_stored:
  "cb_registry_get sid r = (cb, r') \<Longrightarrow> dict_get (cr_breakers r') sid = Some cb"
  by (auto simp: cb_registry_get_def Let_def gateway_simps split: prod.splits)

lemma cb_registry_get_frame:
  "cb_registry_get sid r = (cb, r') \<Longrightarrow> j \<noteq> sid \<Longrightarrow>
   dict_get (cr_breakers r') j = dict_get (cr_breakers r) j"
  by (auto simp: cb_registry_get_def Let_def dest: get_or_create_other split: prod.splits)

end
