(* ===== verification/Mcp_Client.thy ===== *)
theory Mcp_Client
  imports Auth_Provider Circuit_Breaker
begin

text \<open>
  \<open>app/transport/mcp_client.py\<close>: the client of one upstream server.

  The MCP SDK (connecting, the handshake, the requests on a session, closing), the retry loop of
  \<open>tenacity\<close>, the environment and the clock are the record \<open>sdk\<close>; \<open>'w\<close> is the state of everything
  outside, \<open>'c\<close> an open connection and \<open>'s\<close> a session on it. \<open>link\<close> is what an operation reads and
  writes: the client, the circuit breaker it shares with its registry, and the outside.

  An exception caught as \<open>Exception\<close> keeps its class as a constructor of \<open>call_exc\<close>, since the retry
  loop looks at it; the message of an \<open>UpstreamError\<close> is kept as the data it is made of.
\<close>

section \<open>Errors\<close>

datatype upstream_message =
    AuthProviderFailed provider_error
  | CircuitIsOpen string                     \<comment> \<open>the server's id\<close>
  | ToolFailed json                          \<comment> \<open>\<open>str(payload)\<close>\<close>
  | CausedBy net_exc                         \<comment> \<open>\<open>str(exc)\<close>\<close>

record upstream_error =
  ue_message :: upstream_message
  ue_code :: int

datatype call_exc =
    Upstream upstream_error
  | Net net_exc

section \<open>Content\<close>

datatype content_block =
    TextContent string
  | ImageContent string string               \<comment> \<open>mime type, data\<close>
  | EmbeddedResource json                    \<comment> \<open>\<open>resource.model_dump(mode="json")\<close>\<close>
  | OtherBlock string                        \<comment> \<open>\<open>str(block)\<close>\<close>

record call_tool_result =
  tr_content :: "content_block list"
  tr_is_error :: bool

fun block_part :: "content_block \<Rightarrow> json" where
  "block_part (TextContent t) = JStr t"
| "block_part (ImageContent mime d) =
     JDict [(''type'', JStr ''image''), (''mimeType'', JStr mime), (''data'', JStr d)]"
| "block_part (EmbeddedResource r) = JDict [(''type'', JStr ''resource''), (''resource'', r)]"
| "block_part (OtherBlock s) = JStr s"

definition extract_content :: "call_tool_result \<Rightarrow> call_exc + json" where
  "extract_content result =
     (let parts = map block_part (tr_content result);
          payload = (if length parts = 1 then parts ! 0 else JList parts)
      in if tr_is_error result
         then Inl (Upstream \<lparr> ue_message = ToolFailed payload, ue_code = - 32603 \<rparr>)
         else Inr payload)"

datatype sdk_schema =
    SchemaModel jdict                        \<comment> \<open>\<open>schema.model_dump(mode="json")\<close>\<close>
  | SchemaDict jdict
  | SchemaOther

record mcp_tool =
  mt_name :: string
  mt_description :: "string option"
  mt_input_schema :: sdk_schema

record raw_tool =
  rt_name :: string
  rt_description :: string
  rt_input_schema :: jdict

definition tool_to_dict :: "mcp_tool \<Rightarrow> raw_tool" where
  "tool_to_dict t =
     \<lparr> rt_name = mt_name t, rt_description = str_or (mt_description t) [],
       rt_input_schema =
         (case mt_input_schema t of SchemaModel d \<Rightarrow> d | SchemaDict d \<Rightarrow> d | SchemaOther \<Rightarrow> []) \<rparr>"

section \<open>State\<close>

record ('c, 's) mcp_client =
  mc_server :: upstream_server
  mc_auth_provider :: "auth_provider option"
  mc_forward_agent_header :: "string option"
  mc_session :: "'s option"
  mc_stack :: "'c option"

record ('w, 'c, 's) link =
  lk_client :: "('c, 's) mcp_client"
  lk_cb :: "breaker option"
  lk_world :: 'w

datatype conn_request =
    SseConnect string "(string, string) dict"     \<comment> \<open>\<open>sse_client(url, headers=...)\<close>\<close>
  | HttpConnect string                            \<comment> \<open>\<open>streamable_http_client(url, http_client=self._http)\<close>\<close>

datatype reply = Tools "mcp_tool list" | Content json

type_synonym ('w, 'c, 's) attempt = "nat \<Rightarrow> ('w, 'c, 's) link \<Rightarrow> (call_exc + reply) \<times> ('w, 'c, 's) link"

record ('w, 'c, 's) sdk =
  sdk_connect :: "conn_request \<Rightarrow> 'w \<Rightarrow> (net_exc + 'c) \<times> 'w"
  sdk_initialize :: "'c \<Rightarrow> 'w \<Rightarrow> (net_exc + 's) \<times> 'w"
  sdk_list_tools :: "'s \<Rightarrow> 'w \<Rightarrow> (net_exc + mcp_tool list) \<times> 'w"
  sdk_call_tool :: "'s \<Rightarrow> string \<Rightarrow> jdict \<Rightarrow> 'w \<Rightarrow> (net_exc + call_tool_result) \<times> 'w"
  sdk_send_ping :: "'s \<Rightarrow> 'w \<Rightarrow> (net_exc + unit) \<times> 'w"
  sdk_aclose :: "'c \<Rightarrow> 'w \<Rightarrow> 'w"
  sdk_auth :: "'w \<Rightarrow> auth_env \<times> 'w"
  sdk_now :: "'w \<Rightarrow> seconds"
  sdk_retrying :: "nat \<Rightarrow> (call_exc \<Rightarrow> bool) \<Rightarrow> ('w, 'c, 's) attempt \<Rightarrow> ('w, 'c, 's) link \<Rightarrow>
                   (call_exc + reply) \<times> ('w, 'c, 's) link"

definition new_mcp_client :: "(string \<Rightarrow> string option) \<Rightarrow> upstream_server \<Rightarrow> ('c, 's) mcp_client" where
  "new_mcp_client environ server =
     (case us_server_auth server of
        Some auth \<Rightarrow>
          \<lparr> mc_server = server, mc_auth_provider = build_auth_provider environ (Some auth),
            mc_forward_agent_header = sa_forward_agent_id_header auth, mc_session = None, mc_stack = None \<rparr>
      | None \<Rightarrow>
          \<lparr> mc_server = server,
            mc_auth_provider =
              (if truthy_opt (us_auth_header server) \<and> truthy_opt (us_auth_token server)
               then Some (static_provider environ (the (us_auth_header server)) (the (us_auth_token server)))
               else None),
            mc_forward_agent_header = None, mc_session = None, mc_stack = None \<rparr>)"

section \<open>Headers and sessions\<close>

definition resolve_headers ::
  "('w, 'c, 's) sdk \<Rightarrow> string option \<Rightarrow> ('w, 'c, 's) link \<Rightarrow>
   (call_exc + (string, string) dict) \<times> ('w, 'c, 's) link" where
  "resolve_headers sdk agent_id lk =
     (let c = lk_client lk;
          forward = (\<lambda>headers.
            if truthy_opt (mc_forward_agent_header c) \<and> truthy_opt agent_id
            then dict_put (the (mc_forward_agent_header c)) (the agent_id) headers else headers)
      in case mc_auth_provider c of
           None \<Rightarrow> (Inr (forward []), lk)
         | Some p \<Rightarrow>
             (let (ae, w) = sdk_auth sdk (lk_world lk);
                  (r, p') = get_headers ae p;
                  lk' = lk\<lparr> lk_client := c\<lparr> mc_auth_provider := Some p' \<rparr>, lk_world := w \<rparr>
              in case r of
                   Inl (ProviderError e) \<Rightarrow>
                     (Inl (Upstream \<lparr> ue_message = AuthProviderFailed e, ue_code = - 32002 \<rparr>), lk')
                 | Inl (NetExc e) \<Rightarrow> (Inl (Net e), lk')
                 | Inr headers \<Rightarrow> (Inr (forward headers), lk')))"

definition conn_request_for :: "upstream_server \<Rightarrow> (string, string) dict \<Rightarrow> conn_request" where
  "conn_request_for server extra_headers =
     (let url = rstrip CHR ''/'' (us_base_url server)
      in if us_transport server = SseTransport then SseConnect (url @ ''/sse'') extra_headers
         else HttpConnect (url @ ''/mcp''))"

definition open_session ::
  "('w, 'c, 's) sdk \<Rightarrow> string option \<Rightarrow> ('w, 'c, 's) link \<Rightarrow> (call_exc + 's) \<times> ('w, 'c, 's) link" where
  "open_session sdk agent_id lk =
     (case resolve_headers sdk agent_id lk of
        (Inl e, lk1) \<Rightarrow> (Inl e, lk1)
      | (Inr extra_headers, lk1) \<Rightarrow>
          (case sdk_connect sdk (conn_request_for (mc_server (lk_client lk1)) extra_headers) (lk_world lk1) of
             (Inl e, w) \<Rightarrow> (Inl (Net e), lk1\<lparr> lk_world := w \<rparr>)
           | (Inr conn, w) \<Rightarrow>
               (case sdk_initialize sdk conn w of
                  (Inl e, w') \<Rightarrow> (Inl (Net e), lk1\<lparr> lk_world := w' \<rparr>)
                | (Inr session, w') \<Rightarrow>
                    (Inr session,
                     lk1\<lparr> lk_client := (lk_client lk1)\<lparr> mc_stack := Some conn, mc_session := Some session \<rparr>,
                          lk_world := w' \<rparr>))))"

definition get_session ::
  "('w, 'c, 's) sdk \<Rightarrow> string option \<Rightarrow> ('w, 'c, 's) link \<Rightarrow> (call_exc + 's) \<times> ('w, 'c, 's) link" where
  "get_session sdk agent_id lk =
     (case mc_session (lk_client lk) of
        Some session \<Rightarrow> (Inr session, lk)
      | None \<Rightarrow> open_session sdk agent_id lk)"

definition reset_session :: "('w, 'c, 's) sdk \<Rightarrow> ('w, 'c, 's) link \<Rightarrow> ('w, 'c, 's) link" where
  "reset_session sdk lk =
     (let c = lk_client lk
      in lk\<lparr> lk_client := c\<lparr> mc_session := None, mc_stack := None \<rparr>,
             lk_world := (case mc_stack c of None \<Rightarrow> lk_world lk | Some conn \<Rightarrow> sdk_aclose sdk conn (lk_world lk)) \<rparr>)"

definition close_client :: "('w, 'c, 's) sdk \<Rightarrow> ('w, 'c, 's) link \<Rightarrow> ('w, 'c, 's) link" where
  "close_client sdk lk = reset_session sdk lk"

section \<open>The circuit breaker\<close>

definition gate :: "('w, 'c, 's) sdk \<Rightarrow> ('w, 'c, 's) link \<Rightarrow> (upstream_error + unit) \<times> ('w, 'c, 's) link" where
  "gate sdk lk =
     (case lk_cb lk of
        None \<Rightarrow> (Inr (), lk)
      | Some cb \<Rightarrow>
          (case before_call (sdk_now sdk (lk_world lk)) cb of
             (Inl _, cb') \<Rightarrow>
               (Inl \<lparr> ue_message = CircuitIsOpen (us_id (mc_server (lk_client lk))), ue_code = - 32001 \<rparr>,
                lk\<lparr> lk_cb := Some cb' \<rparr>)
           | (Inr _, cb') \<Rightarrow> (Inr (), lk\<lparr> lk_cb := Some cb' \<rparr>)))"

definition on_ok :: "('w, 'c, 's) link \<Rightarrow> ('w, 'c, 's) link" where
  "on_ok lk = lk\<lparr> lk_cb := map_option on_success (lk_cb lk) \<rparr>"

definition on_err :: "('w, 'c, 's) sdk \<Rightarrow> ('w, 'c, 's) link \<Rightarrow> ('w, 'c, 's) link" where
  "on_err sdk lk = lk\<lparr> lk_cb := map_option (on_failure (sdk_now sdk (lk_world lk))) (lk_cb lk) \<rparr>"

section \<open>Calls\<close>

fun retriable :: "call_exc \<Rightarrow> bool" where
  \<comment> \<open>\<open>retry_if_exception_type((httpx.TransportError, ConnectionError, asyncio.TimeoutError))\<close>\<close>
  "retriable (Net (TransportError _)) = True"
| "retriable _ = False"

definition list_attempt :: "('w, 'c, 's) sdk \<Rightarrow> ('w, 'c, 's) attempt" where
  "list_attempt sdk n lk =
     (case get_session sdk None (if 1 < n then reset_session sdk lk else lk) of
        (Inl e, lk1) \<Rightarrow> (Inl e, lk1)
      | (Inr session, lk1) \<Rightarrow>
          (case sdk_list_tools sdk session (lk_world lk1) of
             (Inl e, w) \<Rightarrow> (Inl (Net e), lk1\<lparr> lk_world := w \<rparr>)
           | (Inr tools, w) \<Rightarrow> (Inr (Tools tools), lk1\<lparr> lk_world := w \<rparr>)))"

definition call_attempt :: "('w, 'c, 's) sdk \<Rightarrow> string \<Rightarrow> jdict \<Rightarrow> string option \<Rightarrow> ('w, 'c, 's) attempt" where
  "call_attempt sdk name arguments agent_id n lk =
     (case get_session sdk agent_id (if 1 < n then reset_session sdk lk else lk) of
        (Inl e, lk1) \<Rightarrow> (Inl e, lk1)
      | (Inr session, lk1) \<Rightarrow>
          (case sdk_call_tool sdk session name arguments (lk_world lk1) of
             (Inl e, w) \<Rightarrow> (Inl (Net e), lk1\<lparr> lk_world := w \<rparr>)
           | (Inr result, w) \<Rightarrow>
               (case extract_content result of
                  Inl e \<Rightarrow> (Inl e, lk1\<lparr> lk_world := w \<rparr>)
                | Inr content \<Rightarrow> (Inr (Content content), lk1\<lparr> lk_world := w \<rparr>))))"

definition report ::
  "('w, 'c, 's) sdk \<Rightarrow> call_exc + reply \<Rightarrow> ('w, 'c, 's) link \<Rightarrow> (upstream_error + reply) \<times> ('w, 'c, 's) link" where
  \<comment> \<open>the two handlers around the retry loop, and the report of a success\<close>
  "report sdk res lk =
     (case res of
        Inl (Upstream e) \<Rightarrow> (Inl e, on_err sdk lk)
      | Inl (Net e) \<Rightarrow>
          (Inl \<lparr> ue_message = CausedBy e, ue_code = - 32000 \<rparr>, reset_session sdk (on_err sdk lk))
      | Inr r \<Rightarrow> (Inr r, on_ok lk))"

definition guarded_call ::
  "('w, 'c, 's) sdk \<Rightarrow> ('w, 'c, 's) attempt \<Rightarrow> ('w, 'c, 's) link \<Rightarrow> (upstream_error + reply) \<times> ('w, 'c, 's) link" where
  \<comment> \<open>the body the two calls share: gate, retry loop, report\<close>
  "guarded_call sdk attempt lk =
     (case gate sdk lk of
        (Inl e, lk1) \<Rightarrow> (Inl e, lk1)
      | (Inr _, lk1) \<Rightarrow> (let (res, lk2) = sdk_retrying sdk 3 retriable attempt lk1 in report sdk res lk2))"

definition list_tools ::
  "('w, 'c, 's) sdk \<Rightarrow> ('w, 'c, 's) link \<Rightarrow> (upstream_error + raw_tool list) \<times> ('w, 'c, 's) link" where
  "list_tools sdk lk =
     (case guarded_call sdk (list_attempt sdk) lk of
        (Inl e, lk') \<Rightarrow> (Inl e, lk')
      | (Inr r, lk') \<Rightarrow> (Inr (case r of Tools ts \<Rightarrow> map tool_to_dict ts | Content _ \<Rightarrow> []), lk'))"

definition call_tool ::
  "('w, 'c, 's) sdk \<Rightarrow> string \<Rightarrow> jdict \<Rightarrow> string option \<Rightarrow> ('w, 'c, 's) link \<Rightarrow>
   (upstream_error + json) \<times> ('w, 'c, 's) link" where
  "call_tool sdk name arguments agent_id lk =
     (case guarded_call sdk (call_attempt sdk name arguments agent_id) lk of
        (Inl e, lk') \<Rightarrow> (Inl e, lk')
      | (Inr r, lk') \<Rightarrow> (Inr (case r of Content v \<Rightarrow> v | Tools _ \<Rightarrow> JNull), lk'))"

definition ping :: "('w, 'c, 's) sdk \<Rightarrow> ('w, 'c, 's) link \<Rightarrow> bool \<times> ('w, 'c, 's) link" where
  "ping sdk lk =
     (case get_session sdk None lk of
        (Inl e, lk1) \<Rightarrow> (False, reset_session sdk lk1)
      | (Inr session, lk1) \<Rightarrow>
          (case sdk_send_ping sdk session (lk_world lk1) of
             (Inl e, w) \<Rightarrow> (False, reset_session sdk (lk1\<lparr> lk_world := w \<rparr>))
           | (Inr _, w) \<Rightarrow> (True, lk1\<lparr> lk_world := w \<rparr>)))"

section \<open>The retry loop\<close>

text \<open>
  What \<open>tenacity\<close> documents of \<open>AsyncRetrying(stop=stop_after_attempt(n), retry=..., reraise=True)\<close>: it
  runs the attempts \<open>1, 2, ...\<close> until one does not raise, and lets the exception of an attempt out when
  the attempt was the \<open>n\<close>th or the exception is not one to retry. The waiting between the attempts is
  part of the outside.
\<close>

fun attempts_from ::
  "nat \<Rightarrow> (call_exc \<Rightarrow> bool) \<Rightarrow> ('w, 'c, 's) attempt \<Rightarrow> nat \<Rightarrow> ('w, 'c, 's) link \<Rightarrow> (call_exc + reply) \<times> ('w, 'c, 's) link" where
  \<comment> \<open>the first argument counts the attempts left after this one\<close>
  "attempts_from 0 again body n lk = body n lk"
| "attempts_from (Suc left) again body n lk =
     (case body n lk of
        (Inl e, lk') \<Rightarrow> if again e then attempts_from left again body (Suc n) lk' else (Inl e, lk')
      | (Inr r, lk') \<Rightarrow> (Inr r, lk'))"

definition retries_as_documented :: "('w, 'c, 's) sdk \<Rightarrow> bool" where
  "retries_as_documented sdk \<longleftrightarrow>
     (\<forall>stop again body lk. 0 < stop \<longrightarrow> sdk_retrying sdk stop again body lk = attempts_from (stop - 1) again body 1 lk)"

lemma three_attempts:
  "retries_as_documented sdk \<Longrightarrow> sdk_retrying sdk 3 again body lk = attempts_from 2 again body 1 lk"
  by (simp add: retries_as_documented_def)

lemma attempts_from_keeps:
  assumes "\<And>n lk r lk'. body n lk = (r, lk') \<Longrightarrow> keep lk' = keep lk"
  shows "attempts_from left again body n lk = (r, lk') \<Longrightarrow> keep lk' = keep lk"
proof (induction left arbitrary: n lk)
  case 0
  then show ?case using assms by simp
next
  case (Suc left)
  obtain r1 lk1 where b: "body n lk = (r1, lk1)" by (cases "body n lk")
  then show ?case using Suc assms [OF b] by (auto split: sum.splits if_splits)
qed

section \<open>What an attempt does not touch\<close>

lemma resolve_headers_keeps:
  "resolve_headers sdk a lk = (r, lk') \<Longrightarrow>
   lk_cb lk' = lk_cb lk \<and> mc_server (lk_client lk') = mc_server (lk_client lk) \<and>
   mc_stack (lk_client lk') = mc_stack (lk_client lk) \<and> mc_session (lk_client lk') = mc_session (lk_client lk)"
  by (auto simp: resolve_headers_def Let_def split: option.splits prod.splits sum.splits provider_exc.splits)

lemma open_session_keeps:
  "open_session sdk a lk = (r, lk') \<Longrightarrow>
   lk_cb lk' = lk_cb lk \<and> mc_server (lk_client lk') = mc_server (lk_client lk)"
  by (auto simp: open_session_def split: prod.splits sum.splits dest: resolve_headers_keeps)

lemma get_session_keeps:
  "get_session sdk a lk = (r, lk') \<Longrightarrow>
   lk_cb lk' = lk_cb lk \<and> mc_server (lk_client lk') = mc_server (lk_client lk)"
  by (auto simp: get_session_def split: option.splits dest: open_session_keeps)

lemma reset_session_keeps [simp]:
  "lk_cb (reset_session sdk lk) = lk_cb lk"
  "mc_server (lk_client (reset_session sdk lk)) = mc_server (lk_client lk)"
  "mc_session (lk_client (reset_session sdk lk)) = None"
  "mc_stack (lk_client (reset_session sdk lk)) = None"
  by (simp_all add: reset_session_def Let_def)

lemma call_attempt_keeps:
  "call_attempt sdk name args a n lk = (r, lk') \<Longrightarrow>
   lk_cb lk' = lk_cb lk \<and> mc_server (lk_client lk') = mc_server (lk_client lk)"
  by (auto simp: call_attempt_def split: prod.splits sum.splits if_splits dest: get_session_keeps)

lemma call_attempts_keep_cb:
  "attempts_from left again (call_attempt sdk name args a) n lk = (r, lk') \<Longrightarrow> lk_cb lk' = lk_cb lk"
  by (rule attempts_from_keeps [where keep = lk_cb]) (auto dest: call_attempt_keeps)

lemma call_attempt_content:
  "call_attempt sdk name args a n lk = (Inr r, lk') \<Longrightarrow> \<exists>v. r = Content v"
  by (auto simp: call_attempt_def split: prod.splits sum.splits)

definition own_error :: "call_exc + 'a \<Rightarrow> bool" where
  \<comment> \<open>an \<open>UpstreamError\<close> raised inside an attempt is one of the client's own\<close>
  "own_error r \<longleftrightarrow> (\<forall>e x. r = Inl (Upstream e) \<longrightarrow> ue_message e \<noteq> CausedBy x)"

lemma resolve_headers_own_error: "resolve_headers sdk a lk = (r, lk') \<Longrightarrow> own_error r"
  by (auto simp: own_error_def resolve_headers_def Let_def
      split: option.splits prod.splits sum.splits provider_exc.splits)

lemma get_session_own_error: "get_session sdk a lk = (r, lk') \<Longrightarrow> own_error r"
  by (auto simp: own_error_def get_session_def open_session_def split: option.splits prod.splits sum.splits
      dest: resolve_headers_own_error [unfolded own_error_def])

lemma extract_content_own_error: "own_error (extract_content t)"
  by (simp add: own_error_def extract_content_def Let_def)

lemma call_attempt_own_error: "call_attempt sdk name args a n lk = (r, lk') \<Longrightarrow> own_error r"
  using get_session_own_error extract_content_own_error
  by (fastforce simp: own_error_def call_attempt_def split: prod.splits sum.splits)

lemma attempts_own_error:
  "attempts_from left again (call_attempt sdk name args a) n lk = (r, lk') \<Longrightarrow> own_error r"
proof (induction left arbitrary: n lk)
  case 0
  then show ?case by (auto dest: call_attempt_own_error)
next
  case (Suc left)
  then show ?case by (auto split: prod.splits sum.splits if_splits dest: call_attempt_own_error)
qed

lemmas call_defs = call_tool_def guarded_call_def report_def

section \<open>Properties\<close>

text \<open>While the breaker of a server is open and its recovery timeout has not passed, a call fails at once
  with code \<open>-32001\<close>: nothing outside is touched, and the client and the breaker stay as they are.\<close>

theorem open_circuit_fails_fast:
  assumes "lk_cb lk = Some cb" and "cb_state cb = OPEN" and "cb_opened_at cb = Some t"
    and "sdk_now sdk (lk_world lk) < t + cb_recovery_timeout cb"
  shows "call_tool sdk name arguments agent lk =
    (Inl \<lparr> ue_message = CircuitIsOpen (us_id (mc_server (lk_client lk))), ue_code = - 32001 \<rparr>, lk)"
  using assms by (simp add: call_defs gate_def before_call_def Let_def)

definition demo_sdk :: "(nat, nat, nat) sdk" where
  \<comment> \<open>the world counts connections; session \<open>0\<close> is dead, later ones answer\<close>
  "demo_sdk =
     \<lparr> sdk_connect = (\<lambda>req w. (Inr w, Suc w)), sdk_initialize = (\<lambda>c w. (Inr c, w)),
       sdk_list_tools = (\<lambda>s w. (Inr [], w)),
       sdk_call_tool = (\<lambda>s name args w.
         (if s = 0 then Inl (TransportError ''reset'')
          else Inr \<lparr> tr_content = [TextContent name], tr_is_error = False \<rparr>, w)),
       sdk_send_ping = (\<lambda>s w. (Inr (), w)), sdk_aclose = (\<lambda>c w. w), sdk_auth = (\<lambda>w. (token_endpoint, w)),
       sdk_now = (\<lambda>w. 100), sdk_retrying = (\<lambda>stop again body lk. attempts_from (stop - 1) again body 1 lk) \<rparr>"

definition demo_link :: "breaker option \<Rightarrow> (nat, nat, nat) link" where
  \<comment> \<open>a client with a dead session open\<close>
  "demo_link cb =
     \<lparr> lk_client = (new_mcp_client (\<lambda>_. None) (upstream ''pg'' ''Postgres'' ''http://pg:9000/''))
         \<lparr> mc_session := Some 0, mc_stack := Some 0 \<rparr>, lk_cb = cb, lk_world = 1 \<rparr>"

lemma demo_documented: "retries_as_documented demo_sdk"
  by (simp add: retries_as_documented_def demo_sdk_def)

lemmas demo_defs = demo_sdk_def demo_link_def new_mcp_client_def upstream_def

definition open_breaker :: breaker where
  "open_breaker = (new_breaker ''pg'' 5 30 2)\<lparr> cb_state := OPEN, cb_failures := 5, cb_opened_at := Some 90 \<rparr>"

theorem open_circuit_fails_fast_witness:
  "fst (call_tool demo_sdk ''q'' [] None (demo_link (Some open_breaker))) =
   Inl \<lparr> ue_message = CircuitIsOpen ''pg'', ue_code = - 32001 \<rparr>"
  by (subst open_circuit_fails_fast [where cb = open_breaker and t = 90])
    (simp_all add: demo_defs open_breaker_def new_breaker_def)

text \<open>C31. A call the breaker admits is reported to it exactly once, whatever the number of attempts: as a
  success when the call returns, as a failure when it raises. An error of another class than
  \<open>UpstreamError\<close> also drops the session, so that the next call connects anew.\<close>

theorem call_reports_once_to_breaker:
  assumes "retries_as_documented sdk" and "lk_cb lk = Some cb"
    and "before_call (sdk_now sdk (lk_world lk)) cb = (Inr (), cb')"
    and "call_tool sdk name arguments agent lk = (r, lk')"
  shows "(case r of
      Inr _ \<Rightarrow> lk_cb lk' = Some (on_success cb')
    | Inl e \<Rightarrow> (\<exists>t. lk_cb lk' = Some (on_failure t cb')) \<and>
        (\<forall>x. ue_message e = CausedBy x \<longrightarrow>
           mc_session (lk_client lk') = None \<and> mc_stack (lk_client lk') = None))"
proof -
  let ?lk1 = "lk\<lparr> lk_cb := Some cb' \<rparr>"
  obtain q lk2 where q: "attempts_from 2 retriable (call_attempt sdk name arguments agent) 1 ?lk1 = (q, lk2)"
    by fastforce
  have cb: "lk_cb lk2 = Some cb'" using call_attempts_keep_cb [OF q] by simp
  have m: "own_error q" by (rule attempts_own_error [OF q])
  have "call_tool sdk name arguments agent lk =
      (case q of
         Inl (Upstream e) \<Rightarrow> (Inl e, on_err sdk lk2)
       | Inl (Net e) \<Rightarrow> (Inl \<lparr> ue_message = CausedBy e, ue_code = - 32000 \<rparr>, reset_session sdk (on_err sdk lk2))
       | Inr r \<Rightarrow> (Inr (case r of Content v \<Rightarrow> v | Tools _ \<Rightarrow> JNull), on_ok lk2))"
    using assms(2,3) q by (simp add: call_defs gate_def three_attempts [OF assms(1)] split: sum.splits call_exc.splits)
  then show ?thesis using assms(4) cb m
    by (auto simp: own_error_def on_err_def on_ok_def split: sum.splits call_exc.splits)
qed

lemma demo_call:
  "call_tool demo_sdk ''q'' [] None (demo_link (Some (new_breaker ''pg'' 5 30 2))) =
   (Inr (JStr ''q''),
    (demo_link (Some (new_breaker ''pg'' 5 30 2)))
      \<lparr> lk_client := (lk_client (demo_link None))\<lparr> mc_session := Some 1, mc_stack := Some 1 \<rparr>, lk_world := 2 \<rparr>)"
  by (simp add: call_defs gate_def before_call_def new_breaker_def demo_defs numeral_2_eq_2 call_attempt_def
      get_session_def reset_session_def open_session_def resolve_headers_def conn_request_for_def Let_def
      extract_content_def on_ok_def on_success_def)

theorem call_reports_once_to_breaker_witness:
  "lk_cb (snd (call_tool demo_sdk ''q'' [] None (demo_link (Some (new_breaker ''pg'' 5 30 2))))) =
   Some (on_success (new_breaker ''pg'' 5 30 2))"
proof -
  have "before_call (sdk_now demo_sdk (lk_world (demo_link (Some (new_breaker ''pg'' 5 30 2))))) (new_breaker ''pg'' 5 30 2) =
      (Inr (), new_breaker ''pg'' 5 30 2)" "lk_cb (demo_link (Some (new_breaker ''pg'' 5 30 2))) = Some (new_breaker ''pg'' 5 30 2)"
    by (simp_all add: before_call_def new_breaker_def demo_link_def)
  from call_reports_once_to_breaker [OF demo_documented this(2,1) demo_call] demo_call show ?thesis by simp
qed

text \<open>C32. A call whose session has died with a transport error is repeated on a fresh session: the old
  connection is closed, a new one opened, and the answer on it is returned and counted as a
  success.\<close>

theorem dead_session_is_replaced:
  assumes "retries_as_documented sdk" and "gate sdk lk = (Inr (), lk0)"
    and "mc_session (lk_client lk0) = Some dead"
    and "sdk_call_tool sdk dead name arguments (lk_world lk0) = (Inl (TransportError m), w1)"
    and "open_session sdk agent (reset_session sdk (lk0\<lparr> lk_world := w1 \<rparr>)) = (Inr s, lk2)"
    and "sdk_call_tool sdk s name arguments (lk_world lk2) = (Inr result, w3)"
    and "extract_content result = Inr content"
  shows "call_tool sdk name arguments agent lk = (Inr content, on_ok (lk2\<lparr> lk_world := w3 \<rparr>))"
proof -
  have first: "call_attempt sdk name arguments agent 1 lk0 = (Inl (Net (TransportError m)), lk0\<lparr> lk_world := w1 \<rparr>)"
    using assms(3,4) by (simp add: call_attempt_def get_session_def)
  have second: "call_attempt sdk name arguments agent 2 (lk0\<lparr> lk_world := w1 \<rparr>) =
      (Inr (Content content), lk2\<lparr> lk_world := w3 \<rparr>)"
    using assms(5-7) by (simp add: call_attempt_def get_session_def)
  show ?thesis
    using assms(2) first second
    by (simp add: call_defs three_attempts [OF assms(1)] numeral_2_eq_2)
qed

theorem dead_session_is_replaced_witness:
  "fst (call_tool demo_sdk ''q'' [] None (demo_link None)) = Inr (JStr ''q'')"
proof -
  let ?lk2 = "(demo_link None)\<lparr> lk_client := (lk_client (demo_link None))\<lparr> mc_session := Some 1, mc_stack := Some 1 \<rparr>, lk_world := 2 \<rparr>"
  have "call_tool demo_sdk ''q'' [] None (demo_link None) = (Inr (JStr ''q''), on_ok (?lk2\<lparr> lk_world := 2 \<rparr>))"
    by (rule dead_session_is_replaced [OF demo_documented, where dead = 0 and m = "''reset''" and s = 1
          and ?w1.0 = 1 and result = "\<lparr> tr_content = [TextContent ''q''], tr_is_error = False \<rparr>" and ?lk0.0 = "demo_link None"])
      (simp_all add: gate_def demo_defs reset_session_def open_session_def resolve_headers_def Let_def extract_content_def)
  then show ?thesis by simp
qed

text \<open>Over streamable HTTP, the default transport, the connection carries no authentication and no agent
  identity: opening a session behaves the same when the connect request is replaced by the bare
  address, and, as long as no provider fails, for every calling agent.\<close>

theorem http_sessions_carry_no_headers:
  assumes "us_transport (mc_server (lk_client lk)) \<noteq> SseTransport"
  shows "open_session sdk agent lk =
     open_session (sdk\<lparr> sdk_connect := (\<lambda>_. sdk_connect sdk
       (HttpConnect (rstrip CHR ''/'' (us_base_url (mc_server (lk_client lk))) @ ''/mcp''))) \<rparr>) agent lk \<and>
   open_session sdk agent lk = open_session sdk agent' lk"
proof -
  have r: "resolve_headers (sdk\<lparr> sdk_connect := f \<rparr>) a l = resolve_headers sdk a l" for f a l
    by (simp add: resolve_headers_def Let_def split: option.splits)
  obtain x lk1 where x: "resolve_headers sdk agent lk = (x, lk1)" by fastforce
  then have k: "mc_server (lk_client lk1) = mc_server (lk_client lk)" by (auto dest: resolve_headers_keeps)
  have same: "(\<exists>h. fst (resolve_headers sdk agent' lk) = Inr h) \<and> snd (resolve_headers sdk agent' lk) = lk1"
    if "x = Inr h" for h
    using x that by (auto simp: resolve_headers_def Let_def split: option.splits prod.splits sum.splits provider_exc.splits)
  have same': "resolve_headers sdk agent' lk = (Inl e, lk1)" if "x = Inl e" for e
    using x that by (auto simp: resolve_headers_def Let_def split: option.splits prod.splits sum.splits provider_exc.splits)
  obtain y lk1' where y: "resolve_headers sdk agent' lk = (y, lk1')" by fastforce
  have xy: "lk1' = lk1 \<and> (\<forall>e. x = Inl e \<longrightarrow> y = Inl e) \<and> (\<forall>h. x = Inr h \<longrightarrow> (\<exists>h'. y = Inr h'))"
    using y same same' by (cases x) auto
  have c: "conn_request_for (mc_server (lk_client lk1)) h =
      HttpConnect (rstrip CHR ''/'' (us_base_url (mc_server (lk_client lk))) @ ''/mcp'')" for h
    using assms k by (simp add: conn_request_for_def)
  show ?thesis
    using xy by (cases x) (auto simp: open_session_def x y r c split: prod.splits sum.splits)
qed

theorem http_sessions_carry_no_headers_witness:
  "open_session demo_sdk (Some ''alice'') (demo_link None) = open_session demo_sdk (Some ''bob'') (demo_link None)"
  by (rule conjunct2 [OF http_sessions_carry_no_headers]) (simp add: demo_defs)

definition idle :: "('w, 'c, 's) link \<Rightarrow> bool" where
  "idle lk \<longleftrightarrow> mc_session (lk_client lk) = None \<and> mc_stack (lk_client lk) = None"

lemma reset_idle: "idle lk \<Longrightarrow> reset_session sdk lk = lk"
  by (simp add: idle_def reset_session_def Let_def)

lemma open_session_leaks:
  assumes "idle lk" and "\<And>conn w. \<exists>e w'. sdk_initialize sdk conn w = (Inl e, w')"
  shows "open_session (sdk\<lparr> sdk_aclose := f \<rparr>) a lk = open_session sdk a lk \<and>
    (\<exists>e. fst (open_session sdk a lk) = Inl e) \<and> idle (snd (open_session sdk a lk))"
proof -
  have r: "resolve_headers (sdk\<lparr> sdk_aclose := f \<rparr>) a lk = resolve_headers sdk a lk"
    by (simp add: resolve_headers_def Let_def split: option.splits)
  obtain x lk1 where x: "resolve_headers sdk a lk = (x, lk1)" by fastforce
  then have i: "idle lk1" using assms(1) by (auto simp: idle_def dest: resolve_headers_keeps)
  show ?thesis
  proof (cases x)
    case (Inl e)
    then show ?thesis using r x i by (simp add: open_session_def)
  next
    case (Inr hs)
    obtain y w where y: "sdk_connect sdk (conn_request_for (mc_server (lk_client lk1)) hs) (lk_world lk1) = (y, w)"
      by fastforce
    show ?thesis
    proof (cases y)
      case (Inr conn)
      obtain e w' where "sdk_initialize sdk conn w = (Inl e, w')" using assms(2) by blast
      then show ?thesis using r x i y Inr \<open>x = Inr hs\<close> by (simp add: open_session_def idle_def)
    qed (use r x i y \<open>x = Inr hs\<close> in \<open>simp add: open_session_def idle_def\<close>)
  qed
qed

lemma call_attempt_leaks:
  assumes "idle lk" and "\<And>conn w. \<exists>e w'. sdk_initialize sdk conn w = (Inl e, w')"
  shows "call_attempt (sdk\<lparr> sdk_aclose := f \<rparr>) name args a n lk = call_attempt sdk name args a n lk \<and>
    (\<exists>e. fst (call_attempt sdk name args a n lk) = Inl e) \<and> idle (snd (call_attempt sdk name args a n lk))"
proof -
  have "get_session (sdk\<lparr> sdk_aclose := f \<rparr>) a lk = open_session sdk a lk"
    "get_session sdk a lk = open_session sdk a lk"
    using open_session_leaks [OF assms, of f a] assms(1) by (simp_all add: get_session_def idle_def)
  then show ?thesis
    using open_session_leaks [OF assms, of f a] assms(1)
    by (cases "open_session sdk a lk") (auto simp: call_attempt_def reset_idle)
qed

lemma attempts_leak:
  assumes "\<And>conn w. \<exists>e w'. sdk_initialize sdk conn w = (Inl e, w')"
  shows "idle lk \<Longrightarrow>
    attempts_from left again (call_attempt (sdk\<lparr> sdk_aclose := f \<rparr>) name args a) n lk =
      attempts_from left again (call_attempt sdk name args a) n lk \<and>
    (\<exists>e. fst (attempts_from left again (call_attempt sdk name args a) n lk) = Inl e) \<and>
    idle (snd (attempts_from left again (call_attempt sdk name args a) n lk))"
proof (induction left arbitrary: n lk)
  case 0
  then show ?case using call_attempt_leaks [OF _ assms, of lk f] by simp
next
  case (Suc left)
  obtain e lk1 where c: "call_attempt sdk name args a n lk = (Inl e, lk1)"
    using call_attempt_leaks [OF Suc.prems assms, of f name args a n]
    by (cases "call_attempt sdk name args a n lk") auto
  moreover have "idle lk1" "call_attempt (sdk\<lparr> sdk_aclose := f \<rparr>) name args a n lk = (Inl e, lk1)"
    using call_attempt_leaks [OF Suc.prems assms, of f name args a n] c by simp_all
  ultimately show ?case using Suc.IH [of lk1 "Suc n"] by simp
qed

text \<open>A connection whose handshake fails is never closed: when every handshake of a client without a
  connection fails, no call ever reaches \<open>aclose\<close>, whatever the attempts, and the client forgets the
  connection.\<close>

theorem failed_handshakes_leak:
  assumes "retries_as_documented sdk" and "gate sdk lk = (Inr (), lk0)"
    and "mc_session (lk_client lk0) = None" and "mc_stack (lk_client lk0) = None"
    and "\<And>conn w. \<exists>e w'. sdk_initialize sdk conn w = (Inl e, w')"
  shows "call_tool (sdk\<lparr> sdk_aclose := f \<rparr>) name arguments agent lk = call_tool sdk name arguments agent lk \<and>
    mc_stack (lk_client (snd (call_tool sdk name arguments agent lk))) = None"
proof -
  let ?run = "attempts_from 2 retriable (call_attempt sdk name arguments agent) 1 lk0"
  have l: "attempts_from 2 retriable (call_attempt (sdk\<lparr> sdk_aclose := f \<rparr>) name arguments agent) 1 lk0 = ?run"
    "\<exists>e. fst ?run = Inl e" "idle (snd ?run)"
    using attempts_leak [OF assms(5), where lk = lk0 and f = f] assms(3,4) by (simp_all add: idle_def)
  obtain e lk1 where r: "?run = (Inl e, lk1)" "idle lk1" using l by (cases ?run) auto
  have d: "sdk_retrying sdk 3 retriable body lk0 = attempts_from 2 retriable body 1 lk0" for body
    by (rule three_attempts [OF assms(1)])
  have g: "gate (sdk\<lparr> sdk_aclose := f \<rparr>) lk = (Inr (), lk0)"
    using assms(2) by (simp add: gate_def split: option.splits)
  have i: "idle (on_err sdk lk1)" using r(2) by (simp add: on_err_def idle_def)
  have o: "on_err (sdk\<lparr> sdk_aclose := f \<rparr>) lk1 = on_err sdk lk1" by (simp add: on_err_def)
  show ?thesis
    using assms(2) g r(1) l(1) i reset_idle [OF i]
    by (cases e) (simp_all add: call_defs d o idle_def)
qed

definition refusing_sdk :: "(nat, nat, nat) sdk" where
  "refusing_sdk = demo_sdk\<lparr> sdk_initialize := (\<lambda>c w. (Inl (Failure ''bad protocol version''), w)) \<rparr>"

definition fresh_link :: "(nat, nat, nat) link" where
  "fresh_link =
     \<lparr> lk_client = new_mcp_client (\<lambda>_. None) (upstream ''pg'' ''Postgres'' ''http://pg:9000''), lk_cb = None,
       lk_world = 1 \<rparr>"

theorem failed_handshakes_leak_witness:
  "call_tool (refusing_sdk\<lparr> sdk_aclose := (\<lambda>c w. 0) \<rparr>) ''q'' [] None fresh_link =
   call_tool refusing_sdk ''q'' [] None fresh_link"
proof -
  have "retries_as_documented refusing_sdk"
    by (simp add: retries_as_documented_def refusing_sdk_def demo_sdk_def)
  then show ?thesis
    by (rule failed_handshakes_leak [where ?lk0.0 = fresh_link, THEN conjunct1])
      (simp_all add: gate_def fresh_link_def refusing_sdk_def new_mcp_client_def upstream_def)
qed


text \<open>The agent identity that is forwarded is that of the call that opened the session: on an open
  session a call of another agent runs exactly as it would for anyone else, unless its first attempt
  ends in a transport error.\<close>

theorem open_session_hides_agent:
  assumes "retries_as_documented sdk" and "gate sdk lk = (Inr (), lk0)"
    and "mc_session (lk_client lk0) = Some s"
    and "\<forall>m. fst (sdk_call_tool sdk s name arguments (lk_world lk0)) \<noteq> Inl (TransportError m)"
  shows "call_tool sdk name arguments agent lk = call_tool sdk name arguments agent' lk"
proof -
  have e: "call_attempt sdk name arguments a 1 lk0 = call_attempt sdk name arguments agent 1 lk0" for a
    using assms(3) by (simp add: call_attempt_def get_session_def)
  obtain r lk1 where r: "call_attempt sdk name arguments agent 1 lk0 = (r, lk1)" by fastforce
  have "\<not> retriable x" if "r = Inl x" for x
    using r that assms(3,4) extract_content_own_error
    by (cases x rule: retriable.cases)
      (auto simp: call_attempt_def get_session_def extract_content_def Let_def split: prod.splits sum.splits if_splits)
  then have "attempts_from 2 retriable (call_attempt sdk name arguments a) 1 lk0 = (r, lk1)" for a
    using r e [of a] by (auto simp: numeral_2_eq_2 split: sum.splits)
  then show ?thesis using assms(2) by (simp add: call_defs three_attempts [OF assms(1)])
qed

theorem open_session_hides_agent_witness:
  "call_tool demo_sdk ''q'' [] (Some ''alice'') ((demo_link None)\<lparr> lk_client := (lk_client (demo_link None))\<lparr> mc_session := Some 1 \<rparr> \<rparr>) =
   call_tool demo_sdk ''q'' [] (Some ''bob'') ((demo_link None)\<lparr> lk_client := (lk_client (demo_link None))\<lparr> mc_session := Some 1 \<rparr> \<rparr>)"
  by (rule open_session_hides_agent [OF demo_documented, where s = 1
        and ?lk0.0 = "(demo_link None)\<lparr> lk_client := (lk_client (demo_link None))\<lparr> mc_session := Some 1 \<rparr> \<rparr>"])
    (simp_all add: gate_def demo_defs)

end
