(* ===== verification/Registry.thy ===== *)
theory Registry
  imports Mcp_Client Metrics
begin

text \<open>
  \<open>app/registry/registry.py\<close>: the registered upstream servers, the synchronisation of their tools
  and the names the tools get.

  A method reads and writes the registry and the outside \<open>'w\<close>; it returns the metric updates it makes.
  The registry's lock and the absence of \<open>await\<close> inside \<open>_build_tool_definitions\<close> make each operation
  here atomic; the completions of a \<open>sync_all\<close> come in an order that is a parameter. A
  \<open>RegistryEntry\<close> a method returns is the key it is stored under. The breaker a client was built with
  is the one its registry keeps under the server's id.
\<close>

section \<open>Tools and entries\<close>

record tool_definition =
  td_name :: string
  td_description :: "string option"
  td_input_schema :: jdict
  td_server_id :: "string option"
  td_qualified_name :: "string option"
  td_mutable :: bool
  td_tags :: "string list"

definition tool_of_raw :: "raw_tool \<Rightarrow> tool_definition" where
  \<comment> \<open>\<open>ToolDefinition.model_validate(raw)\<close>\<close>
  "tool_of_raw raw =
     \<lparr> td_name = rt_name raw, td_description = Some (rt_description raw), td_input_schema = rt_input_schema raw,
       td_server_id = None, td_qualified_name = None, td_mutable = False, td_tags = [] \<rparr>"

datatype sync_error =
    SyncUpstream upstream_error
  | ToolNameConflict string string string       \<comment> \<open>qualified name, owner, refused server\<close>

record ('c, 's) registry_entry =
  re_server :: upstream_server
  re_client :: "('c, 's) mcp_client"
  re_tools :: "tool_definition list"
  re_last_synced :: "seconds option"
  re_last_error :: "sync_error option"
  re_healthy :: bool

definition new_entry :: "upstream_server \<Rightarrow> ('c, 's) mcp_client \<Rightarrow> ('c, 's) registry_entry" where
  "new_entry server client =
     \<lparr> re_server = server, re_client = client, re_tools = [], re_last_synced = None, re_last_error = None,
       re_healthy = False \<rparr>"

record ('c, 's) server_registry =
  rg_entries :: "(string, ('c, 's) registry_entry) dict"
  rg_cb :: cb_registry
  rg_naming :: naming_config

record ('w, 'c, 's) outside =
  os_sdk :: "('w, 'c, 's) sdk"
  os_environ :: "'w \<Rightarrow> string \<Rightarrow> string option"
  os_utcnow :: "'w \<Rightarrow> seconds"
  os_http_aclose :: "'w \<Rightarrow> 'w"

definition new_server_registry :: "circuit_breaker_policy option \<Rightarrow> naming_config option \<Rightarrow> ('c, 's) server_registry" where
  "new_server_registry cb_policy naming =
     (let p = (case cb_policy of None \<Rightarrow> default_circuit_breaker_policy | Some p \<Rightarrow> p)
      in \<lparr> rg_entries = [],
           rg_cb = new_cb_registry (cp_enabled p) (cp_failure_threshold p) (cp_recovery_timeout p) (cp_probe_successes p),
           rg_naming = (case naming of None \<Rightarrow> default_naming | Some n \<Rightarrow> n) \<rparr>)"

section \<open>Running an operation of an entry's client\<close>

definition link_of ::
  "('c, 's) server_registry \<Rightarrow> string \<Rightarrow> ('c, 's) registry_entry \<Rightarrow> 'w \<Rightarrow> ('w, 'c, 's) link" where
  "link_of rg sid e w =
     \<lparr> lk_client = re_client e,
       lk_cb = (if cr_enabled (rg_cb rg) then dict_get (cr_breakers (rg_cb rg)) sid else None),
       lk_world = w \<rparr>"

definition put_entry :: "string \<Rightarrow> ('c, 's) registry_entry \<Rightarrow> ('c, 's) server_registry \<Rightarrow> ('c, 's) server_registry" where
  "put_entry sid e rg = rg\<lparr> rg_entries := dict_put sid e (rg_entries rg) \<rparr>"

definition store_link ::
  "string \<Rightarrow> ('c, 's) registry_entry \<Rightarrow> ('w, 'c, 's) link \<Rightarrow> ('c, 's) server_registry \<Rightarrow> ('c, 's) server_registry" where
  "store_link sid e lk rg =
     (put_entry sid (e\<lparr> re_client := lk_client lk \<rparr>) rg)
       \<lparr> rg_cb := (case lk_cb lk of
            None \<Rightarrow> rg_cb rg
          | Some cb \<Rightarrow> (rg_cb rg)\<lparr> cr_breakers := dict_put sid cb (cr_breakers (rg_cb rg)) \<rparr>) \<rparr>"

section \<open>Mutation\<close>

definition entry_count_metric :: "('c, 's) server_registry \<Rightarrow> metric" where
  "entry_count_metric rg = RegisteredServers (length (rg_entries rg))"

definition recompute_tool_count :: "('c, 's) server_registry \<Rightarrow> metric" where
  "recompute_tool_count rg =
     RegisteredTools (sum_list (map (\<lambda>(sid, e). length (re_tools e))
       (filter (\<lambda>(sid, e). us_enabled (re_server e)) (rg_entries rg))))"

definition close_entry ::
  "('w, 'c, 's) outside \<Rightarrow> ('c, 's) server_registry \<Rightarrow> string \<Rightarrow> ('c, 's) registry_entry \<Rightarrow> 'w \<Rightarrow> 'w" where
  \<comment> \<open>\<open>await entry.client.close()\<close> for an entry that is being dropped\<close>
  "close_entry os rg sid e w = lk_world (close_client (os_sdk os) (link_of rg sid e w))"

definition close_registry ::
  "('w, 'c, 's) outside \<Rightarrow> ('c, 's) server_registry \<Rightarrow> 'w \<Rightarrow> ('c, 's) server_registry \<times> 'w" where
  "close_registry os rg w =
     (rg\<lparr> rg_entries := [] \<rparr>,
      os_http_aclose os (fold (\<lambda>(sid, e) w. close_entry os rg sid e w) (rg_entries rg) w))"

definition find_by_qualified_tool :: "('c, 's) server_registry \<Rightarrow> string \<Rightarrow> (string \<times> string) option" where
  \<comment> \<open>the entry and the raw name; the three steps of the method\<close>
  "find_by_qualified_tool rg qualified_name =
     (case first_some (\<lambda>(sid, e). first_some (\<lambda>td.
              if td_qualified_name td = Some qualified_name then Some (sid, td_name td) else None) (re_tools e))
            (rg_entries rg) of
        Some hit \<Rightarrow> Some hit
      | None \<Rightarrow>
          (case (if CHR ''.'' \<in> set qualified_name
                 then first_some (\<lambda>(sid, e).
                        if str_or (us_tool_prefix (re_server e)) (us_id (re_server e))
                             = takeWhile (\<lambda>c. c \<noteq> CHR ''.'') qualified_name
                        then Some (sid, tl (dropWhile (\<lambda>c. c \<noteq> CHR ''.'') qualified_name)) else None)
                      (rg_entries rg)
                 else None) of
             Some hit \<Rightarrow> Some hit
           | None \<Rightarrow>
               (let matches = concat (map (\<lambda>(sid, e).
                      map (\<lambda>td. (sid, qualified_name)) (filter (\<lambda>td. td_name td = qualified_name) (re_tools e)))
                    (rg_entries rg))
                in if length matches = 1 then Some (matches ! 0) else None)))"

definition list_conflicts :: "('c, 's) server_registry \<Rightarrow> (string \<times> string list) list" where
  "list_conflicts rg =
     (let seen = fold (\<lambda>(sid, e) d. fold (\<lambda>td d.
                   dict_put (td_name td) (dict_get_default d (td_name td) [] @ [us_id (re_server e)]) d) (re_tools e) d)
                 (filter (\<lambda>(sid, e). us_enabled (re_server e)) (rg_entries rg)) []
      in filter (\<lambda>(name, sids). 1 < length sids) seen)"

definition enabled_entries :: "('c, 's) server_registry \<Rightarrow> (string \<times> ('c, 's) registry_entry) list" where
  "enabled_entries rg = filter (\<lambda>(sid, e). us_enabled (re_server e)) (rg_entries rg)"

section \<open>Synchronisation and naming\<close>

definition effective_prefix :: "upstream_server \<Rightarrow> string" where
  "effective_prefix server = str_or (us_tool_prefix server) (us_id server)"

definition claimed_elsewhere :: "('c, 's) server_registry \<Rightarrow> string \<Rightarrow> (string, string) dict" where
  \<comment> \<open>\<open>existing\<close>: the qualified names other servers hold, with a server that holds each\<close>
  "claimed_elsewhere rg own =
     fold (\<lambda>(sid, e) d. if sid = own then d else
             fold (\<lambda>td d. if truthy_opt (td_qualified_name td) then dict_put (the (td_qualified_name td)) sid d else d)
               (re_tools e) d)
       (rg_entries rg) []"

definition collides :: "('c, 's) server_registry \<Rightarrow> string \<Rightarrow> string \<Rightarrow> bool" where
  "collides rg own bare \<longleftrightarrow>
     list_ex (\<lambda>(sid, e). sid \<noteq> own \<and> list_ex (\<lambda>t. td_name t = bare) (re_tools e)) (rg_entries rg)"

definition decide_name :: "('c, 's) server_registry \<Rightarrow> upstream_server \<Rightarrow> string \<Rightarrow> string" where
  "decide_name rg server name =
     (case nc_strategy (rg_naming rg) of
        PrefixAlways \<Rightarrow> effective_prefix server @ ''.'' @ name
      | Bare \<Rightarrow> name
      | PrefixOnConflict \<Rightarrow>
          if collides rg (us_id server) name then effective_prefix server @ ''.'' @ name else name)"

definition defined_tool :: "upstream_server \<Rightarrow> raw_tool \<Rightarrow> string \<Rightarrow> tool_definition" where
  "defined_tool server raw qualified =
     (tool_of_raw raw)\<lparr> td_server_id := Some (us_id server), td_mutable := rt_name raw \<in> set (us_mutable_tools server),
       td_tags := us_tags server, td_qualified_name := Some qualified \<rparr>"

fun claim_names ::
  "('c, 's) server_registry \<Rightarrow> upstream_server \<Rightarrow> (string, string) dict \<Rightarrow> raw_tool list \<Rightarrow>
   sync_error + tool_definition list" where
  \<comment> \<open>the loop over the raw tools\<close>
  "claim_names rg server existing [] = Inr []"
| "claim_names rg server existing (raw # raws) =
     (let qualified = decide_name rg server (rt_name raw);
          keep = (\<lambda>q. case claim_names rg server (dict_put q (us_id server) existing) raws of
                        Inl e \<Rightarrow> Inl e
                      | Inr tools \<Rightarrow> Inr (defined_tool server raw q # tools))
      in case dict_get existing qualified of
           None \<Rightarrow> keep qualified
         | Some owner \<Rightarrow>
             (case nc_on_conflict (rg_naming rg) of
                RefuseConflict \<Rightarrow> Inl (ToolNameConflict qualified owner (us_id server))
              | Suffix \<Rightarrow> keep (qualified @ ''_'' @ us_id server)
              | Warn \<Rightarrow> claim_names rg server existing raws))"

definition build_tool_definitions ::
  "('c, 's) server_registry \<Rightarrow> upstream_server \<Rightarrow> raw_tool list \<Rightarrow> sync_error + tool_definition list" where
  "build_tool_definitions rg server raw_tools =
     claim_names rg server (claimed_elsewhere rg (us_id server)) raw_tools"

definition synced_entry ::
  "('w, 'c, 's) outside \<Rightarrow> ('c, 's) server_registry \<Rightarrow> upstream_error + raw_tool list \<Rightarrow> 'w \<Rightarrow>
   ('c, 's) registry_entry \<Rightarrow> ('c, 's) registry_entry" where
  \<comment> \<open>what becomes of an entry whose server has been listed, or could not be\<close>
  "synced_entry os rg listing w e =
     (case (case listing of
              Inl exc \<Rightarrow> Inl (SyncUpstream exc)
            | Inr raw_tools \<Rightarrow> build_tool_definitions rg (re_server e) raw_tools) of
        Inl exc \<Rightarrow> e\<lparr> re_healthy := False, re_last_error := Some exc \<rparr>
      | Inr tools \<Rightarrow> e\<lparr> re_tools := tools, re_healthy := True, re_last_error := None,
                          re_last_synced := Some (os_utcnow os w) \<rparr>)"

definition sync_one ::
  "('w, 'c, 's) outside \<Rightarrow> string \<Rightarrow> ('c, 's) server_registry \<Rightarrow> 'w \<Rightarrow>
   bool \<times> ('c, 's) server_registry \<times> 'w \<times> metric list" where
  "sync_one os server_id rg w =
     (case dict_get (rg_entries rg) server_id of
        None \<Rightarrow> (False, rg, w, [])
      | Some entry \<Rightarrow>
          if \<not> us_enabled (re_server entry) then (False, rg, w, [])
          else
            (let (listing, lk) = list_tools (os_sdk os) (link_of rg server_id entry w);
                 rg1 = store_link server_id entry lk rg;
                 e1 = synced_entry os rg1 listing (lk_world lk) (entry\<lparr> re_client := lk_client lk \<rparr>);
                 rg2 = put_entry server_id e1 rg1
             in (re_healthy e1, rg2, lk_world lk, [recompute_tool_count rg2])))"

fun sync_all ::
  "('w, 'c, 's) outside \<Rightarrow> string list \<Rightarrow> ('c, 's) server_registry \<Rightarrow> 'w \<Rightarrow> ('c, 's) server_registry \<times> 'w \<times> metric list" where
  \<comment> \<open>the synchronisations of all entries, given in the order in which they complete\<close>
  "sync_all os [] rg w = (rg, w, [])"
| "sync_all os (sid # sids) rg w =
     (let (ok, rg1, w1, ms1) = sync_one os sid rg w;
          (rg2, w2, ms2) = sync_all os sids rg1 w1
      in (rg2, w2, ms1 @ ms2))"

definition register_entry ::
  "('w, 'c, 's) outside \<Rightarrow> upstream_server \<Rightarrow> ('c, 's) server_registry \<Rightarrow> 'w \<Rightarrow> ('c, 's) server_registry \<times> 'w" where
  \<comment> \<open>the block of \<open>register\<close> under the lock\<close>
  "register_entry os server rg w =
     (let w1 = (case dict_get (rg_entries rg) (us_id server) of
                  None \<Rightarrow> w | Some old \<Rightarrow> close_entry os rg (us_id server) old w);
          cbr = (if cr_enabled (rg_cb rg) then snd (cb_registry_get (us_id server) (rg_cb rg)) else rg_cb rg);
          client = new_mcp_client (os_environ os w1) server
      in ((put_entry (us_id server) (new_entry server client) rg)\<lparr> rg_cb := cbr \<rparr>, w1))"

definition register ::
  "('w, 'c, 's) outside \<Rightarrow> upstream_server \<Rightarrow> bool \<Rightarrow> ('c, 's) server_registry \<Rightarrow> 'w \<Rightarrow>
   ('c, 's) server_registry \<times> 'w \<times> metric list" where
  "register os server sync rg w =
     (let (rg1, w1) = register_entry os server rg w
      in if sync \<and> us_enabled server
         then (let (ok, rg2, w2, ms) = sync_one os (us_id server) rg1 w1 in (rg2, w2, entry_count_metric rg1 # ms))
         else (rg1, w1, [entry_count_metric rg1]))"

definition deregister ::
  "('w, 'c, 's) outside \<Rightarrow> string \<Rightarrow> ('c, 's) server_registry \<Rightarrow> 'w \<Rightarrow>
   bool \<times> ('c, 's) server_registry \<times> 'w \<times> metric list" where
  "deregister os server_id rg w =
     (let rg1 = rg\<lparr> rg_entries := dict_del server_id (rg_entries rg) \<rparr>
      in case dict_get (rg_entries rg) server_id of
           None \<Rightarrow> (False, rg1, w, [entry_count_metric rg1])
         | Some entry \<Rightarrow>
             (True, rg1, close_entry os rg server_id entry w, [entry_count_metric rg1, recompute_tool_count rg1]))"

definition set_enabled :: "string \<Rightarrow> bool \<Rightarrow> ('c, 's) server_registry \<Rightarrow> bool \<times> ('c, 's) server_registry" where
  "set_enabled server_id enabled rg =
     (case dict_get (rg_entries rg) server_id of
        None \<Rightarrow> (False, rg)
      | Some entry \<Rightarrow>
          (True, put_entry server_id (entry\<lparr> re_server := (re_server entry)\<lparr> us_enabled := enabled \<rparr> \<rparr>) rg))"

section \<open>The listing\<close>

fun strategy_name :: "auth_strategy \<Rightarrow> string" where
  "strategy_name StaticAuth = ''static''"
| "strategy_name EnvAuth = ''env''"
| "strategy_name OAuth2Auth = ''oauth2''"

definition entry_to_dict ::
  "(seconds \<Rightarrow> string) \<Rightarrow> (sync_error \<Rightarrow> string) \<Rightarrow> (string, jdict) dict \<Rightarrow> string \<Rightarrow> ('c, 's) registry_entry \<Rightarrow> jdict" where
  \<comment> \<open>\<open>isoformat\<close> prints a time, \<open>show\<close> is \<open>str(exc)\<close>\<close>
  "entry_to_dict isoformat show cb_states sid e =
     [(''id'', JStr (us_id (re_server e))),
      (''name'', JStr (us_name (re_server e))),
      (''base_url'', JStr (us_base_url (re_server e))),
      (''enabled'', JBool (us_enabled (re_server e))),
      (''healthy'', JBool (re_healthy e)),
      (''tool_count'', JInt (int (length (re_tools e)))),
      (''last_synced'', case re_last_synced e of None \<Rightarrow> JNull | Some t \<Rightarrow> JStr (isoformat t)),
      (''last_error'', case re_last_error e of None \<Rightarrow> JNull | Some exc \<Rightarrow> JStr (show exc)),
      (''tags'', JList (map JStr (us_tags (re_server e)))),
      (''circuit_breaker'', JDict (dict_get_default cb_states sid [])),
      (''auth_strategy'', JStr
         (case us_server_auth (re_server e) of
            Some a \<Rightarrow> strategy_name (sa_strategy a)
          | None \<Rightarrow> if truthy_opt (us_auth_header (re_server e)) then ''static'' else ''none''))]"

definition registry_to_dict ::
  "(seconds \<Rightarrow> string) \<Rightarrow> (sync_error \<Rightarrow> string) \<Rightarrow> ('c, 's) server_registry \<Rightarrow> (string, jdict) dict" where
  "registry_to_dict isoformat show rg =
     map (\<lambda>(sid, e). (sid, entry_to_dict isoformat show (cb_all_states (rg_cb rg)) sid e)) (rg_entries rg)"

section \<open>Names held by the servers\<close>

definition entry_names :: "('c, 's) registry_entry \<Rightarrow> string list" where
  \<comment> \<open>the qualified names of an entry's tools\<close>
  "entry_names e = concat (map (\<lambda>td. if truthy_opt (td_qualified_name td) then [the (td_qualified_name td)] else [])
     (re_tools e))"

definition held :: "('c, 's) server_registry \<Rightarrow> string \<Rightarrow> string list" where
  "held rg sid = (case dict_get (rg_entries rg) sid of None \<Rightarrow> [] | Some e \<Rightarrow> entry_names e)"

definition names_unique :: "('c, 's) server_registry \<Rightarrow> bool" where
  \<comment> \<open>no qualified name is held twice, within a server or across servers\<close>
  "names_unique rg \<longleftrightarrow>
     (\<forall>sid. distinct (held rg sid)) \<and>
     (\<forall>sid sid'. sid \<noteq> sid' \<longrightarrow> set (held rg sid) \<inter> set (held rg sid') = {})"

definition registry_ok :: "('c, 's) server_registry \<Rightarrow> bool" where
  "registry_ok rg \<longleftrightarrow>
     distinct (dict_keys (rg_entries rg)) \<and>
     (\<forall>sid e. dict_get (rg_entries rg) sid = Some e \<longrightarrow> us_id (re_server e) = sid) \<and>
     (nc_on_conflict (rg_naming rg) \<noteq> Suffix \<longrightarrow> names_unique rg)"

lemma names_unique_upd:
  assumes "names_unique rg" and "held rg' = (held rg)(sid := ns)" and "distinct ns"
    and "\<And>sid'. sid' \<noteq> sid \<Longrightarrow> set ns \<inter> set (held rg sid') = {}"
  shows "names_unique rg'"
  using assms by (auto simp: names_unique_def)

lemma held_put: "held (put_entry sid e rg) = (held rg)(sid := entry_names e)"
  by (auto simp: held_def put_entry_def dict.get_put)

lemma held_del: "held (rg\<lparr> rg_entries := dict_del sid (rg_entries rg) \<rparr>) = (held rg)(sid := [])"
  by (auto simp: held_def dict.get_del)

lemma held_cb [simp]: "held (rg\<lparr> rg_cb := c \<rparr>) = held rg"
  by (auto simp: held_def)

lemma registry_simps [simp]:
  "rg_naming (put_entry sid e rg) = rg_naming rg"
  "rg_cb (put_entry sid e rg) = rg_cb rg"
  "rg_naming (store_link sid e lk rg) = rg_naming rg"
  "rg_entries (put_entry sid e rg) = dict_put sid e (rg_entries rg)"
  "rg_entries (store_link sid e lk rg) = dict_put sid (e\<lparr> re_client := lk_client lk \<rparr>) (rg_entries rg)"
  by (simp_all add: put_entry_def store_link_def)

lemma held_store_link:
  "dict_get (rg_entries rg) sid = Some e \<Longrightarrow> held (store_link sid e lk rg) = held rg"
  by (auto simp: held_def dict.get_put entry_names_def)

lemma put_ok:
  assumes "registry_ok rg" and "us_id (re_server e) = sid"
    and "nc_on_conflict (rg_naming rg) \<noteq> Suffix \<Longrightarrow>
      distinct (entry_names e) \<and> (\<forall>sid'. sid' \<noteq> sid \<longrightarrow> set (entry_names e) \<inter> set (held rg sid') = {})"
  shows "registry_ok (put_entry sid e rg)"
proof -
  have "names_unique (put_entry sid e rg)" if "nc_on_conflict (rg_naming rg) \<noteq> Suffix"
    using assms(1,3) that by (intro names_unique_upd [OF _ held_put]) (auto simp: registry_ok_def)
  then show ?thesis
    using assms(1,2) by (auto simp: registry_ok_def dict.get_put distinct_update split: if_splits)
qed

lemma same_names_ok:
  assumes "registry_ok rg" and "dict_get (rg_entries rg) sid = Some e"
    and "us_id (re_server e') = sid" and "entry_names e' = entry_names e"
  shows "registry_ok (put_entry sid e' rg)"
proof (rule put_ok [OF assms(1,3)])
  assume "nc_on_conflict (rg_naming rg) \<noteq> Suffix"
  then have "names_unique rg" using assms(1) by (simp add: registry_ok_def)
  moreover have "held rg sid = entry_names e'" using assms(2,4) by (simp add: held_def)
  ultimately show "distinct (entry_names e') \<and> (\<forall>sid'. sid' \<noteq> sid \<longrightarrow> set (entry_names e') \<inter> set (held rg sid') = {})"
    unfolding names_unique_def by metis
qed

lemma cb_ok [simp]: "registry_ok (rg\<lparr> rg_cb := c \<rparr>) = registry_ok rg"
  by (simp add: registry_ok_def names_unique_def)

lemma store_link_ok:
  assumes "registry_ok rg" and "dict_get (rg_entries rg) sid = Some e"
  shows "registry_ok (store_link sid e lk rg)"
proof -
  have "us_id (re_server e) = sid" using assms by (simp add: registry_ok_def)
  then have "registry_ok (put_entry sid (e\<lparr> re_client := lk_client lk \<rparr>) rg)"
    by (intro same_names_ok [OF assms]) (simp_all add: entry_names_def)
  then show ?thesis by (simp add: store_link_def)
qed

section \<open>What the naming loop returns\<close>

lemma claimed_inner:
  "dict_get (fold (\<lambda>td d. if truthy_opt (td_qualified_name td) then dict_put (the (td_qualified_name td)) sid d else d) tds d) q
     = None \<longleftrightarrow>
   dict_get d q = None \<and>
   q \<notin> set (concat (map (\<lambda>td. if truthy_opt (td_qualified_name td) then [the (td_qualified_name td)] else []) tds))"
  by (induction tds arbitrary: d) (auto simp: dict.get_put)

lemma claimed_elsewhere_None:
  "dict_get (claimed_elsewhere rg own) q = None \<longleftrightarrow>
   (\<forall>(sid, e) \<in> set (rg_entries rg). sid \<noteq> own \<longrightarrow> q \<notin> set (entry_names e))"
proof -
  have "dict_get (fold (\<lambda>(sid, e) d. if sid = own then d else
             fold (\<lambda>td d. if truthy_opt (td_qualified_name td) then dict_put (the (td_qualified_name td)) sid d else d)
               (re_tools e) d) es d) q = None \<longleftrightarrow>
        dict_get d q = None \<and> (\<forall>(sid, e) \<in> set es. sid \<noteq> own \<longrightarrow> q \<notin> set (entry_names e))"
    for es :: "(string, ('a, 'b) registry_entry) dict" and d :: "(string, string) dict"
  proof (induction es arbitrary: d)
    case (Cons p es)
    obtain sid e where p: "p = (sid, e)" by fastforce
    show ?case
      unfolding fold.simps comp_def p prod.case
      by (cases "sid = own") (simp_all only: Cons.IH claimed_inner entry_names_def [symmetric] if_True if_False, auto)
  qed simp
  from this [of "rg_entries rg" "[]"] show ?thesis by (simp add: claimed_elsewhere_def)
qed

lemma claim_names_fresh:
  assumes "nc_on_conflict (rg_naming rg) \<noteq> Suffix"
  shows "claim_names rg server existing raws = Inr tools \<Longrightarrow>
    distinct (map td_qualified_name tools) \<and>
    (\<forall>td \<in> set tools. \<exists>q. td_qualified_name td = Some q \<and> dict_get existing q = None)"
proof (induction raws arbitrary: existing tools)
  case Nil
  then show ?case by simp
next
  case (Cons raw raws)
  let ?q = "decide_name rg server (rt_name raw)"
  show ?case
  proof (cases "dict_get existing ?q")
    case None
    then obtain ts where ts: "claim_names rg server (dict_put ?q (us_id server) existing) raws = Inr ts"
      "tools = defined_tool server raw ?q # ts"
      using Cons.prems by (auto simp: Let_def split: sum.splits)
    then have "distinct (map td_qualified_name ts)"
      "\<forall>td \<in> set ts. \<exists>q. td_qualified_name td = Some q \<and> q \<noteq> ?q \<and> dict_get existing q = None"
      using Cons.IH [OF ts(1)] by (auto simp: dict.get_put split: if_splits)
    then show ?thesis using ts(2) None by (auto simp: defined_tool_def)
  next
    case (Some owner)
    then have "claim_names rg server existing raws = Inr tools"
      using Cons.prems assms by (auto simp: Let_def split: conflict_policy.splits)
    then show ?thesis by (rule Cons.IH)
  qed
qed

lemma names_of_tools:
  assumes "distinct (map td_qualified_name tools)"
  shows "distinct (concat (map (\<lambda>td. if truthy_opt (td_qualified_name td) then [the (td_qualified_name td)] else []) tools))"
  using assms
proof (induction tools)
  case (Cons td tools)
  have "the (td_qualified_name td) \<noteq> the (td_qualified_name t)"
    if "t \<in> set tools" "truthy_opt (td_qualified_name t)" "truthy_opt (td_qualified_name td)" for t
    using Cons.prems that by (cases "td_qualified_name t"; cases "td_qualified_name td") force+
  then show ?case using Cons by auto
qed simp

lemma build_tools_fresh:
  assumes "registry_ok rg" and "nc_on_conflict (rg_naming rg) \<noteq> Suffix"
    and "build_tool_definitions rg server raws = Inr tools" and "re_tools e = tools"
  shows "distinct (entry_names e) \<and>
    (\<forall>sid'. sid' \<noteq> us_id server \<longrightarrow> set (entry_names e) \<inter> set (held rg sid') = {})"
proof -
  have f: "distinct (map td_qualified_name tools)"
    "\<forall>td \<in> set tools. \<exists>q. td_qualified_name td = Some q \<and> dict_get (claimed_elsewhere rg (us_id server)) q = None"
    using claim_names_fresh [OF assms(2) assms(3) [unfolded build_tool_definitions_def]] by auto
  have "q \<notin> set (held rg sid')" if "sid' \<noteq> us_id server" "q \<in> set (entry_names e)" for q sid'
  proof (cases "dict_get (rg_entries rg) sid'")
    case None
    then show ?thesis by (simp add: held_def)
  next
    case (Some e')
    have "dict_get (claimed_elsewhere rg (us_id server)) q = None"
      using that(2) f(2) assms(4) by (auto simp: entry_names_def split: if_splits)
    then have "q \<notin> set (entry_names e')"
      using that(1) dict_get_mem [OF Some] by (auto simp: claimed_elsewhere_None)
    then show ?thesis using Some by (simp add: held_def)
  qed
  then show ?thesis using names_of_tools [OF f(1)] assms(4) by (auto simp: entry_names_def)
qed

section \<open>Every operation keeps the names unique\<close>

lemma synced_entry_simps [simp]:
  "re_server (synced_entry os rg listing w e) = re_server e"
  "re_client (synced_entry os rg listing w e) = re_client e"
  by (simp_all add: synced_entry_def split: sum.splits)

lemma synced_entry_ok:
  assumes "registry_ok rg" and "dict_get (rg_entries rg) sid = Some e"
  shows "registry_ok (put_entry sid (synced_entry os rg listing w e) rg)"
proof -
  have id: "us_id (re_server e) = sid" using assms by (simp add: registry_ok_def)
  show ?thesis
  proof (cases "case listing of Inl exc \<Rightarrow> Inl (SyncUpstream exc) | Inr raws \<Rightarrow> build_tool_definitions rg (re_server e) raws")
    case (Inl exc)
    then have "entry_names (synced_entry os rg listing w e) = entry_names e"
      by (simp add: synced_entry_def entry_names_def)
    then show ?thesis using id by (intro same_names_ok [OF assms]) simp_all
  next
    case (Inr tools)
    then obtain raws where "build_tool_definitions rg (re_server e) raws = Inr tools" by (auto split: sum.splits)
    moreover have "re_tools (synced_entry os rg listing w e) = tools" using Inr by (simp add: synced_entry_def)
    ultimately show ?thesis
      using build_tools_fresh [OF assms(1), where server = "re_server e"] id
      by (intro put_ok [OF assms(1)]) (simp, blast)
  qed
qed

lemma sync_one_ok:
  assumes "registry_ok rg"
  shows "registry_ok (fst (snd (sync_one os sid rg w)))"
proof (cases "\<exists>e. dict_get (rg_entries rg) sid = Some e \<and> us_enabled (re_server e)")
  case True
  then obtain e where e: "dict_get (rg_entries rg) sid = Some e" "us_enabled (re_server e)" by blast
  obtain r lk where l: "list_tools (os_sdk os) (link_of rg sid e w) = (r, lk)" by fastforce
  have "registry_ok (put_entry sid (synced_entry os (store_link sid e lk rg) r (lk_world lk) (e\<lparr> re_client := lk_client lk \<rparr>))
      (store_link sid e lk rg))"
    by (intro synced_entry_ok store_link_ok assms e(1)) (simp add: dict.get_put)
  then show ?thesis using e l by (simp add: sync_one_def Let_def)
qed (use assms in \<open>auto simp: sync_one_def split: option.splits\<close>)

lemma sync_all_ok: "registry_ok rg \<Longrightarrow> registry_ok (fst (sync_all os sids rg w))"
proof (induction sids arbitrary: rg w)
  case (Cons sid sids)
  obtain ok rg1 w1 ms1 where one: "sync_one os sid rg w = (ok, rg1, w1, ms1)" by (metis prod_cases4)
  then have "registry_ok rg1" using sync_one_ok [OF Cons.prems, of os sid w] by simp
  then show ?case using Cons.IH [of rg1 w1] one by (cases "sync_all os sids rg1 w1") simp
qed simp

lemma register_entry_ok:
  assumes "registry_ok rg"
  shows "registry_ok (fst (register_entry os server rg w))"
proof -
  have "registry_ok (put_entry (us_id server) (new_entry server client) rg)" for client
    using assms by (intro put_ok) (auto simp: new_entry_def entry_names_def)
  then show ?thesis by (simp add: register_entry_def Let_def)
qed

lemma register_ok:
  assumes "registry_ok rg"
  shows "registry_ok (fst (register os server sync rg w))"
proof -
  obtain rg1 w1 where one: "register_entry os server rg w = (rg1, w1)" by fastforce
  then have "registry_ok rg1" using register_entry_ok [OF assms, of os server w] by simp
  then show ?thesis
    using sync_one_ok [of rg1 os "us_id server" w1] one
    by (cases "sync_one os (us_id server) rg1 w1") (simp add: register_def)
qed

lemma deregister_ok:
  assumes "registry_ok rg"
  shows "registry_ok (fst (snd (deregister os sid rg w)))"
proof -
  have "registry_ok (rg\<lparr> rg_entries := dict_del sid (rg_entries rg) \<rparr>)"
    using assms
    by (auto simp: registry_ok_def dict.get_del distinct_delete intro!: names_unique_upd [OF _ held_del] split: if_splits)
  then show ?thesis by (simp add: deregister_def Let_def split: option.splits)
qed

lemma set_enabled_ok:
  assumes "registry_ok rg"
  shows "registry_ok (snd (set_enabled sid enabled rg))"
proof (cases "dict_get (rg_entries rg) sid")
  case (Some e)
  then have "us_id (re_server e) = sid" using assms by (simp add: registry_ok_def)
  then have "registry_ok (put_entry sid (e\<lparr> re_server := (re_server e)\<lparr> us_enabled := enabled \<rparr> \<rparr>) rg)"
    by (intro same_names_ok [OF assms Some]) (simp_all add: entry_names_def)
  then show ?thesis using Some by (simp add: set_enabled_def)
qed (simp add: set_enabled_def assms)

definition client_call ::
  "('w, 'c, 's) outside \<Rightarrow> string \<Rightarrow> ('c, 's) registry_entry \<Rightarrow> string \<Rightarrow> jdict \<Rightarrow> string option \<Rightarrow>
   ('c, 's) server_registry \<Rightarrow> 'w \<Rightarrow> (upstream_error + json) \<times> ('c, 's) server_registry \<times> 'w" where
  \<comment> \<open>\<open>entry.client.call_tool(...)\<close> for the entry stored under the key\<close>
  "client_call os sid e name arguments agent rg w =
     (let (r, lk) = call_tool (os_sdk os) name arguments agent (link_of rg sid e w)
      in (r, store_link sid e lk rg, lk_world lk))"

lemma client_call_ok:
  "registry_ok rg \<Longrightarrow> dict_get (rg_entries rg) sid = Some e \<Longrightarrow>
   registry_ok (fst (snd (client_call os sid e name args a rg w)))"
  by (auto simp: client_call_def store_link_ok split: prod.splits)

datatype registry_event =
    Register upstream_server bool
  | Deregister string
  | SetEnabled string bool
  | SyncOne string
  | SyncAll "string list"
  | CallTool string string jdict "string option"
  | CloseAll

fun registry_step :: "('w, 'c, 's) outside \<Rightarrow> ('c, 's) server_registry \<times> 'w \<Rightarrow> registry_event \<Rightarrow> ('c, 's) server_registry \<times> 'w" where
  "registry_step os (rg, w) (Register server sync) = (let (rg', w', ms) = register os server sync rg w in (rg', w'))"
| "registry_step os (rg, w) (Deregister sid) = (let (b, rg', w', ms) = deregister os sid rg w in (rg', w'))"
| "registry_step os (rg, w) (SetEnabled sid enabled) = (let (b, rg') = set_enabled sid enabled rg in (rg', w))"
| "registry_step os (rg, w) (SyncOne sid) = (let (b, rg', w', ms) = sync_one os sid rg w in (rg', w'))"
| "registry_step os (rg, w) (SyncAll sids) = (let (rg', w', ms) = sync_all os sids rg w in (rg', w'))"
| "registry_step os (rg, w) (CallTool sid name args a) =
     (case dict_get (rg_entries rg) sid of
        None \<Rightarrow> (rg, w)
      | Some e \<Rightarrow> (let (r, rg', w') = client_call os sid e name args a rg w in (rg', w')))"
| "registry_step os (rg, w) CloseAll = close_registry os rg w"

definition fresh_registry :: "('c, 's) server_registry \<times> 'w \<Rightarrow> bool" where
  "fresh_registry st \<longleftrightarrow> rg_entries (fst st) = []"

lemma empty_ok: "rg_entries rg = [] \<Longrightarrow> registry_ok rg"
  by (simp add: registry_ok_def names_unique_def held_def)

lemma registry_step_ok: "registry_ok (fst st) \<Longrightarrow> registry_ok (fst (registry_step os st ev))"
proof (induction os st ev rule: registry_step.induct)
  case (1 os rg w server sync)
  then show ?case using register_ok [of rg os server sync w] by (auto split: prod.splits)
next
  case (2 os rg w sid)
  then show ?case using deregister_ok [of rg os sid w] by (auto split: prod.splits)
next
  case (3 os rg w sid enabled)
  then show ?case using set_enabled_ok [of rg sid enabled] by (auto split: prod.splits)
next
  case (4 os rg w sid)
  then show ?case using sync_one_ok [of rg os sid w] by (auto split: prod.splits)
next
  case (5 os rg w sids)
  then show ?case using sync_all_ok [of rg os sids w] by (auto split: prod.splits)
next
  case (6 os rg w sid name args a)
  then show ?case using client_call_ok [of rg sid _ os name args a w] by (auto split: prod.splits option.splits)
next
  case (7 os rg w)
  then show ?case by (simp add: close_registry_def empty_ok)
qed

interpretation registry: det_machine fresh_registry "registry_step os" "\<lambda>st. registry_ok (fst st)"
  for os :: "('w, 'c, 's) outside"
  by unfold_locales (auto simp: fresh_registry_def empty_ok registry_step_ok)

lemma sync_one_naming: "rg_naming (fst (snd (sync_one os sid rg w))) = rg_naming rg"
  by (simp add: sync_one_def Let_def split: option.splits prod.splits)

lemma sync_all_naming: "rg_naming (fst (sync_all os sids rg w)) = rg_naming rg"
proof (induction sids arbitrary: rg w)
  case (Cons sid sids)
  obtain ok rg1 w1 ms1 where one: "sync_one os sid rg w = (ok, rg1, w1, ms1)" by (metis prod_cases4)
  then have "rg_naming rg1 = rg_naming rg" using sync_one_naming [of os sid rg w] by simp
  then show ?case using Cons.IH [of rg1 w1] one by (cases "sync_all os sids rg1 w1") simp
qed simp

lemma register_naming: "rg_naming (fst (register os server sync rg w)) = rg_naming rg"
proof -
  obtain rg1 w1 where one: "register_entry os server rg w = (rg1, w1)" by fastforce
  then have "rg_naming rg1 = rg_naming rg" by (auto simp: register_entry_def Let_def)
  then show ?thesis
    using sync_one_naming [of os "us_id server" rg1 w1] one
    by (cases "sync_one os (us_id server) rg1 w1") (simp add: register_def)
qed

lemma registry_step_naming: "rg_naming (fst (registry_step os st ev)) = rg_naming (fst st)"
proof (induction os st ev rule: registry_step.induct)
  case (1 os rg w server sync)
  then show ?case using register_naming [of os server sync rg w] by (auto split: prod.splits)
next
  case (4 os rg w sid)
  then show ?case using sync_one_naming [of os sid rg w] by (auto split: prod.splits)
next
  case (5 os rg w sids)
  then show ?case using sync_all_naming [of os sids rg w] by (auto split: prod.splits)
qed (auto simp: deregister_def set_enabled_def client_call_def close_registry_def Let_def split: option.splits prod.splits)

lemma run_naming: "rg_naming (fst (run_events (registry_step os) st evs)) = rg_naming (fst st)"
  by (induction evs arbitrary: st) (simp_all add: registry_step_naming)

section \<open>Resolving names\<close>

lemma first_some_only:
  assumes "\<exists>x \<in> set xs. f x = Some y" and "\<And>x z. x \<in> set xs \<Longrightarrow> f x = Some z \<Longrightarrow> z = y"
  shows "first_some f xs = Some y"
  using assms by (induction xs) (auto split: option.splits)

lemma distinct_concat_owner:
  "distinct (concat (map f xs)) \<Longrightarrow> x \<in> set xs \<Longrightarrow> y \<in> set xs \<Longrightarrow> q \<in> set (f x) \<Longrightarrow> q \<in> set (f y) \<Longrightarrow> x = y"
  by (induction xs) auto

definition names_exactly :: "string \<Rightarrow> string \<times> ('c, 's) registry_entry \<Rightarrow> (string \<times> string) option" where
  \<comment> \<open>the body of the loop of step 1\<close>
  "names_exactly q = (\<lambda>(sid, e). first_some (\<lambda>td.
     if td_qualified_name td = Some q then Some (sid, td_name td) else None) (re_tools e))"

lemma names_exactly_Some:
  "names_exactly q (sid, e) = Some z \<Longrightarrow>
   \<exists>td \<in> set (re_tools e). td_qualified_name td = Some q \<and> z = (sid, td_name td)"
  by (auto simp: names_exactly_def first_some_Some split: if_splits)

lemma find_exact:
  "first_some (names_exactly q) (rg_entries rg) = Some hit \<Longrightarrow> find_by_qualified_tool rg q = Some hit"
  by (simp add: find_by_qualified_tool_def names_exactly_def)

lemma name_held:
  "td \<in> set (re_tools e) \<Longrightarrow> td_qualified_name td = Some q \<Longrightarrow> q \<noteq> [] \<Longrightarrow> q \<in> set (entry_names e)"
  by (force simp: entry_names_def)

lemma exact_match_found:
  assumes "registry_ok rg" and "nc_on_conflict (rg_naming rg) \<noteq> Suffix"
    and "dict_get (rg_entries rg) sid = Some e" and "td \<in> set (re_tools e)"
    and "td_qualified_name td = Some q" and "q \<noteq> []"
  shows "find_by_qualified_tool rg q = Some (sid, td_name td)"
proof (rule find_exact, rule first_some_only)
  have u: "names_unique rg" using assms(1,2) by (simp add: registry_ok_def)
  have only: "t = td \<and> sid' = sid"
    if "(sid', e') \<in> set (rg_entries rg)" "t \<in> set (re_tools e')" "td_qualified_name t = Some q" for sid' e' t
  proof -
    have g: "dict_get (rg_entries rg) sid' = Some e'"
      using that(1) assms(1) by (simp add: registry_ok_def)
    have q: "q \<in> set (held rg sid)" "q \<in> set (held rg sid')"
      using name_held [OF assms(4-6)] name_held [OF that(2,3) assms(6)] g assms(3) by (simp_all add: held_def)
    then have s: "sid' = sid" using u unfolding names_unique_def by blast
    then have "e' = e" using g assms(3) by simp
    have "distinct (entry_names e)" using u assms(3) unfolding names_unique_def held_def
      by (metis option.simps(5))
    then have "t = td"
      unfolding entry_names_def
      by (rule distinct_concat_owner [where q = q]) (use that(2,3) assms(4-6) \<open>e' = e\<close> in simp_all)
    then show ?thesis using s by simp
  qed
  have "names_exactly q (sid, e) = Some (sid, td_name td)"
    unfolding names_exactly_def prod.case
  proof (rule first_some_only)
    show "\<exists>t \<in> set (re_tools e). (if td_qualified_name t = Some q then Some (sid, td_name t) else None) = Some (sid, td_name td)"
      using assms(4,5) by auto
    show "z = (sid, td_name td)"
      if "t \<in> set (re_tools e)" "(if td_qualified_name t = Some q then Some (sid, td_name t) else None) = Some z" for t z
      using only [OF dict_get_mem [OF assms(3)] that(1)] that(2) by (auto split: if_splits)
  qed
  then show "\<exists>x \<in> set (rg_entries rg). names_exactly q x = Some (sid, td_name td)"
    using dict_get_mem [OF assms(3)] by blast
  show "\<And>x z. x \<in> set (rg_entries rg) \<Longrightarrow> names_exactly q x = Some z \<Longrightarrow> z = (sid, td_name td)"
    using only by (auto dest: names_exactly_Some)
qed

section \<open>Properties\<close>

text \<open>C6. Whatever sequence of registrations, removals, synchronisations, switches and calls a registry has
  gone through, unless its collision policy is \<open>suffix\<close> no two tools hold the same qualified name,
  and looking up the qualified name of a tool gives the server that holds it and the tool's own
  name.\<close>

theorem qualified_names_resolve:
  assumes "rg_entries rg0 = []" and "nc_on_conflict (rg_naming rg0) \<noteq> Suffix"
    and "run_events (registry_step os) (rg0, w0) evs = (rg, w)"
    and "dict_get (rg_entries rg) sid = Some e" and "td \<in> set (re_tools e)"
    and "td_qualified_name td = Some q" and "q \<noteq> []"
  shows "names_unique rg \<and> find_by_qualified_tool rg q = Some (sid, td_name td)"
proof -
  have ok: "registry_ok rg"
    using registry.run_from_init [of "(rg0, w0)" os evs] assms(1,3) by (simp add: fresh_registry_def)
  have "nc_on_conflict (rg_naming rg) \<noteq> Suffix"
    using run_naming [of os "(rg0, w0)" evs] assms(2,3) by simp
  then show ?thesis using exact_match_found [OF ok _ assms(4-7)] ok by (simp add: registry_ok_def)
qed

definition named_tool :: "string \<Rightarrow> mcp_tool" where
  "named_tool n = \<lparr> mt_name = n, mt_description = None, mt_input_schema = SchemaDict [] \<rparr>"

definition serving :: "(nat \<Rightarrow> string list) \<Rightarrow> (nat, nat, nat) outside" where
  \<comment> \<open>upstreams whose \<open>n\<close>th connection lists the given tools\<close>
  "serving tools =
     \<lparr> os_sdk = demo_sdk\<lparr> sdk_list_tools := (\<lambda>s w. (Inr (map named_tool (tools s)), w)) \<rparr>,
       os_environ = (\<lambda>w v. None), os_utcnow = (\<lambda>w. 0), os_http_aclose = id \<rparr>"

definition empty_registry :: "naming_strategy \<Rightarrow> conflict_policy \<Rightarrow> (nat, nat) server_registry" where
  "empty_registry strategy policy =
     new_server_registry None (Some \<lparr> nc_strategy = strategy, nc_on_conflict = policy \<rparr>)"

definition add :: "string \<Rightarrow> registry_event" where
  "add sid = Register (upstream sid sid ''http://host'') True"

definition two_servers :: "(nat, nat) server_registry \<times> nat" where
  "two_servers = run_events (registry_step (serving (\<lambda>n. [''query'']))) (empty_registry Bare Warn, 0) [add ''pg'', add ''gh'']"

lemma two_servers_eval:
  "map_option (\<lambda>e. map (\<lambda>td. (td_name td, td_qualified_name td)) (re_tools e)) (dict_get (rg_entries (fst two_servers)) ''pg'') =
     Some [(''query'', Some ''query'')]"
  by code_simp

theorem qualified_names_resolve_witness:
  "find_by_qualified_tool (fst two_servers) ''query'' = Some (''pg'', ''query'')"
proof -
  obtain e td where e: "dict_get (rg_entries (fst two_servers)) ''pg'' = Some e" "re_tools e = [td]"
      "td_name td = ''query''" "td_qualified_name td = Some ''query''"
    using two_servers_eval by (auto simp: map_eq_Cons_conv)
  have "find_by_qualified_tool (fst two_servers) ''query'' = Some (''pg'', td_name td)"
    by (rule conjunct2 [OF qualified_names_resolve [where os = "serving (\<lambda>n. [''query''])"
          and evs = "[add ''pg'', add ''gh'']" and w = "snd two_servers" and ?rg0.0 = "empty_registry Bare Warn"
          and ?w0.0 = 0 and e = e]])
      (simp_all add: e, simp_all add: empty_registry_def new_server_registry_def Let_def two_servers_def)
  then show ?thesis using e by simp
qed

definition suffixed :: "(nat, nat) server_registry" where
  "suffixed = fst (run_events (registry_step (serving (\<lambda>n. if n = 0 then [''x_b''] else [''x''])))
     (empty_registry Bare Suffix, 0) [add ''a'', add ''c'', add ''b''])"

text \<open>Under the \<open>suffix\<close> policy the renamed tool is not checked again: three servers registered one after
  the other can end with two tools of one qualified name, and the name then reaches the first server
  only.\<close>

theorem suffix_policy_duplicates_names:
  "held suffixed ''a'' = [''x_b''] \<and> held suffixed ''c'' = [''x''] \<and> held suffixed ''b'' = [''x_b''] \<and>
   find_by_qualified_tool suffixed ''x_b'' = Some (''a'', ''x_b'')"
  by code_simp

lemma sync_one_cases:
  fixes os :: "('w, 'c, 's) outside"
  assumes "dict_get (rg_entries rg) sid = Some e" and "us_enabled (re_server e)"
    and "sync_one os sid rg w = (ok, rg', w', ms)"
  shows "\<exists>lk :: ('w, 'c, 's) link. ms = [recompute_tool_count rg'] \<and>
    ((ok \<and> (\<exists>raws tools t. build_tool_definitions (store_link sid e lk rg) (re_server e) raws = Inr tools \<and>
        rg' = put_entry sid (e\<lparr> re_client := lk_client lk, re_tools := tools, re_healthy := True,
          re_last_error := None, re_last_synced := Some t \<rparr>) (store_link sid e lk rg))) \<or>
     (\<not> ok \<and> (\<exists>exc. rg' = put_entry sid (e\<lparr> re_client := lk_client lk, re_healthy := False,
          re_last_error := Some exc \<rparr>) (store_link sid e lk rg))))"
proof -
  obtain r lk where l: "list_tools (os_sdk os) (link_of rg sid e w) = (r, lk)" by fastforce
  show ?thesis
  proof (cases r)
    case (Inl exc)
    then show ?thesis using assms l
      by (intro exI [of _ lk]) (auto simp: sync_one_def synced_entry_def Let_def)
  next
    case (Inr raws)
    then show ?thesis using assms l
      by (intro exI [of _ lk], cases "build_tool_definitions (store_link sid e lk rg) (re_server e) raws")
        (auto simp: sync_one_def synced_entry_def Let_def)
  qed
qed

lemma claim_names_prefixed:
  assumes "nc_strategy (rg_naming rg) = PrefixOnConflict" and "collides rg (us_id server) n"
  shows "claim_names rg server existing raws = Inr tools \<Longrightarrow> t \<in> set tools \<Longrightarrow> td_name t = n \<Longrightarrow>
    \<exists>more. td_qualified_name t = Some (effective_prefix server @ ''.'' @ n @ more)"
proof (induction raws arbitrary: existing tools)
  case (Cons raw raws)
  let ?q = "decide_name rg server (rt_name raw)"
  have kept: ?case
    if "claim_names rg server (dict_put q (us_id server) existing) raws = Inr ts" and "tools = defined_tool server raw q # ts"
      and "q = ?q @ more" for q ts more
  proof (cases "t \<in> set ts")
    case True
    then show ?thesis using Cons.IH [OF that(1)] Cons.prems(3) by simp
  next
    case False
    then have t: "t = defined_tool server raw q" using that(2) Cons.prems(2) by simp
    then have "?q = effective_prefix server @ ''.'' @ n"
      using Cons.prems(3) assms by (simp add: defined_tool_def tool_of_raw_def decide_name_def)
    then show ?thesis using t that(3) by (auto simp: defined_tool_def)
  qed
  show ?case
  proof (cases "dict_get existing ?q")
    case None
    then show ?thesis using Cons.prems(1) kept [of ?q _ "[]"] by (auto simp: Let_def split: sum.splits)
  next
    case (Some owner)
    show ?thesis
    proof (cases "nc_on_conflict (rg_naming rg)")
      case Suffix
      then show ?thesis using Some Cons.prems(1) kept [of "?q @ ''_'' @ us_id server" _ "''_'' @ us_id server"]
        by (auto simp: Let_def split: sum.splits)
    qed (use Some Cons in \<open>auto simp: Let_def\<close>)
  qed
qed simp

text \<open>A synchronisation that fails, because the server could not be listed or because a name was refused,
  keeps the tools the server had: the entry is marked unhealthy with the error, and no other entry
  changes.\<close>

theorem failed_sync_keeps_tools:
  assumes "dict_get (rg_entries rg) sid = Some e" and "us_enabled (re_server e)"
    and "sync_one os sid rg w = (False, rg', w', ms)"
  shows "(\<exists>e' exc. dict_get (rg_entries rg') sid = Some e' \<and> re_tools e' = re_tools e \<and>
      re_last_synced e' = re_last_synced e \<and> \<not> re_healthy e' \<and> re_last_error e' = Some exc) \<and>
    (\<forall>other. other \<noteq> sid \<longrightarrow> dict_get (rg_entries rg') other = dict_get (rg_entries rg) other)"
  using sync_one_cases [OF assms] by (auto simp: dict.get_put)

definition refusing_upstream :: "(nat, nat, nat) outside" where
  "refusing_upstream = (serving (\<lambda>n. []))\<lparr> os_sdk := refusing_sdk \<rparr>"

theorem failed_sync_keeps_tools_witness:
  "\<exists>e. dict_get (rg_entries (fst (snd (sync_one refusing_upstream ''pg''
      (snd (set_enabled ''pg'' True (fst (register (serving (\<lambda>n. [''query''])) (upstream ''pg'' ''Postgres'' ''http://pg'')
        False (empty_registry Bare Warn) 0)))) 1)))) ''pg'' = Some e \<and> \<not> re_healthy e \<and> re_tools e = []"
proof -
  let ?rg = "snd (set_enabled ''pg'' True (fst (register (serving (\<lambda>n. [''query''])) (upstream ''pg'' ''Postgres'' ''http://pg'')
        False (empty_registry Bare Warn) 0)))"
  have "\<not> fst (sync_one refusing_upstream ''pg'' ?rg 1)"
    by code_simp
  moreover obtain ok rg' w' ms where o: "sync_one refusing_upstream ''pg'' ?rg 1 = (ok, rg', w', ms)"
    by (rule prod_cases4)
  ultimately have s: "sync_one refusing_upstream ''pg'' ?rg 1 = (False, rg', w', ms)" by simp
  have "map_option (\<lambda>e. (re_tools e, us_enabled (re_server e))) (dict_get (rg_entries ?rg) ''pg'') = Some ([], True)"
    by code_simp
  then obtain e where e: "dict_get (rg_entries ?rg) ''pg'' = Some e" "re_tools e = []" "us_enabled (re_server e)"
    by auto
  show ?thesis using failed_sync_keeps_tools [OF e(1,3) s] e(2) s by auto
qed

text \<open>Under \<open>prefix_on_conflict\<close> a server that brings a tool name another server already holds bare gets
  the prefixed name, and the first server keeps the bare one although it is no longer unique.\<close>

theorem first_server_keeps_bare_name:
  fixes os :: "('w, 'c, 's) outside"
  assumes "registry_ok rg" and "nc_strategy (rg_naming rg) = PrefixOnConflict" and "sid \<noteq> sid'"
    and "dict_get (rg_entries rg) sid = Some e" and "t \<in> set (re_tools e)" and "td_name t = n"
    and "td_qualified_name t = Some n"
    and "dict_get (rg_entries rg) sid' = Some old" and "us_enabled (re_server old)"
    and "sync_one os sid' rg w = (True, rg', w', ms)"
    and "dict_get (rg_entries rg') sid' = Some e'" and "t' \<in> set (re_tools e')" and "td_name t' = n"
  shows "dict_get (rg_entries rg') sid = Some e \<and>
    (\<exists>more. td_qualified_name t' = Some (effective_prefix (re_server old) @ ''.'' @ n @ more))"
proof -
  obtain lk :: "('w, 'c, 's) link" and raws tools tm where s: "build_tool_definitions (store_link sid' old lk rg) (re_server old) raws = Inr tools"
      "rg' = put_entry sid' (old\<lparr> re_client := lk_client lk, re_tools := tools, re_healthy := True,
          re_last_error := None, re_last_synced := Some tm \<rparr>) (store_link sid' old lk rg)"
    using sync_one_cases [OF assms(8-10)] by blast
  have "dict_get (rg_entries (store_link sid' old lk rg)) sid = Some e"
    using assms(3,4) by (simp add: dict.get_put)
  moreover have "us_id (re_server old) = sid'" using assms(1,8) by (simp add: registry_ok_def)
  ultimately have "collides (store_link sid' old lk rg) (us_id (re_server old)) n"
    using assms(3,5,6) by (force simp: collides_def list_ex_iff dest: dict_get_mem)
  moreover have "t' \<in> set tools" using assms(11,12) s(2) by (auto simp: dict.get_put)
  ultimately have "\<exists>more. td_qualified_name t' = Some (effective_prefix (re_server old) @ ''.'' @ n @ more)"
    using claim_names_prefixed [OF _ _ s(1) [unfolded build_tool_definitions_def]] assms(2,13) by simp
  then show ?thesis using assms(3,4) s(2) by (simp add: dict.get_put)
qed

definition bare_query :: tool_definition where
  "bare_query = defined_tool (upstream ''pg'' ''pg'' ''http://host'') (tool_to_dict (named_tool ''query'')) ''query''"

definition on_conflict_registry :: "(nat, nat) server_registry" where
  \<comment> \<open>the server \<open>pg\<close> holds \<open>query\<close>, the server \<open>gh\<close> is registered and not yet synchronised\<close>
  "on_conflict_registry =
     fst (run_events (registry_step (serving (\<lambda>n. [''query'']))) (empty_registry PrefixOnConflict Warn, 0)
       [add ''pg'', Register (upstream ''gh'' ''gh'' ''http://host'') False])"

theorem first_server_keeps_bare_name_witness:
  "\<exists>e' t' more. dict_get (rg_entries (fst (snd (sync_one (serving (\<lambda>n. [''query''])) ''gh'' on_conflict_registry 1)))) ''gh'' = Some e' \<and>
     t' \<in> set (re_tools e') \<and> td_qualified_name t' = Some (''gh.query'' @ more)"
proof -
  let ?os = "serving (\<lambda>n. [''query''])"
  have ok: "registry_ok on_conflict_registry"
    unfolding on_conflict_registry_def
    by (rule registry.run_from_init) (simp add: fresh_registry_def empty_registry_def new_server_registry_def Let_def)
  have naming: "nc_strategy (rg_naming on_conflict_registry) = PrefixOnConflict"
    unfolding on_conflict_registry_def run_naming by (simp add: empty_registry_def new_server_registry_def Let_def)
  have "map_option re_tools (dict_get (rg_entries on_conflict_registry) ''pg'') = Some [bare_query]"
    by code_simp
  then obtain e where e: "dict_get (rg_entries on_conflict_registry) ''pg'' = Some e" "bare_query \<in> set (re_tools e)"
    by auto
  have "map_option re_server (dict_get (rg_entries on_conflict_registry) ''gh'') = Some (upstream ''gh'' ''gh'' ''http://host'')"
    by code_simp
  then obtain old where old: "dict_get (rg_entries on_conflict_registry) ''gh'' = Some old"
      "re_server old = upstream ''gh'' ''gh'' ''http://host''" by auto
  have "fst (sync_one ?os ''gh'' on_conflict_registry 1)" by code_simp
  moreover obtain ok rg' w' ms where o: "sync_one ?os ''gh'' on_conflict_registry 1 = (ok, rg', w', ms)"
    by (rule prod_cases4)
  ultimately have s: "sync_one ?os ''gh'' on_conflict_registry 1 = (True, rg', w', ms)" by simp
  have "map_option (\<lambda>e. map td_name (re_tools e))
      (dict_get (rg_entries (fst (snd (sync_one ?os ''gh'' on_conflict_registry 1)))) ''gh'') = Some [''query'']"
    by code_simp
  then obtain e' t' where e': "dict_get (rg_entries rg') ''gh'' = Some e'" "t' \<in> set (re_tools e')" "td_name t' = ''query''"
    using s by (auto simp: map_eq_Cons_conv)
  have "\<exists>more. td_qualified_name t' = Some (effective_prefix (re_server old) @ ''.'' @ ''query'' @ more)"
    by (rule conjunct2 [OF first_server_keeps_bare_name [OF ok naming _ e _ _ old(1) _ s e']])
      (simp_all add: bare_query_def defined_tool_def tool_of_raw_def tool_to_dict_def named_tool_def old upstream_def)
  then show ?thesis using e' s by (auto simp: old effective_prefix_def upstream_def)
qed

text \<open>Removing a server and registering it again does not give it a fresh circuit breaker: the breaker
  kept under its id, open or not, guards the new client.\<close>

theorem breaker_survives_reregistration:
  assumes "cr_enabled (rg_cb rg)" and "dict_get (cr_breakers (rg_cb rg)) (us_id server) = Some cb"
    and "deregister os (us_id server) rg w = (b, rg1, w1, ms1)"
    and "register os server False rg1 w1 = (rg2, w2, ms2)"
  shows "\<exists>e. dict_get (rg_entries rg2) (us_id server) = Some e \<and>
    lk_cb (link_of rg2 (us_id server) e w2) = Some cb"
proof -
  have "rg_cb rg1 = rg_cb rg"
    using assms(3) by (auto simp: deregister_def Let_def split: option.splits)
  moreover have "get_or_create (cr_breakers (rg_cb rg)) (us_id server) c = (cb, cr_breakers (rg_cb rg))" for c
    using assms(2) by (simp add: get_or_create_def)
  ultimately show ?thesis
    using assms(1,2,4)
    by (auto simp: register_def register_entry_def Let_def cb_registry_get_def link_of_def dict.get_put)
qed

theorem breaker_survives_reregistration_witness:
  "\<exists>e. lk_cb (link_of (fst (register (serving (\<lambda>n. [])) (upstream ''pg'' ''pg'' ''http://host'') False
     (fst (snd (deregister (serving (\<lambda>n. [])) ''pg''
       ((empty_registry Bare Warn)\<lparr> rg_cb := (new_cb_registry True 5 30 2)\<lparr> cr_breakers := [(''pg'', open_breaker)] \<rparr> \<rparr>) 0))) 0))
     ''pg'' e (0::nat)) = Some open_breaker"
proof -
  let ?rg = "(empty_registry Bare Warn)\<lparr> rg_cb := (new_cb_registry True 5 30 2)\<lparr> cr_breakers := [(''pg'', open_breaker)] \<rparr> \<rparr>"
  obtain rg1 ms1 where d: "deregister (serving (\<lambda>n. [])) ''pg'' ?rg 0 = (False, rg1, 0, ms1)"
    by (simp add: deregister_def empty_registry_def new_server_registry_def Let_def)
  then have "rg_entries rg1 = []"
    by (auto simp: deregister_def empty_registry_def new_server_registry_def Let_def)
  then obtain rg2 ms2 where r: "register (serving (\<lambda>n. [])) (upstream ''pg'' ''pg'' ''http://host'') False rg1 0 = (rg2, 0, ms2)"
    by (simp add: register_def register_entry_def Let_def)
  have "\<exists>e. dict_get (rg_entries rg2) ''pg'' = Some e \<and> lk_cb (link_of rg2 ''pg'' e (0::nat)) = Some open_breaker"
    using breaker_survives_reregistration [of ?rg "upstream ''pg'' ''pg'' ''http://host''" open_breaker
        "serving (\<lambda>n. [])" 0 False rg1 0 ms1 rg2 0 ms2] d r
    by (simp add: upstream_def new_cb_registry_def)
  then show ?thesis using d r by auto
qed

end
