(* ===== verification/Audit_Log.thy ===== *)
theory Audit_Log
  imports Json_Values
begin

text \<open>
  \<open>app/audit/models.py\<close> and \<open>app/audit/store.py\<close>: the audit record, the bounded queue of records that
  wait to be written, the flush of a batch, the shutdown and the query.

  The database is a parameter: \<open>commit\<close> writes a batch in one transaction, or raises; \<open>rows\<close> reads the
  table; \<open>execute\<close> runs a select statement. \<open>writes_batches\<close> states what is relied on: a committed batch
  is appended as a whole and a failed one leaves the table as it was. The digest of the arguments is a
  parameter of \<open>record\<close>, like the fresh id and the clock.
\<close>

section \<open>Records\<close>

record audit_entry =
  ad_id :: string
  ad_timestamp :: seconds
  ad_request_id :: string
  ad_agent_id :: string
  ad_server_id :: string
  ad_tool_name :: string
  ad_qualified_name :: string
  ad_mutable :: bool
  ad_status :: string
  ad_is_error :: bool
  ad_error_detail :: "string option"
  ad_latency_ms :: rat
  ad_guardrail_blocked :: bool
  ad_auth_denied :: bool
  ad_rate_limited :: bool
  ad_redacted :: bool
  ad_arguments_hash :: "string option"

text \<open>What a caller passes to \<open>record\<close>.\<close>

record audit_fields =
  af_request_id :: string
  af_agent_id :: string
  af_server_id :: string
  af_tool_name :: string
  af_qualified_name :: string
  af_mutable :: bool
  af_status :: string
  af_is_error :: bool
  af_error_detail :: "string option"
  af_latency_ms :: rat
  af_guardrail_blocked :: bool
  af_auth_denied :: bool
  af_rate_limited :: bool
  af_redacted :: bool
  af_arguments :: "jdict option"

definition hash_args :: "(json \<Rightarrow> string) \<Rightarrow> jdict \<Rightarrow> string" where
  \<comment> \<open>\<open>digest\<close> is the SHA-256 of the text \<open>json.dumps(..., sort_keys=True)\<close> prints\<close>
  "hash_args digest arguments = take 16 (digest (canon (JDict arguments)))"

definition make_entry :: "(json \<Rightarrow> string) \<Rightarrow> string \<Rightarrow> seconds \<Rightarrow> audit_fields \<Rightarrow> audit_entry" where
  "make_entry digest uuid now f =
     \<lparr> ad_id = uuid, ad_timestamp = now, ad_request_id = af_request_id f, ad_agent_id = af_agent_id f,
       ad_server_id = af_server_id f, ad_tool_name = af_tool_name f, ad_qualified_name = af_qualified_name f,
       ad_mutable = af_mutable f, ad_status = af_status f, ad_is_error = af_is_error f,
       ad_error_detail = af_error_detail f, ad_latency_ms = af_latency_ms f,
       ad_guardrail_blocked = af_guardrail_blocked f, ad_auth_denied = af_auth_denied f,
       ad_rate_limited = af_rate_limited f, ad_redacted = af_redacted f,
       ad_arguments_hash = Some (hash_args digest (case af_arguments f of None \<Rightarrow> [] | Some a \<Rightarrow> a)) \<rparr>"

section \<open>The store\<close>

definition BATCH :: nat where
  "BATCH = 50"

definition QUEUE_MAX :: nat where
  "QUEUE_MAX = 10000"

record audit_store =
  as_queue :: "audit_entry list"
  as_consumer :: bool                     \<comment> \<open>the consumer task runs\<close>

definition new_audit_store :: audit_store where
  "new_audit_store = \<lparr> as_queue = [], as_consumer = False \<rparr>"

definition put_nowait :: "audit_entry \<Rightarrow> audit_store \<Rightarrow> audit_store" where
  \<comment> \<open>a full queue raises \<open>QueueFull\<close> and the entry is dropped\<close>
  "put_nowait e s = (if length (as_queue s) < QUEUE_MAX then s\<lparr> as_queue := as_queue s @ [e] \<rparr> else s)"

definition audit_record :: "(json \<Rightarrow> string) \<Rightarrow> string \<Rightarrow> seconds \<Rightarrow> audit_fields \<Rightarrow> audit_store \<Rightarrow> audit_store" where
  "audit_record digest uuid now f s = put_nowait (make_entry digest uuid now f) s"

definition flush ::
  "(audit_entry list \<Rightarrow> 'd \<Rightarrow> (string + unit) \<times> 'd) \<Rightarrow> audit_store \<Rightarrow> 'd \<Rightarrow> audit_store \<times> 'd" where
  "flush commit s d =
     (let batch = take BATCH (as_queue s);
          s' = s\<lparr> as_queue := drop BATCH (as_queue s) \<rparr>
      in if batch = [] then (s, d) else (s', snd (commit batch d)))"

definition start_store :: "('d \<Rightarrow> 'd) \<Rightarrow> audit_store \<Rightarrow> 'd \<Rightarrow> audit_store \<times> 'd" where
  "start_store create_all s d = (s\<lparr> as_consumer := True \<rparr>, create_all d)"

definition stop_store ::
  "(audit_entry list \<Rightarrow> 'd \<Rightarrow> (string + unit) \<times> 'd) \<Rightarrow> ('d \<Rightarrow> 'd) \<Rightarrow> audit_store \<Rightarrow> 'd \<Rightarrow> audit_store \<times> 'd" where
  \<comment> \<open>the consumer is cancelled while it sleeps, then one flush runs and the engine is disposed of\<close>
  "stop_store commit dispose s d =
     (let (s', d') = flush commit (s\<lparr> as_consumer := False \<rparr>) d in (s', dispose d'))"

section \<open>Queries\<close>

datatype audit_column = AgentId | ServerId | ToolName | Status

record audit_select =
  \<comment> \<open>\<open>select(AuditEntry).order_by(desc(AuditEntry.timestamp))\<close> with its conditions\<close>
  aq_where :: "(audit_column \<times> string) list"
  aq_limit :: int
  aq_offset :: int

definition where_if :: "audit_column \<Rightarrow> string option \<Rightarrow> (audit_column \<times> string) list" where
  "where_if c v = (if truthy_opt v then [(c, the v)] else [])"

definition audit_statement ::
  "string option \<Rightarrow> string option \<Rightarrow> string option \<Rightarrow> string option \<Rightarrow> int \<Rightarrow> int \<Rightarrow> audit_select" where
  "audit_statement agent_id server_id tool_name status limit offset =
     \<lparr> aq_where = where_if AgentId agent_id @ where_if ServerId server_id @ where_if ToolName tool_name
                   @ where_if Status status,
       aq_limit = limit, aq_offset = offset \<rparr>"

definition opt_str :: "string option \<Rightarrow> json" where
  "opt_str v = (case v of None \<Rightarrow> JNull | Some s \<Rightarrow> JStr s)"

definition entry_row :: "audit_entry \<Rightarrow> jdict" where
  \<comment> \<open>the dict of a row, column by column; the timestamp is a number here\<close>
  "entry_row e =
     [(''id'', JStr (ad_id e)), (''timestamp'', JFloat (ad_timestamp e)), (''request_id'', JStr (ad_request_id e)),
      (''agent_id'', JStr (ad_agent_id e)), (''server_id'', JStr (ad_server_id e)),
      (''tool_name'', JStr (ad_tool_name e)), (''qualified_name'', JStr (ad_qualified_name e)),
      (''mutable'', JBool (ad_mutable e)), (''status'', JStr (ad_status e)), (''is_error'', JBool (ad_is_error e)),
      (''error_detail'', opt_str (ad_error_detail e)), (''latency_ms'', JFloat (ad_latency_ms e)),
      (''guardrail_blocked'', JBool (ad_guardrail_blocked e)), (''auth_denied'', JBool (ad_auth_denied e)),
      (''rate_limited'', JBool (ad_rate_limited e)), (''redacted'', JBool (ad_redacted e)),
      (''arguments_hash'', opt_str (ad_arguments_hash e))]"

definition audit_query ::
  "(audit_select \<Rightarrow> 'd \<Rightarrow> audit_entry list) \<Rightarrow> string option \<Rightarrow> string option \<Rightarrow> string option \<Rightarrow> string option \<Rightarrow>
   int \<Rightarrow> int \<Rightarrow> 'd \<Rightarrow> jdict list" where
  "audit_query execute agent_id server_id tool_name status limit offset d =
     map entry_row (execute (audit_statement agent_id server_id tool_name status limit offset) d)"

section \<open>The queue and the table\<close>

definition writes_batches ::
  "(audit_entry list \<Rightarrow> 'd \<Rightarrow> (string + unit) \<times> 'd) \<Rightarrow> ('d \<Rightarrow> audit_entry list) \<Rightarrow> bool" where
  "writes_batches commit rows \<longleftrightarrow>
     (\<forall>batch d. rows (snd (commit batch d)) = rows d @ (if isl (fst (commit batch d)) then [] else batch))"

datatype store_event = Recorded audit_entry | Flushed

fun store_step ::
  "(audit_entry list \<Rightarrow> 'd \<Rightarrow> (string + unit) \<times> 'd) \<Rightarrow> audit_store \<times> 'd \<Rightarrow> store_event \<Rightarrow> audit_store \<times> 'd" where
  "store_step commit (s, d) (Recorded e) = (put_nowait e s, d)"
| "store_step commit (s, d) Flushed = flush commit s d"

fun recorded :: "store_event list \<Rightarrow> audit_entry list" where
  "recorded [] = []"
| "recorded (Recorded e # evs) = e # recorded evs"
| "recorded (Flushed # evs) = recorded evs"

fun smooth :: "(audit_entry list \<Rightarrow> 'd \<Rightarrow> (string + unit) \<times> 'd) \<Rightarrow> audit_store \<times> 'd \<Rightarrow> store_event list \<Rightarrow> bool" where
  \<comment> \<open>no record meets a full queue and no commit fails\<close>
  "smooth commit st [] = True"
| "smooth commit st (ev # evs) =
     ((case ev of
         Recorded e \<Rightarrow> length (as_queue (fst st)) < QUEUE_MAX
       | Flushed \<Rightarrow> as_queue (fst st) = [] \<or> \<not> isl (fst (commit (take BATCH (as_queue (fst st))) (snd st)))) \<and>
      smooth commit (store_step commit st ev) evs)"

lemma flush_rows:
  assumes "writes_batches commit rows" and "flush commit s d = (s', d')"
  shows "rows d' = rows d @ (if isl (fst (commit (take BATCH (as_queue s)) d)) then [] else take BATCH (as_queue s)) \<or>
    as_queue s = [] \<and> rows d' = rows d"
  using assms by (auto simp: flush_def Let_def writes_batches_def BATCH_def split: if_splits)

lemma flush_queue: "as_queue (fst (flush commit s d)) = drop BATCH (as_queue s)"
  by (simp add: flush_def Let_def)

lemma step_conserves:
  assumes "writes_batches commit rows" and "smooth commit st (ev # evs)"
    and "store_step commit st ev = (s', d')"
  shows "rows d' @ as_queue s' = rows (snd st) @ as_queue (fst st) @ recorded [ev]"
proof (cases st)
  case (Pair s d)
  show ?thesis
  proof (cases ev)
    case (Recorded e)
    then show ?thesis using assms Pair by (auto simp: put_nowait_def)
  next
    case Flushed
    then have f: "flush commit s d = (s', d')" using assms(3) Pair by simp
    have "as_queue s' = drop BATCH (as_queue s)" using f flush_queue [of commit s d] by simp
    moreover have "rows d' = rows d @ take BATCH (as_queue s)"
      using flush_rows [OF assms(1) f] assms(2) Flushed Pair by (auto simp: isl_def)
    ultimately show ?thesis using Flushed Pair by simp
  qed
qed

lemma run_conserves:
  assumes "writes_batches commit rows"
  shows "smooth commit st evs \<Longrightarrow> run_events (store_step commit) st evs = (s', d') \<Longrightarrow>
    rows d' @ as_queue s' = rows (snd st) @ as_queue (fst st) @ recorded evs"
proof (induction evs arbitrary: st)
  case Nil
  then show ?case by simp
next
  case (Cons ev evs)
  obtain s1 d1 where one: "store_step commit st ev = (s1, d1)" by fastforce
  have "rows d' @ as_queue s' = rows d1 @ as_queue s1 @ recorded evs"
    using Cons.IH [of "(s1, d1)"] Cons.prems one by simp
  also have "\<dots> = rows (snd st) @ as_queue (fst st) @ recorded [ev] @ recorded evs"
    using step_conserves [OF assms Cons.prems(1) one] by simp
  also have "recorded [ev] @ recorded evs = recorded (ev # evs)" by (cases ev) simp_all
  finally show ?case .
qed

lemma step_bound: "length (as_queue (fst st)) \<le> QUEUE_MAX \<Longrightarrow> length (as_queue (fst (store_step commit st ev))) \<le> QUEUE_MAX"
  by (cases st; cases ev) (auto simp: put_nowait_def flush_queue)

interpretation audit_queue: det_machine "\<lambda>st. as_queue (fst st) = []" "store_step commit"
  "\<lambda>st. length (as_queue (fst st)) \<le> QUEUE_MAX"
  for commit :: "audit_entry list \<Rightarrow> 'd \<Rightarrow> (string + unit) \<times> 'd"
  by unfold_locales (simp_all add: step_bound)

section \<open>Properties\<close>

text \<open>C21. As long as no record meets a full queue and no commit fails, records are neither lost, repeated nor
  reordered: the table followed by the queue is the table and queue at the start followed by what
  was recorded. The queue never holds more than its bound.\<close>

theorem audit_log_is_complete:
  assumes "writes_batches commit rows" and "as_queue s = []"
    and "smooth commit (s, d) evs" and "run_events (store_step commit) (s, d) evs = (s', d')"
  shows "rows d' @ as_queue s' = rows d @ recorded evs \<and> length (as_queue s') \<le> QUEUE_MAX"
  using run_conserves [OF assms(1,3,4)] audit_queue.run_from_init [of "(s, d)" commit evs] assms(2,4) by simp

definition memory_commit :: "audit_entry list \<Rightarrow> audit_entry list \<Rightarrow> (string + unit) \<times> audit_entry list" where
  \<comment> \<open>a table in memory\<close>
  "memory_commit batch d = (Inr (), d @ batch)"

definition example_fields :: audit_fields where
  "example_fields =
     \<lparr> af_request_id = ''r1'', af_agent_id = ''bot'', af_server_id = ''pg'', af_tool_name = ''query'',
       af_qualified_name = ''pg.query'', af_mutable = False, af_status = ''ok'', af_is_error = False,
       af_error_detail = None, af_latency_ms = 3, af_guardrail_blocked = False, af_auth_denied = False,
       af_rate_limited = False, af_redacted = False, af_arguments = None \<rparr>"

definition example_entry :: audit_entry where
  "example_entry = make_entry (\<lambda>_. ''d1gest'') ''u1'' 7 example_fields"

lemma memory_ok: "writes_batches memory_commit id"
  by (simp add: writes_batches_def memory_commit_def)

theorem audit_log_is_complete_witness:
  "id (snd (run_events (store_step memory_commit) (new_audit_store, []) [Recorded example_entry, Flushed, Recorded example_entry]))
     @ as_queue (fst (run_events (store_step memory_commit) (new_audit_store, []) [Recorded example_entry, Flushed, Recorded example_entry]))
   = [example_entry, example_entry]"
  using audit_log_is_complete [OF memory_ok, of new_audit_store "[]" "[Recorded example_entry, Flushed, Recorded example_entry]"]
  by (simp add: new_audit_store_def put_nowait_def flush_def Let_def BATCH_def QUEUE_MAX_def memory_commit_def)

text \<open>Stopping the store writes at most one batch: of the records that still wait, the first 50 are written
  and the others are left in a queue nobody reads any more.\<close>

theorem stop_writes_one_batch:
  assumes "writes_batches commit rows" and "\<And>b e. fst (commit b e) = Inr ()"
    and "\<And>e. rows (dispose e) = rows e" and "stop_store commit dispose s d = (s', d')"
  shows "rows d' = rows d @ take 50 (as_queue s) \<and> as_queue s' = drop 50 (as_queue s) \<and> \<not> as_consumer s'"
  using assms by (auto simp: stop_store_def flush_def Let_def writes_batches_def BATCH_def split: prod.splits if_splits)

theorem stop_writes_one_batch_witness:
  "id (snd (stop_store memory_commit id \<lparr> as_queue = replicate 60 example_entry, as_consumer = True \<rparr> [])) =
   replicate 50 example_entry"
proof -
  let ?s = "\<lparr> as_queue = replicate 60 example_entry, as_consumer = True \<rparr>"
  obtain s' d' where r: "stop_store memory_commit id ?s [] = (s', d')" by fastforce
  have "id d' = id [] @ take 50 (as_queue ?s)"
    using stop_writes_one_batch [OF memory_ok _ _ r] by (simp add: memory_commit_def)
  then show ?thesis using r by (simp add: take_replicate)
qed

text \<open>A batch whose commit fails is lost: it has left the queue, and the table is unchanged.\<close>

theorem failed_commit_loses_batch:
  assumes "writes_batches commit rows" and "commit (take 50 (as_queue s)) d = (Inl exc, d1)"
    and "flush commit s d = (s', d')"
  shows "rows d' = rows d \<and> as_queue s' = drop 50 (as_queue s)"
  using assms by (auto simp: flush_def Let_def writes_batches_def BATCH_def split: if_splits)
    (metis append_Nil2 fst_conv isl_def snd_conv sum.disc(1))+

theorem failed_commit_loses_batch_witness:
  "as_queue (fst (flush (\<lambda>b d. (Inl ''disk full'', d)) \<lparr> as_queue = [example_entry], as_consumer = True \<rparr> ([] :: audit_entry list))) = []"
proof -
  let ?c = "\<lambda>(b :: audit_entry list) (d :: audit_entry list). (Inl ''disk full'', d) :: (string + unit) \<times> audit_entry list"
  let ?s = "\<lparr> as_queue = [example_entry], as_consumer = True \<rparr>"
  obtain s' d' where r: "flush ?c ?s [] = (s', d')" by fastforce
  have "writes_batches ?c id" by (simp add: writes_batches_def)
  from failed_commit_loses_batch [OF this _ r] have "as_queue s' = drop 50 (as_queue ?s)" by simp
  then show ?thesis using r by simp
qed

end
