(* ===== verification/Webhooks.thy ===== *)
theory Webhooks
  imports Gateway_Config
begin

text \<open>
  \<open>app/webhooks/dispatcher.py\<close>: which endpoints an event goes to, and how one delivery is signed, sent
  and repeated.

  The environment, the clock, the HMAC, the JSON text of a payload and the POST are the record
  \<open>http_env\<close>; \<open>'w\<close> is the outside a POST changes. \<open>dispatch\<close> returns the deliveries it schedules as
  background tasks; \<open>deliver\<close> returns its trace of requests and pauses.
\<close>

section \<open>Events\<close>

definition ALL_EVENTS :: "string list" where
  "ALL_EVENTS =
     [''tool_call_ok'', ''tool_call_error'', ''guardrail_block'', ''schema_invalid'', ''auth_deny'', ''rate_limit'',
      ''upstream_unavailable'', ''server_registered'', ''server_deregistered'', ''config_reloaded'']"

record 'w http_env =
  he_environ :: "string \<Rightarrow> string option"
  he_unix_time :: int                                \<comment> \<open>\<open>int(time.time())\<close>\<close>
  he_isoformat :: string                             \<comment> \<open>\<open>datetime.now(timezone.utc).isoformat()\<close>\<close>
  he_dumps :: "json \<Rightarrow> string"
  he_hmac :: "string \<Rightarrow> string \<Rightarrow> string"             \<comment> \<open>key, payload; the hex digest\<close>
  he_post :: "string \<Rightarrow> string \<Rightarrow> (string, string) dict \<Rightarrow> seconds \<Rightarrow> 'w \<Rightarrow> (string + int) \<times> 'w"

section \<open>One delivery\<close>

definition sign :: "'w http_env \<Rightarrow> string \<Rightarrow> string \<Rightarrow> string" where
  "sign he payload secret = ''sha256='' @ he_hmac he secret payload"

definition json_str :: "json option \<Rightarrow> string" where
  \<comment> \<open>\<open>payload.get("event_id", "")\<close>, which is a string here\<close>
  "json_str v = (case v of Some (JStr s) \<Rightarrow> s | _ \<Rightarrow> [])"

definition delivery_headers :: "'w http_env \<Rightarrow> webhook_config \<Rightarrow> string \<Rightarrow> jdict \<Rightarrow> (string, string) dict" where
  "delivery_headers he cfg event_type payload =
     (let headers = [(''Content-Type'', ''application/json''), (''X-MCP-Event'', event_type),
                     (''X-MCP-Delivery'', json_str (dict_get payload ''event_id'')),
                     (''X-MCP-Timestamp'', show_int (he_unix_time he))];
          secret = (if truthy_opt (wh_secret_env cfg)
                    then (case he_environ he (the (wh_secret_env cfg)) of None \<Rightarrow> [] | Some s \<Rightarrow> s) else [])
      in if secret \<noteq> []
         then dict_put ''X-MCP-Signature-256'' (sign he (he_dumps he (JDict payload)) secret) headers else headers)"

datatype delivery_step =
    Posted string string "(string, string) dict"     \<comment> \<open>url, body, headers\<close>
  | Slept seconds

fun deliver_attempts ::
  "nat \<Rightarrow> seconds \<Rightarrow> 'w http_env \<Rightarrow> webhook_config \<Rightarrow> string \<Rightarrow> (string, string) dict \<Rightarrow> 'w \<Rightarrow>
   bool \<times> delivery_step list \<times> 'w" where
  \<comment> \<open>the loop, with the number of attempts left and the next pause; whether a reply below 500 came\<close>
  "deliver_attempts 0 delay he cfg body headers w = (False, [], w)"
| "deliver_attempts (Suc left) delay he cfg body headers w =
     (let (r, w1) = he_post he (wh_url cfg) body headers (wh_timeout cfg) w;
          accepted = (case r of Inl exc \<Rightarrow> False | Inr status \<Rightarrow> status < 500)
      in if accepted then (True, [Posted (wh_url cfg) body headers], w1)
         else if 0 < left then
           (let (ok, steps, w2) = deliver_attempts left (delay * 2) he cfg body headers w1
            in (ok, Posted (wh_url cfg) body headers # Slept delay # steps, w2))
         else (False, [Posted (wh_url cfg) body headers], w1))"

definition deliver ::
  "'w http_env \<Rightarrow> webhook_config \<Rightarrow> string \<Rightarrow> jdict \<Rightarrow> 'w \<Rightarrow> bool \<times> delivery_step list \<times> 'w" where
  "deliver he cfg event_type payload w =
     deliver_attempts (nat (wh_max_retries cfg)) (1 / 2) he cfg (he_dumps he (JDict payload))
       (delivery_headers he cfg event_type payload) w"

section \<open>The dispatcher\<close>

record dispatcher =
  dp_configs :: "webhook_config list"
  dp_seq :: nat

definition new_dispatcher :: "webhook_config list \<Rightarrow> dispatcher" where
  "new_dispatcher configs = \<lparr> dp_configs = configs, dp_seq = 0 \<rparr>"

definition next_id :: "int \<Rightarrow> dispatcher \<Rightarrow> string \<times> dispatcher" where
  "next_id unix_time dp =
     (let n = dp_seq dp + 1
      in (''evt_'' @ show_int unix_time @ ''_'' @ show_nat n, dp\<lparr> dp_seq := n \<rparr>))"

record delivery =
  dl_config :: webhook_config
  dl_event :: string
  dl_payload :: jdict

definition interested :: "string \<Rightarrow> webhook_config \<Rightarrow> bool" where
  "interested event_type cfg \<longleftrightarrow> wh_events cfg = [] \<or> event_type \<in> set (wh_events cfg)"

definition event_payload :: "'w http_env \<Rightarrow> string \<Rightarrow> string \<Rightarrow> jdict \<Rightarrow> jdict" where
  "event_payload he event_id event_type data =
     fold (\<lambda>(k, v) d. dict_put k v d) data
       [(''event_id'', JStr event_id), (''event_type'', JStr event_type), (''timestamp'', JStr (he_isoformat he))]"

definition dispatch :: "'w http_env \<Rightarrow> string \<Rightarrow> jdict \<Rightarrow> dispatcher \<Rightarrow> delivery list \<times> dispatcher" where
  \<comment> \<open>the deliveries scheduled, in the order of the endpoints\<close>
  "dispatch he event_type data dp =
     (if dp_configs dp = [] then ([], dp)
      else
        (let (event_id, dp') = next_id (he_unix_time he) dp;
             payload = event_payload he event_id event_type data
         in (map (\<lambda>cfg. \<lparr> dl_config = cfg, dl_event = event_type, dl_payload = payload \<rparr>)
               (filter (interested event_type) (dp_configs dp)), dp')))"

section \<open>The trace of a delivery\<close>

fun posts :: "delivery_step list \<Rightarrow> nat" where
  "posts [] = 0"
| "posts (Posted u b h # ss) = Suc (posts ss)"
| "posts (Slept d # ss) = posts ss"

fun pauses :: "delivery_step list \<Rightarrow> seconds list" where
  "pauses [] = []"
| "pauses (Posted u b h # ss) = pauses ss"
| "pauses (Slept d # ss) = d # pauses ss"

lemma deliver_attempts_trace:
  "deliver_attempts n delay he cfg body headers w = (ok, steps, w') \<Longrightarrow>
   posts steps \<le> n \<and> (\<not> ok \<longrightarrow> posts steps = n) \<and> (0 < n \<longrightarrow> 0 < posts steps) \<and>
   pauses steps = map (\<lambda>k. delay * 2 ^ k) [0..<posts steps - 1] \<and>
   (\<forall>u b h. Posted u b h \<in> set steps \<longrightarrow> u = wh_url cfg \<and> b = body \<and> h = headers)"
proof (induction n delay he cfg body headers w arbitrary: ok steps w' rule: deliver_attempts.induct)
  case (1 delay he cfg body headers w)
  then show ?case by simp
next
  case (2 left delay he cfg body headers w)
  obtain r w1 where r: "he_post he (wh_url cfg) body headers (wh_timeout cfg) w = (r, w1)" by fastforce
  let ?accepted = "case r of Inl exc \<Rightarrow> False | Inr status \<Rightarrow> status < 500"
  show ?case
  proof (cases "\<not> ?accepted \<and> 0 < left")
    case False
    then show ?thesis using "2.prems" r by (auto simp: Let_def split: if_splits)
  next
    case True
    obtain ok2 steps2 w2 where rest: "deliver_attempts left (delay * 2) he cfg body headers w1 = (ok2, steps2, w2)"
      by (rule prod_cases3)
    have s: "ok = ok2" "steps = Posted (wh_url cfg) body headers # Slept delay # steps2"
      using "2.prems" True r rest by auto
    have ih: "posts steps2 \<le> left \<and> (\<not> ok2 \<longrightarrow> posts steps2 = left) \<and> (0 < left \<longrightarrow> 0 < posts steps2) \<and>
        pauses steps2 = map (\<lambda>k. delay * 2 * 2 ^ k) [0..<posts steps2 - 1] \<and>
        (\<forall>u b h. Posted u b h \<in> set steps2 \<longrightarrow> u = wh_url cfg \<and> b = body \<and> h = headers)"
      using "2.IH" r rest True by auto
    then obtain m where m: "posts steps2 = Suc m" using True gr0_implies_Suc by blast
    have "pauses steps = delay # map (\<lambda>k. delay * 2 * 2 ^ k) [0..<m]" using s ih m by simp
    also have "\<dots> = map (\<lambda>k. delay * 2 ^ k) [0..<Suc m]"
      by (subst upt_conv_Cons) (simp_all add: map_Suc_upt [symmetric] mult.assoc del: upt_Suc)
    finally show ?thesis using s ih m by auto
  qed
qed

section \<open>Properties\<close>

text \<open>C38. A delivery posts the same signed request at most \<open>max_retries\<close> times, and exactly that often when
  no reply below 500 comes; between two requests it pauses half a second, then twice as long each
  time, and it does not pause after the last.\<close>

theorem delivery_backs_off:
  assumes "deliver he cfg event_type payload w = (ok, steps, w')"
  shows "posts steps \<le> nat (wh_max_retries cfg) \<and> (\<not> ok \<longrightarrow> posts steps = nat (wh_max_retries cfg)) \<and>
    pauses steps = map (\<lambda>k. 1 / 2 * 2 ^ k) [0..<posts steps - 1] \<and>
    (\<forall>u b h. Posted u b h \<in> set steps \<longrightarrow>
       u = wh_url cfg \<and> b = he_dumps he (JDict payload) \<and> h = delivery_headers he cfg event_type payload)"
  using deliver_attempts_trace [OF assms [unfolded deliver_def]] by simp

definition failing_post :: "unit http_env" where
  \<comment> \<open>an endpoint that always answers 503\<close>
  "failing_post =
     \<lparr> he_environ = (\<lambda>v. None), he_unix_time = 1700000000, he_isoformat = ''2024-01-01T00:00:00+00:00'',
       he_dumps = (\<lambda>v. ''{}''), he_hmac = (\<lambda>key payload. ''00''), he_post = (\<lambda>url body headers timeout w. (Inr 503, w)) \<rparr>"

theorem delivery_backs_off_witness:
  "pauses (fst (snd (deliver failing_post (webhook_to ''https://siem'') ''auth_deny'' [] ()))) = [1 / 2, 1]"
proof -
  obtain ok steps w' where d: "deliver failing_post (webhook_to ''https://siem'') ''auth_deny'' [] () = (ok, steps, w')"
    by (rule prod_cases3)
  have "\<not> ok" using d
    by (simp add: deliver_def webhook_to_def failing_post_def eval_nat_numeral)
  then show ?thesis
    using delivery_backs_off [OF d] d by (simp add: webhook_to_def upt_rec)
qed

text \<open>An event is delivered to exactly the endpoints that name it or name no event, once each and with the
  same payload, whose id no other event of the dispatcher has had: the sequence number grows by one
  with every dispatched event.\<close>

theorem dispatch_reaches_interested:
  assumes "dp_configs dp \<noteq> []" and "dispatch he event_type data dp = (ds, dp')"
  shows "map dl_config ds = filter (interested event_type) (dp_configs dp) \<and>
    (\<forall>d \<in> set ds. dl_event d = event_type \<and>
       dl_payload d = event_payload he (fst (next_id (he_unix_time he) dp)) event_type data) \<and>
    dp_seq dp' = Suc (dp_seq dp) \<and> dp_configs dp' = dp_configs dp"
  using assms by (auto simp: dispatch_def next_id_def Let_def comp_def)

theorem dispatch_reaches_interested_witness:
  "map (wh_url \<circ> dl_config) (fst (dispatch failing_post ''auth_deny'' []
     (new_dispatcher [webhook_to ''https://a'', (webhook_to ''https://b'')\<lparr> wh_events := [''tool_call_ok''] \<rparr>]))) =
   [''https://a'']"
proof -
  let ?dp = "new_dispatcher [webhook_to ''https://a'', (webhook_to ''https://b'')\<lparr> wh_events := [''tool_call_ok''] \<rparr>]"
  obtain ds dp' where d: "dispatch failing_post ''auth_deny'' [] ?dp = (ds, dp')" by fastforce
  have "map dl_config ds = [webhook_to ''https://a'']"
    using dispatch_reaches_interested [OF _ d]
    by (simp add: new_dispatcher_def interested_def webhook_to_def)
  then have "map wh_url (map dl_config ds) = [''https://a'']" by (simp add: webhook_to_def)
  then show ?thesis using d by simp
qed

end
