(* ===== verification/Orchestrator.thy ===== *)
theory Orchestrator
  imports Auth Rate_Limit Guardrails Redaction Tool_Cache Registry Audit_Log Webhooks
begin

text \<open>
  \<open>app/orchestrator/orchestrator.py\<close>: resolving a tool, the checks a call passes in order, the cache, the
  upstream call, and what is counted, recorded and announced on every way out.

  \<open>gateway_env\<close> collects the outside of the components used; \<open>call_context\<close> holds the readings of the
  clocks, the request id and the fresh audit id of one call. A method returns its result or exception,
  the orchestrator it leaves, the outside, the metric updates in order and the webhook deliveries it
  schedules. The handler for exceptions other than \<open>UpstreamError\<close> around the upstream call (code 500)
  has no branch: \<open>MCPClient.call_tool\<close> raises no other.
\<close>

section \<open>Errors\<close>

datatype refusal =
    RefusedAuth auth_error
  | RefusedRate string seconds                          \<comment> \<open>scope, retry after\<close>
  | RefusedGuardrail guardrail_violation
  | RefusedSchema schema_message "field_error list"
  | FailedUpstream upstream_error

datatype orchestration_message =
    UnknownServer string
  | UnresolvedTool string
  | ServerDisabled string
  | Because refusal                                     \<comment> \<open>\<open>str(exc)\<close>, for an upstream error with its prefix\<close>

datatype orchestrator_exc =
    OrchestrationError orchestration_message int        \<comment> \<open>with its code\<close>
  | EscapedZeroDivision
  | EscapedValidator string

section \<open>State\<close>

record tool_call_result =
  cr_server_id :: string
  cr_tool :: string
  cr_content :: json
  cr_is_error :: bool
  cr_latency_ms :: rat
  cr_redacted :: bool
  cr_cached :: bool

record tool_manifest =
  tm_tools :: "tool_definition list"
  tm_generated_at :: string
  tm_server_count :: nat

record ('c, 's) orchestrator =
  ox_registry :: "('c, 's) server_registry"
  ox_authorizer :: authorizer
  ox_redactor :: redactor
  ox_safety :: safety_filter
  ox_rate_limiter :: "rate_limiter option"
  ox_audit :: "audit_store option"
  ox_schema :: "schema_validation_config option"
  ox_cache :: "(tool_manifest, json) tool_cache option"
  ox_webhooks :: "dispatcher option"

record ('w, 'c, 's) gateway_env =
  ge_outside :: "('w, 'c, 's) outside"
  ge_digest :: "json \<Rightarrow> string"
  ge_draft7 :: draft7
  ge_http :: "'w http_env"
  ge_show :: "refusal \<Rightarrow> string"                      \<comment> \<open>\<open>str(exc)\<close>\<close>

record call_context =
  cx_request_id :: "string option"
  cx_limiter :: limiter_times
  cx_cache_get :: seconds
  cx_cache_set :: seconds
  cx_start :: seconds
  cx_end :: seconds
  cx_uuid :: string
  cx_now :: seconds

section \<open>The manifest\<close>

definition build_manifest ::
  "seconds \<Rightarrow> seconds \<Rightarrow> string \<Rightarrow> string option \<Rightarrow> ('c, 's) orchestrator \<Rightarrow> tool_manifest \<times> ('c, 's) orchestrator" where
  \<comment> \<open>with the clock at the lookup and at the store, and the time as text\<close>
  "build_manifest now now' generated_at tag ox =
     (let (cached, ox1) =
            (case ox_cache ox of
               Some c \<Rightarrow> if tag = None then (let (m, c') = get_manifest now c in (m, ox\<lparr> ox_cache := Some c' \<rparr>))
                         else (None, ox)
             | None \<Rightarrow> (None, ox))
      in case cached of
           Some m \<Rightarrow> (m, ox1)
         | None \<Rightarrow>
             (let chosen = filter (\<lambda>(sid, e). re_healthy e \<and>
                      \<not> (truthy_opt tag \<and> the tag \<notin> set (us_tags (re_server e))))
                    (enabled_entries (ox_registry ox1));
                  manifest = \<lparr> tm_tools = concat (map (\<lambda>(sid, e). re_tools e) chosen), tm_generated_at = generated_at,
                               tm_server_count = length chosen \<rparr>
              in (manifest,
                  (case ox_cache ox1 of
                     Some c \<Rightarrow> if tag = None then ox1\<lparr> ox_cache := Some (set_manifest now' manifest c) \<rparr> else ox1
                   | None \<Rightarrow> ox1))))"

section \<open>Routing\<close>

definition strip_prefix :: "upstream_server \<Rightarrow> string \<Rightarrow> string" where
  "strip_prefix server name =
     (let prefix = effective_prefix server
      in if starts_with (prefix @ ''.'') name then drop (length prefix + 1) name else name)"

definition resolve ::
  "('c, 's) server_registry \<Rightarrow> string \<Rightarrow> string option \<Rightarrow>
   orchestrator_exc + string \<times> ('c, 's) registry_entry \<times> string" where
  \<comment> \<open>the entry's key, the entry and the raw tool name\<close>
  "resolve rg name server_id =
     (case server_id of
        Some sid \<Rightarrow>
          (case dict_get (rg_entries rg) sid of
             None \<Rightarrow> Inl (OrchestrationError (UnknownServer sid) 404)
           | Some e \<Rightarrow> Inr (sid, e, strip_prefix (re_server e) name))
      | None \<Rightarrow>
          (case find_by_qualified_tool rg name of
             None \<Rightarrow> Inl (OrchestrationError (UnresolvedTool name) 404)
           | Some (sid, raw) \<Rightarrow> Inr (sid, the (dict_get (rg_entries rg) sid), raw)))"

record 'e target =
  tg_sid :: string
  tg_entry :: 'e
  tg_raw :: string

definition tg_server :: "('c, 's) registry_entry target \<Rightarrow> upstream_server" where
  "tg_server tg = re_server (tg_entry tg)"

definition tg_qualified :: "('c, 's) registry_entry target \<Rightarrow> string" where
  "tg_qualified tg = effective_prefix (tg_server tg) @ ''.'' @ tg_raw tg"

definition tg_mutable :: "('c, 's) registry_entry target \<Rightarrow> bool" where
  "tg_mutable tg \<longleftrightarrow> tg_raw tg \<in> set (us_mutable_tools (tg_server tg))"

section \<open>The checks before the call\<close>

definition tool_schema :: "('c, 's) registry_entry target \<Rightarrow> jdict option" where
  "tool_schema tg =
     map_option td_input_schema
       (find (\<lambda>t. td_name t = tg_qualified tg \<or> td_name t = tg_raw tg) (re_tools (tg_entry tg)))"

definition rate_stage ::
  "call_context \<Rightarrow> string \<Rightarrow> string \<Rightarrow> ('c, 's) orchestrator \<Rightarrow> (limiter_error + unit) \<times> ('c, 's) orchestrator" where
  "rate_stage cx agent qualified ox =
     (case ox_rate_limiter ox of
        None \<Rightarrow> (Inr (), ox)
      | Some rl \<Rightarrow> (let (r, rl') = rate_check (cx_limiter cx) agent qualified rl
                    in (r, ox\<lparr> ox_rate_limiter := Some rl' \<rparr>)))"

definition schema_stage ::
  "('w, 'c, 's) gateway_env \<Rightarrow> ('c, 's) registry_entry target \<Rightarrow> jdict \<Rightarrow> ('c, 's) orchestrator \<Rightarrow>
   (schema_failure + unit) \<times> metric list" where
  "schema_stage env tg arguments ox =
     (case ox_schema ox of
        None \<Rightarrow> (Inr (), [])
      | Some cfg \<Rightarrow> validate_arguments (ge_draft7 env) cfg (tg_raw tg) arguments (tool_schema tg))"

datatype check_failure =
    Refused refusal
  | Escaping orchestrator_exc

definition admit ::
  "('w, 'c, 's) gateway_env \<Rightarrow> call_context \<Rightarrow> principal \<Rightarrow> ('c, 's) registry_entry target \<Rightarrow> jdict \<Rightarrow>
   ('c, 's) orchestrator \<Rightarrow> (check_failure + unit) \<times> ('c, 's) orchestrator \<times> metric list" where
  \<comment> \<open>authorization, rate limit, guardrails, schema, in this order; the first that refuses ends it\<close>
  "admit env cx p tg arguments ox =
     (case authorize_tool_call (az_policy (ox_authorizer ox)) p (tg_raw tg) (tg_qualified tg) (tg_mutable tg) of
        (Inl e, ms) \<Rightarrow> (Inl (Refused (RefusedAuth e)), ox, ms)
      | (Inr _, ms) \<Rightarrow>
          (case rate_stage cx (pr_agent_id p) (tg_qualified tg) ox of
             (Inl (RateLimitExceeded scope retry), ox1) \<Rightarrow> (Inl (Refused (RefusedRate scope retry)), ox1, ms)
           | (Inl ZeroDivision, ox1) \<Rightarrow> (Inl (Escaping EscapedZeroDivision), ox1, ms)
           | (Inr _, ox1) \<Rightarrow>
               (case safety_check (ox_safety ox1) (tg_raw tg) arguments of
                  (Inl v, ms2) \<Rightarrow> (Inl (Refused (RefusedGuardrail v)), ox1, ms @ ms2)
                | (Inr _, ms2) \<Rightarrow>
                    (case schema_stage env tg arguments ox1 of
                       (Inl (SchemaValidationError m errs), ms3) \<Rightarrow>
                         (Inl (Refused (RefusedSchema m errs)), ox1, ms @ ms2 @ ms3)
                     | (Inl (ValidatorRaised x), ms3) \<Rightarrow>
                         (Inl (Escaping (EscapedValidator x)), ox1, ms @ ms2 @ ms3)
                     | (Inr _, ms3) \<Rightarrow> (Inr (), ox1, ms @ ms2 @ ms3)))))"

section \<open>What a way out leaves behind\<close>

fun refusal_status :: "refusal \<Rightarrow> string" where
  "refusal_status (RefusedAuth e) = ''auth_denied''"
| "refusal_status (RefusedRate scope retry) = ''rate_limited''"
| "refusal_status (RefusedGuardrail v) = ''guardrail_blocked''"
| "refusal_status (RefusedSchema m errs) = ''schema_invalid''"
| "refusal_status (FailedUpstream e) = ''upstream_error''"

fun refusal_code :: "refusal \<Rightarrow> int" where
  "refusal_code (RefusedAuth e) = 403"
| "refusal_code (RefusedRate scope retry) = 429"
| "refusal_code (RefusedGuardrail v) = 422"
| "refusal_code (RefusedSchema m errs) = 422"
| "refusal_code (FailedUpstream e) = 502"

definition base_fields ::
  "call_context \<Rightarrow> principal \<Rightarrow> ('c, 's) registry_entry target \<Rightarrow> jdict \<Rightarrow> audit_fields" where
  "base_fields cx p tg arguments =
     \<lparr> af_request_id = str_or (cx_request_id cx) ''unknown'', af_agent_id = pr_agent_id p,
       af_server_id = us_id (tg_server tg), af_tool_name = tg_raw tg, af_qualified_name = tg_qualified tg,
       af_mutable = tg_mutable tg, af_status = ''ok'', af_is_error = False, af_error_detail = None,
       af_latency_ms = 0, af_guardrail_blocked = False, af_auth_denied = False, af_rate_limited = False,
       af_redacted = False, af_arguments = Some arguments \<rparr>"

definition refusal_fields :: "('w, 'c, 's) gateway_env \<Rightarrow> refusal \<Rightarrow> rat \<Rightarrow> audit_fields \<Rightarrow> audit_fields" where
  \<comment> \<open>the overrides each handler passes; only the upstream error has a latency\<close>
  "refusal_fields env r latency f =
     f\<lparr> af_status := refusal_status r, af_is_error := True, af_error_detail := Some (ge_show env r),
        af_auth_denied := (case r of RefusedAuth e \<Rightarrow> True | _ \<Rightarrow> False),
        af_rate_limited := (case r of RefusedRate s t \<Rightarrow> True | _ \<Rightarrow> False),
        af_guardrail_blocked := (case r of RefusedGuardrail v \<Rightarrow> True | _ \<Rightarrow> False),
        af_latency_ms := (case r of FailedUpstream e \<Rightarrow> latency | _ \<Rightarrow> af_latency_ms f) \<rparr>"

definition emit_audit ::
  "('w, 'c, 's) gateway_env \<Rightarrow> call_context \<Rightarrow> audit_fields \<Rightarrow> ('c, 's) orchestrator \<Rightarrow> ('c, 's) orchestrator" where
  "emit_audit env cx f ox =
     (case ox_audit ox of
        None \<Rightarrow> ox
      | Some st \<Rightarrow> ox\<lparr> ox_audit := Some (audit_record (ge_digest env) (cx_uuid cx) (cx_now cx) f st) \<rparr>)"

definition announce ::
  "('w, 'c, 's) gateway_env \<Rightarrow> string \<Rightarrow> jdict \<Rightarrow> ('c, 's) orchestrator \<Rightarrow> delivery list \<times> ('c, 's) orchestrator" where
  "announce env event_type data ox =
     (case ox_webhooks ox of
        None \<Rightarrow> ([], ox)
      | Some dp \<Rightarrow> (let (ds, dp') = dispatch (ge_http env) event_type data dp
                    in (ds, ox\<lparr> ox_webhooks := Some dp' \<rparr>)))"

definition event_base :: "principal \<Rightarrow> ('c, 's) registry_entry target \<Rightarrow> jdict" where
  "event_base p tg =
     [(''agent_id'', JStr (pr_agent_id p)), (''server_id'', JStr (us_id (tg_server tg))), (''tool'', JStr (tg_raw tg))]"

definition error_json :: "field_error \<Rightarrow> json" where
  "error_json e = JDict [(''field'', JStr (fe_field e)), (''error'', JStr (fe_error e))]"

definition refusal_event ::
  "('w, 'c, 's) gateway_env \<Rightarrow> principal \<Rightarrow> ('c, 's) registry_entry target \<Rightarrow> rat \<Rightarrow> refusal \<Rightarrow> (string \<times> jdict) option" where
  "refusal_event env p tg latency r =
     (case r of
        RefusedAuth e \<Rightarrow> None
      | RefusedRate scope retry \<Rightarrow> None
      | RefusedGuardrail v \<Rightarrow> Some (''guardrail_block'', event_base p tg @ [(''reason'', JStr (ge_show env r))])
      | RefusedSchema m errs \<Rightarrow> Some (''schema_invalid'', event_base p tg @ [(''errors'', JList (map error_json errs))])
      | FailedUpstream e \<Rightarrow>
          Some (''tool_call_error'',
                event_base p tg @ [(''error'', JStr (ge_show env r)), (''latency_ms'', JFloat latency)]))"

type_synonym ('w, 'c, 's) outcome =
  "(orchestrator_exc + tool_call_result) \<times> ('c, 's) orchestrator \<times> 'w \<times> metric list \<times> delivery list"

definition refuse ::
  "('w, 'c, 's) gateway_env \<Rightarrow> call_context \<Rightarrow> principal \<Rightarrow> ('c, 's) registry_entry target \<Rightarrow> jdict \<Rightarrow> rat \<Rightarrow>
   refusal \<Rightarrow> metric list \<Rightarrow> ('c, 's) orchestrator \<Rightarrow> 'w \<Rightarrow> ('w, 'c, 's) outcome" where
  \<comment> \<open>an exception handler: count, record, announce, raise\<close>
  "refuse env cx p tg arguments latency r ms ox w =
     (let ox1 = emit_audit env cx (refusal_fields env r latency (base_fields cx p tg arguments)) ox;
          (ds, ox2) = (case refusal_event env p tg latency r of
                         None \<Rightarrow> ([], ox1) | Some (event_type, data) \<Rightarrow> announce env event_type data ox1)
      in (Inl (OrchestrationError (Because r) (refusal_code r)), ox2, w,
          ms @ [ToolCallsTotal (us_id (tg_server tg)) (tg_raw tg) (refusal_status r)], ds))"

section \<open>The call\<close>

definition redact_arguments :: "redactor \<Rightarrow> jdict \<Rightarrow> (jdict \<times> bool) \<times> metric list" where
  \<comment> \<open>\<open>self.redactor.redact(arguments, direction="request")\<close>: the redaction of a dict is a dict\<close>
  "redact_arguments rd arguments =
     (let ((v, changed), ms) = redact rd ''request'' (JDict arguments)
      in ((case v of JDict d \<Rightarrow> d | _ \<Rightarrow> [], changed), ms))"

definition cache_lookup ::
  "('w, 'c, 's) gateway_env \<Rightarrow> call_context \<Rightarrow> ('c, 's) registry_entry target \<Rightarrow> jdict \<Rightarrow> ('c, 's) orchestrator \<Rightarrow>
   json option \<times> ('c, 's) orchestrator" where
  \<comment> \<open>a stored \<open>None\<close> counts as no result\<close>
  "cache_lookup env cx tg args ox =
     (case ox_cache ox of
        None \<Rightarrow> (None, ox)
      | Some c \<Rightarrow>
          if tg_mutable tg then (None, ox)
          else (let (r, c') = get_result (ge_digest env) (cx_cache_get cx) (tg_qualified tg) args c
                in (if r = Some JNull then None else r, ox\<lparr> ox_cache := Some c' \<rparr>)))"

definition cache_store ::
  "('w, 'c, 's) gateway_env \<Rightarrow> call_context \<Rightarrow> ('c, 's) registry_entry target \<Rightarrow> jdict \<Rightarrow> json \<Rightarrow> ('c, 's) orchestrator \<Rightarrow>
   ('c, 's) orchestrator" where
  "cache_store env cx tg args clean ox =
     (case ox_cache ox of
        None \<Rightarrow> ox
      | Some c \<Rightarrow>
          if tg_mutable tg then ox
          else ox\<lparr> ox_cache := Some (set_result (ge_digest env) (cx_cache_set cx) (tg_qualified tg) args clean c) \<rparr>)"

definition complete ::
  "('w, 'c, 's) gateway_env \<Rightarrow> call_context \<Rightarrow> principal \<Rightarrow> ('c, 's) registry_entry target \<Rightarrow> jdict \<Rightarrow> jdict \<Rightarrow> bool \<Rightarrow>
   metric list \<Rightarrow> upstream_error + json \<Rightarrow> ('c, 's) orchestrator \<Rightarrow> 'w \<Rightarrow> ('w, 'c, 's) outcome" where
  \<comment> \<open>from the upstream's answer to the end; \<open>args\<close> are the redacted arguments\<close>
  "complete env cx p tg arguments args req_redacted ms r ox w =
     (let elapsed = cx_end cx - cx_start cx;
          latency = py_round (elapsed * 1000) 2;
          sid = us_id (tg_server tg);
          ms1 = ms @ [ToolCallLatency sid (tg_raw tg) elapsed]
      in case r of
           Inl exc \<Rightarrow> refuse env cx p tg arguments latency (FailedUpstream exc) ms1 ox w
         | Inr raw_result \<Rightarrow>
             (let ((clean, resp_redacted), ms2) = redact (ox_redactor ox) ''response'' raw_result;
                  was_redacted = (req_redacted \<or> resp_redacted);
                  ox2 = cache_store env cx tg args clean ox;
                  ox3 = emit_audit env cx ((base_fields cx p tg arguments)
                          \<lparr> af_latency_ms := latency, af_redacted := was_redacted \<rparr>) ox2;
                  (ds, ox4) = announce env ''tool_call_ok'' (event_base p tg @ [(''latency_ms'', JFloat latency)]) ox3
              in (Inr \<lparr> cr_server_id = sid, cr_tool = tg_raw tg, cr_content = clean, cr_is_error = False,
                        cr_latency_ms = latency, cr_redacted = was_redacted, cr_cached = False \<rparr>,
                  ox4, w, ms1 @ [ToolCallsTotal sid (tg_raw tg) ''ok''] @ ms2, ds)))"

definition forward ::
  "('w, 'c, 's) gateway_env \<Rightarrow> call_context \<Rightarrow> principal \<Rightarrow> ('c, 's) registry_entry target \<Rightarrow> jdict \<Rightarrow> jdict \<Rightarrow> bool \<Rightarrow>
   metric list \<Rightarrow> ('c, 's) orchestrator \<Rightarrow> 'w \<Rightarrow> ('w, 'c, 's) outcome" where
  \<comment> \<open>the upstream call and what follows\<close>
  "forward env cx p tg arguments args req_redacted ms ox w =
     (let (r, rg', w') = client_call (ge_outside env) (tg_sid tg) (tg_entry tg) (tg_raw tg) args
            (Some (pr_agent_id p)) (ox_registry ox) w
      in complete env cx p tg arguments args req_redacted ms r (ox\<lparr> ox_registry := rg' \<rparr>) w')"

datatype ('w, 'c, 's) prepared =
    Finished "('w, 'c, 's) outcome"
  | Ready "('c, 's) registry_entry target" jdict bool "metric list" "('c, 's) orchestrator"
      \<comment> \<open>the target, the redacted arguments, whether redaction changed them, what was counted\<close>

definition prepare ::
  "('w, 'c, 's) gateway_env \<Rightarrow> call_context \<Rightarrow> principal \<Rightarrow> string \<Rightarrow> jdict \<Rightarrow> string option \<Rightarrow>
   ('c, 's) orchestrator \<Rightarrow> 'w \<Rightarrow> ('w, 'c, 's) prepared" where
  \<comment> \<open>what a call does before it turns to the upstream server\<close>
  "prepare env cx p name arguments server_id ox w =
     (case resolve (ox_registry ox) name server_id of
        Inl exc \<Rightarrow> Finished (Inl exc, ox, w, [], [])
      | Inr (sid, e, raw) \<Rightarrow>
          if \<not> us_enabled (re_server e)
          then Finished (Inl (OrchestrationError (ServerDisabled (us_id (re_server e))) 503), ox, w, [], [])
          else
            (let tg = \<lparr> tg_sid = sid, tg_entry = e, tg_raw = raw \<rparr>
             in case admit env cx p tg arguments ox of
                  (Inl (Escaping exc), ox1, ms) \<Rightarrow> Finished (Inl exc, ox1, w, ms, [])
                | (Inl (Refused r), ox1, ms) \<Rightarrow> Finished (refuse env cx p tg arguments 0 r ms ox1 w)
                | (Inr _, ox1, ms) \<Rightarrow>
                    (let ((args, req_redacted), ms2) = redact_arguments (ox_redactor ox1) arguments;
                         (hit, ox2) = cache_lookup env cx tg args ox1
                     in case hit of
                          Some content \<Rightarrow>
                            Finished (Inr \<lparr> cr_server_id = us_id (re_server e), cr_tool = raw, cr_content = content,
                                   cr_is_error = False, cr_latency_ms = 0, cr_redacted = req_redacted,
                                   cr_cached = True \<rparr>, ox2, w, ms @ ms2, [])
                        | None \<Rightarrow> Ready tg args req_redacted (ms @ ms2) ox2)))"

definition tool_call ::
  "('w, 'c, 's) gateway_env \<Rightarrow> call_context \<Rightarrow> principal \<Rightarrow> string \<Rightarrow> jdict \<Rightarrow> string option \<Rightarrow>
   ('c, 's) orchestrator \<Rightarrow> 'w \<Rightarrow> ('w, 'c, 's) outcome" where
  "tool_call env cx p name arguments server_id ox w =
     (case prepare env cx p name arguments server_id ox w of
        Finished out \<Rightarrow> out
      | Ready tg args req_redacted ms ox' \<Rightarrow> forward env cx p tg arguments args req_redacted ms ox' w)"

section \<open>What each step leaves alone\<close>

lemma emit_audit_frame [simp]:
  "ox_registry (emit_audit env cx f ox) = ox_registry ox"
  "ox_cache (emit_audit env cx f ox) = ox_cache ox"
  "ox_webhooks (emit_audit env cx f ox) = ox_webhooks ox"
  "ox_rate_limiter (emit_audit env cx f ox) = ox_rate_limiter ox"
  "ox_authorizer (emit_audit env cx f ox) = ox_authorizer ox"
  "ox_redactor (emit_audit env cx f ox) = ox_redactor ox"
  by (simp_all add: emit_audit_def split: option.splits)

lemma emit_audit_audit:
  "ox_audit (emit_audit env cx f ox) = map_option (audit_record (ge_digest env) (cx_uuid cx) (cx_now cx) f) (ox_audit ox)"
  by (simp add: emit_audit_def split: option.splits)

lemma announce_frame:
  "announce env event_type data ox = (ds, ox') \<Longrightarrow>
   ox_registry ox' = ox_registry ox \<and> ox_cache ox' = ox_cache ox \<and> ox_audit ox' = ox_audit ox \<and>
   ox_rate_limiter ox' = ox_rate_limiter ox \<and> ox_authorizer ox' = ox_authorizer ox \<and> ox_redactor ox' = ox_redactor ox"
  by (auto simp: announce_def split: option.splits prod.splits)

lemma cache_store_frame [simp]:
  "ox_registry (cache_store env cx tg args clean ox) = ox_registry ox"
  "ox_audit (cache_store env cx tg args clean ox) = ox_audit ox"
  "ox_redactor (cache_store env cx tg args clean ox) = ox_redactor ox"
  "ox_rate_limiter (cache_store env cx tg args clean ox) = ox_rate_limiter ox"
  by (simp_all add: cache_store_def split: option.splits)

lemma cache_lookup_frame:
  "cache_lookup env cx tg args ox = (hit, ox') \<Longrightarrow>
   ox_registry ox' = ox_registry ox \<and> ox_audit ox' = ox_audit ox \<and> ox_redactor ox' = ox_redactor ox \<and>
   ox_webhooks ox' = ox_webhooks ox \<and> ox_rate_limiter ox' = ox_rate_limiter ox \<and> (tg_mutable tg \<longrightarrow> hit = None \<and> ox' = ox)"
  by (auto simp: cache_lookup_def split: option.splits prod.splits if_splits)

lemma rate_stage_frame: "rate_stage cx a q ox = (r, ox') \<Longrightarrow> \<exists>rl. ox' = ox\<lparr> ox_rate_limiter := rl \<rparr>"
  by (cases ox) (auto simp: rate_stage_def split: option.splits prod.splits)

lemma admit_frame: "admit env cx p tg args ox = (r, ox', ms) \<Longrightarrow> \<exists>rl. ox' = ox\<lparr> ox_rate_limiter := rl \<rparr>"
proof -
  assume a: "admit env cx p tg args ox = (r, ox', ms)"
  have same: "\<exists>rl. ox = ox\<lparr> ox_rate_limiter := rl \<rparr>" by (cases ox) auto
  obtain q ox1 where q: "rate_stage cx (pr_agent_id p) (tg_qualified tg) ox = (q, ox1)" by fastforce
  have "ox' = ox \<or> ox' = ox1"
    using a q by (auto simp: admit_def split: prod.splits sum.splits limiter_error.splits schema_failure.splits)
  then show ?thesis using same rate_stage_frame [OF q] by blast
qed

lemma refuse_frame:
  assumes "refuse env cx p tg arguments latency rf ms ox w = (r, ox', w', ms', ds)"
  shows "r = Inl (OrchestrationError (Because rf) (refusal_code rf)) \<and> w' = w \<and>
    ox_registry ox' = ox_registry ox \<and> ox_cache ox' = ox_cache ox \<and> ox_rate_limiter ox' = ox_rate_limiter ox \<and>
    ms' = ms @ [ToolCallsTotal (us_id (tg_server tg)) (tg_raw tg) (refusal_status rf)] \<and>
    ox_audit ox' = map_option (audit_record (ge_digest env) (cx_uuid cx) (cx_now cx)
      (refusal_fields env rf latency (base_fields cx p tg arguments))) (ox_audit ox)"
  using assms
  by (auto simp: refuse_def Let_def emit_audit_audit split: prod.splits option.splits dest!: announce_frame)

section \<open>What an admitted call has passed\<close>

definition passes_checks ::
  "('w, 'c, 's) gateway_env \<Rightarrow> call_context \<Rightarrow> principal \<Rightarrow> ('c, 's) registry_entry target \<Rightarrow> jdict \<Rightarrow>
   ('c, 's) orchestrator \<Rightarrow> bool" where
  \<comment> \<open>the access rule, the rate limits, the guardrails and the schema all admit the call\<close>
  "passes_checks env cx p tg arguments ox \<longleftrightarrow>
     allowed (az_policy (ox_authorizer ox)) p (tg_raw tg) (tg_qualified tg) (tg_mutable tg) \<and>
     fst (rate_stage cx (pr_agent_id p) (tg_qualified tg) ox) = Inr () \<and>
     fst (safety_check (ox_safety ox) (tg_raw tg) arguments) = Inr () \<and>
     fst (schema_stage env tg arguments ox) = Inr ()"

lemma admit_Inr:
  assumes "admit env cx p tg arguments ox = (Inr u, ox', ms)"
  shows "passes_checks env cx p tg arguments ox"
proof -
  obtain q ox1 where q: "rate_stage cx (pr_agent_id p) (tg_qualified tg) ox = (q, ox1)" by fastforce
  then obtain rl where rl: "ox1 = ox\<lparr> ox_rate_limiter := rl \<rparr>" using rate_stage_frame by blast
  obtain x y where s: "schema_stage env tg arguments ox = (x, y)" by fastforce
  then have s': "schema_stage env tg arguments (ox\<lparr> ox_rate_limiter := rl \<rparr>) = (x, y)"
    by (simp add: schema_stage_def)
  have "fst (authorize_tool_call (az_policy (ox_authorizer ox)) p (tg_raw tg) (tg_qualified tg) (tg_mutable tg)) = Inr ()"
    using assms by (auto simp: admit_def split: prod.splits sum.splits)
  then have "allowed (az_policy (ox_authorizer ox)) p (tg_raw tg) (tg_qualified tg) (tg_mutable tg)"
    by (simp only: authorize_Inr_iff)
  then show ?thesis
    using assms q rl s s'
    by (auto simp: admit_def passes_checks_def split: prod.splits sum.splits limiter_error.splits schema_failure.splits)
qed

lemma admit_Inl:
  "admit env cx p tg arguments ox = (Inl (Refused rf), ox', ms) \<Longrightarrow> (\<forall>e. rf \<noteq> FailedUpstream e)"
  by (auto simp: admit_def split: prod.splits sum.splits limiter_error.splits schema_failure.splits)

text \<open>The ways out of \<open>prepare\<close>, of \<open>complete\<close> and of \<open>tool_call\<close>.\<close>

lemma prepare_cases:
  obtains (early) exc where "prepare env cx p name arguments server_id ox w = Finished (Inl exc, ox, w, [], [])"
      "(\<exists>m. exc = OrchestrationError m 404) \<or> (\<exists>m. exc = OrchestrationError m 503)"
    | (escaped) tg exc ox1 ms where
      "resolve (ox_registry ox) name server_id = Inr (tg_sid tg, tg_entry tg, tg_raw tg)" "us_enabled (tg_server tg)"
      "admit env cx p tg arguments ox = (Inl (Escaping exc), ox1, ms)"
      "prepare env cx p name arguments server_id ox w = Finished (Inl exc, ox1, w, ms, [])"
    | (refused) tg rf ox1 ms1 where
      "resolve (ox_registry ox) name server_id = Inr (tg_sid tg, tg_entry tg, tg_raw tg)" "us_enabled (tg_server tg)"
      "admit env cx p tg arguments ox = (Inl (Refused rf), ox1, ms1)"
      "prepare env cx p name arguments server_id ox w = Finished (refuse env cx p tg arguments 0 rf ms1 ox1 w)"
    | (hit) tg u ox1 ms1 ms2 args rq content ox2 where
      "resolve (ox_registry ox) name server_id = Inr (tg_sid tg, tg_entry tg, tg_raw tg)" "us_enabled (tg_server tg)"
      "admit env cx p tg arguments ox = (Inr u, ox1, ms1)"
      "redact_arguments (ox_redactor ox1) arguments = ((args, rq), ms2)"
      "cache_lookup env cx tg args ox1 = (Some content, ox2)"
      "prepare env cx p name arguments server_id ox w =
         Finished (Inr \<lparr> cr_server_id = us_id (tg_server tg), cr_tool = tg_raw tg, cr_content = content, cr_is_error = False,
           cr_latency_ms = 0, cr_redacted = rq, cr_cached = True \<rparr>, ox2, w, ms1 @ ms2, [])"
    | (ready) tg u ox1 ms1 ms2 args rq ox2 where
      "resolve (ox_registry ox) name server_id = Inr (tg_sid tg, tg_entry tg, tg_raw tg)" "us_enabled (tg_server tg)"
      "admit env cx p tg arguments ox = (Inr u, ox1, ms1)"
      "redact_arguments (ox_redactor ox1) arguments = ((args, rq), ms2)"
      "cache_lookup env cx tg args ox1 = (None, ox2)"
      "prepare env cx p name arguments server_id ox w = Ready tg args rq (ms1 @ ms2) ox2"
proof (cases "resolve (ox_registry ox) name server_id")
  case (Inl exc)
  then have "\<exists>m. exc = OrchestrationError m 404" by (auto simp: resolve_def split: option.splits)
  then show ?thesis using Inl by (intro early [of exc]) (auto simp: prepare_def)
next
  case (Inr t)
  obtain sid e raw where t: "t = (sid, e, raw)" by (rule prod_cases3)
  define tg where "tg = \<lparr> tg_sid = sid, tg_entry = e, tg_raw = raw \<rparr>"
  have res: "resolve (ox_registry ox) name server_id = Inr (tg_sid tg, tg_entry tg, tg_raw tg)"
    using Inr t by (simp add: tg_def)
  show ?thesis
  proof (cases "us_enabled (re_server e)")
    case False
    then show ?thesis using Inr t
      by (intro early [of "OrchestrationError (ServerDisabled (us_id (re_server e))) 503"]) (auto simp: prepare_def)
  next
    case True
    then have en: "us_enabled (tg_server tg)" by (simp add: tg_def tg_server_def)
    obtain a ox1 ms1 where a: "admit env cx p tg arguments ox = (a, ox1, ms1)" by (rule prod_cases3)
    obtain args rq ms2 where ra: "redact_arguments (ox_redactor ox1) arguments = ((args, rq), ms2)"
      by (metis prod.collapse)
    obtain h ox2 where h: "cache_lookup env cx tg args ox1 = (h, ox2)" by fastforce
    have run: "prepare env cx p name arguments server_id ox w =
        (case a of
           Inl (Escaping exc) \<Rightarrow> Finished (Inl exc, ox1, w, ms1, [])
         | Inl (Refused rf) \<Rightarrow> Finished (refuse env cx p tg arguments 0 rf ms1 ox1 w)
         | Inr _ \<Rightarrow>
             (case h of
                Some content \<Rightarrow>
                  Finished (Inr \<lparr> cr_server_id = us_id (tg_server tg), cr_tool = tg_raw tg, cr_content = content,
                         cr_is_error = False, cr_latency_ms = 0, cr_redacted = rq, cr_cached = True \<rparr>,
                   ox2, w, ms1 @ ms2, [])
              | None \<Rightarrow> Ready tg args rq (ms1 @ ms2) ox2))"
      using Inr t True a ra h
      by (auto simp: prepare_def tg_def tg_server_def split: sum.splits check_failure.splits option.splits)
    show ?thesis
    proof (cases a)
      case (Inl f)
      then show ?thesis using escaped [OF res en] refused [OF res en] a run by (cases f) auto
    next
      case (Inr u)
      then show ?thesis using hit [OF res en _ ra] ready [OF res en _ ra] a h run by (cases h) auto
    qed
  qed
qed

lemma complete_cases:
  assumes "complete env cx p tg arguments args rq ms r ox w = (q, ox', w', ms', ds)"
  obtains (failed) exc where "r = Inl exc" "w' = w"
      "q = Inl (OrchestrationError (Because (FailedUpstream exc)) 502)" "ox_registry ox' = ox_registry ox" "ox_cache ox' = ox_cache ox"
      "ox_audit ox' = map_option (audit_record (ge_digest env) (cx_uuid cx) (cx_now cx)
         (refusal_fields env (FailedUpstream exc) (py_round ((cx_end cx - cx_start cx) * 1000) 2)
           (base_fields cx p tg arguments))) (ox_audit ox)"
      "ms' = ms @ [ToolCallLatency (us_id (tg_server tg)) (tg_raw tg) (cx_end cx - cx_start cx),
         ToolCallsTotal (us_id (tg_server tg)) (tg_raw tg) ''upstream_error'']"
    | (answered) raw clean cr ms2 where "r = Inr raw" "w' = w"
      "redact (ox_redactor ox) ''response'' raw = ((clean, cr), ms2)"
      "q = Inr \<lparr> cr_server_id = us_id (tg_server tg), cr_tool = tg_raw tg, cr_content = clean, cr_is_error = False,
         cr_latency_ms = py_round ((cx_end cx - cx_start cx) * 1000) 2, cr_redacted = (rq \<or> cr), cr_cached = False \<rparr>"
      "ox_registry ox' = ox_registry ox" "ox_cache ox' = ox_cache (cache_store env cx tg args clean ox)"
      "ox_rate_limiter ox' = ox_rate_limiter ox" "ox_redactor ox' = ox_redactor ox"
      "ox_audit ox' = map_option (audit_record (ge_digest env) (cx_uuid cx) (cx_now cx)
         ((base_fields cx p tg arguments)\<lparr> af_latency_ms := py_round ((cx_end cx - cx_start cx) * 1000) 2,
            af_redacted := (rq \<or> cr) \<rparr>)) (ox_audit ox)"
      "ms' = ms @ [ToolCallLatency (us_id (tg_server tg)) (tg_raw tg) (cx_end cx - cx_start cx),
         ToolCallsTotal (us_id (tg_server tg)) (tg_raw tg) ''ok''] @ ms2"
proof (cases r)
  case (Inl exc)
  then show ?thesis using assms by (intro failed [of exc]) (auto simp: complete_def Let_def dest!: refuse_frame)
next
  case (Inr raw)
  obtain clean cr ms2 where c: "redact (ox_redactor ox) ''response'' raw = ((clean, cr), ms2)"
    by (metis prod.collapse)
  show ?thesis using assms Inr c
    by (intro answered [of raw clean cr ms2])
      (auto simp: complete_def Let_def emit_audit_audit split: prod.splits dest!: announce_frame)
qed

lemma tool_call_cases:
  assumes "tool_call env cx p name arguments server_id ox w = (r, ox', w', ms, ds)"
  obtains (early) exc where "r = Inl exc" "ox' = ox" "w' = w" "ms = []" "ds = []"
      "(\<exists>m. exc = OrchestrationError m 404) \<or> (\<exists>m. exc = OrchestrationError m 503)"
    | (escaped) tg exc ox1 where
      "resolve (ox_registry ox) name server_id = Inr (tg_sid tg, tg_entry tg, tg_raw tg)" "us_enabled (tg_server tg)"
      "admit env cx p tg arguments ox = (Inl (Escaping exc), ox1, ms)" "r = Inl exc" "ox' = ox1" "w' = w" "ds = []"
    | (refused) tg rf ox1 ms1 where
      "resolve (ox_registry ox) name server_id = Inr (tg_sid tg, tg_entry tg, tg_raw tg)" "us_enabled (tg_server tg)"
      "admit env cx p tg arguments ox = (Inl (Refused rf), ox1, ms1)"
      "refuse env cx p tg arguments 0 rf ms1 ox1 w = (r, ox', w', ms, ds)"
    | (hit) tg u ox1 ms1 ms2 args rq content where
      "resolve (ox_registry ox) name server_id = Inr (tg_sid tg, tg_entry tg, tg_raw tg)" "us_enabled (tg_server tg)"
      "admit env cx p tg arguments ox = (Inr u, ox1, ms1)"
      "redact_arguments (ox_redactor ox1) arguments = ((args, rq), ms2)"
      "cache_lookup env cx tg args ox1 = (Some content, ox')"
      "r = Inr \<lparr> cr_server_id = us_id (tg_server tg), cr_tool = tg_raw tg, cr_content = content, cr_is_error = False,
         cr_latency_ms = 0, cr_redacted = rq, cr_cached = True \<rparr>" "w' = w" "ms = ms1 @ ms2" "ds = []"
    | (forwarded) tg u ox1 ms1 ms2 args rq ox2 where
      "resolve (ox_registry ox) name server_id = Inr (tg_sid tg, tg_entry tg, tg_raw tg)" "us_enabled (tg_server tg)"
      "admit env cx p tg arguments ox = (Inr u, ox1, ms1)"
      "redact_arguments (ox_redactor ox1) arguments = ((args, rq), ms2)"
      "cache_lookup env cx tg args ox1 = (None, ox2)"
      "forward env cx p tg arguments args rq (ms1 @ ms2) ox2 w = (r, ox', w', ms, ds)"
proof (cases rule: prepare_cases [of env cx p name arguments server_id ox w])
  case (early exc)
  then show ?thesis using assms by (intro that(1) [of exc]) (auto simp: tool_call_def)
next
  case (escaped tg exc ox1 ms')
  then show ?thesis using assms that(2) by (simp add: tool_call_def)
next
  case (refused tg rf ox1 ms1)
  then show ?thesis using assms that(3) by (simp add: tool_call_def)
next
  case (hit tg u ox1 ms1 ms2 args rq content ox2)
  then show ?thesis using assms that(4) by (simp add: tool_call_def)
next
  case (ready tg u ox1 ms1 ms2 args rq ox2)
  then show ?thesis using assms that(5) by (simp add: tool_call_def)
qed

lemma forward_cases:
  assumes "forward env cx p tg arguments args rq ms ox w = (r, ox', w', ms', ds)"
  obtains (failed) exc rg' where
      "client_call (ge_outside env) (tg_sid tg) (tg_entry tg) (tg_raw tg) args (Some (pr_agent_id p)) (ox_registry ox) w =
         (Inl exc, rg', w')"
      "r = Inl (OrchestrationError (Because (FailedUpstream exc)) 502)" "ox_registry ox' = rg'" "ox_cache ox' = ox_cache ox"
      "ox_audit ox' = map_option (audit_record (ge_digest env) (cx_uuid cx) (cx_now cx)
         (refusal_fields env (FailedUpstream exc) (py_round ((cx_end cx - cx_start cx) * 1000) 2)
           (base_fields cx p tg arguments))) (ox_audit ox)"
      "ms' = ms @ [ToolCallLatency (us_id (tg_server tg)) (tg_raw tg) (cx_end cx - cx_start cx),
         ToolCallsTotal (us_id (tg_server tg)) (tg_raw tg) ''upstream_error'']"
    | (answered) raw rg' clean cr ms2 where
      "client_call (ge_outside env) (tg_sid tg) (tg_entry tg) (tg_raw tg) args (Some (pr_agent_id p)) (ox_registry ox) w =
         (Inr raw, rg', w')"
      "redact (ox_redactor ox) ''response'' raw = ((clean, cr), ms2)"
      "r = Inr \<lparr> cr_server_id = us_id (tg_server tg), cr_tool = tg_raw tg, cr_content = clean, cr_is_error = False,
         cr_latency_ms = py_round ((cx_end cx - cx_start cx) * 1000) 2, cr_redacted = (rq \<or> cr), cr_cached = False \<rparr>"
      "ox_registry ox' = rg'" "ox_cache ox' = ox_cache (cache_store env cx tg args clean ox)"
      "ox_rate_limiter ox' = ox_rate_limiter ox" "ox_redactor ox' = ox_redactor ox"
      "ox_audit ox' = map_option (audit_record (ge_digest env) (cx_uuid cx) (cx_now cx)
         ((base_fields cx p tg arguments)\<lparr> af_latency_ms := py_round ((cx_end cx - cx_start cx) * 1000) 2,
            af_redacted := (rq \<or> cr) \<rparr>)) (ox_audit ox)"
      "ms' = ms @ [ToolCallLatency (us_id (tg_server tg)) (tg_raw tg) (cx_end cx - cx_start cx),
         ToolCallsTotal (us_id (tg_server tg)) (tg_raw tg) ''ok''] @ ms2"
proof -
  obtain q rg' w1 where q: "client_call (ge_outside env) (tg_sid tg) (tg_entry tg) (tg_raw tg) args
      (Some (pr_agent_id p)) (ox_registry ox) w = (q, rg', w1)" by (rule prod_cases3)
  then have c: "complete env cx p tg arguments args rq ms q (ox\<lparr> ox_registry := rg' \<rparr>) w1 = (r, ox', w', ms', ds)"
    using assms by (simp add: forward_def)
  have cs: "ox_cache (cache_store env cx tg args clean (ox\<lparr> ox_registry := rg' \<rparr>)) =
      ox_cache (cache_store env cx tg args clean ox)" for clean
    by (simp add: cache_store_def split: option.splits)
  from c show thesis
  proof (cases rule: complete_cases)
    case (failed exc)
    then show ?thesis using q that(1) by simp
  next
    case (answered raw clean cr ms2)
    then show ?thesis using q that(2) by (simp add: cs)
  qed
qed

lemma redact_dict: "\<exists>d changed ms. redact rd direction (JDict a) = ((JDict d, changed), ms)"
  by (auto simp: redact_def Let_def)

lemma redact_arguments_eq:
  assumes "redact_arguments rd a = ((args, rq), ms)"
  shows "redact rd ''request'' (JDict a) = ((JDict args, rq), ms)"
  using assms redact_dict [of rd "''request''" a] by (auto simp: redact_arguments_def)

section \<open>Counting calls\<close>

fun call_count :: "metric list \<Rightarrow> (string \<times> string \<times> string) list" where
  \<comment> \<open>the increments of the counter of tool calls, in order\<close>
  "call_count [] = []"
| "call_count (ToolCallsTotal s t st # ms) = (s, t, st) # call_count ms"
| "call_count (m # ms) = call_count ms"

lemma call_count_append [simp]: "call_count (xs @ ys) = call_count xs @ call_count ys"
  by (induction xs rule: call_count.induct) simp_all

lemma call_count_concat: "(\<And>x. x \<in> set xs \<Longrightarrow> call_count (f x) = []) \<Longrightarrow> call_count (concat (map f xs)) = []"
  by (induction xs) simp_all

lemma presidio_count: "call_count (snd (presidio_pass rd direction text)) = []"
proof -
  have "call_count (map (\<lambda>r. RedactionsTotal direction (sp_entity r) 1) rs) = []" for rs :: "span list"
    by (induction rs) simp_all
  then show ?thesis by (simp add: presidio_pass_def split: option.splits sum.splits)
qed

lemma fold_count:
  "call_count (snd st) = [] \<Longrightarrow> call_count (snd (fold (fallback_step policy direction) es st)) = []"
proof (induction es arbitrary: st)
  case (Cons e es)
  have "call_count (snd (fallback_step policy direction e st)) = []"
    using Cons.prems by (auto simp: fallback_step_def split: prod.splits option.splits)
  then show ?case using Cons.IH by simp
qed simp

lemma redact_count: "redact rd direction v = (x, ms) \<Longrightarrow> call_count ms = []"
proof -
  have "call_count (snd (redact_string rd direction s)) = []" for s
    using fold_count [OF presidio_count] by (simp add: redact_string_def)
  then have "call_count (snd (walk rd direction v)) = []"
    by (simp add: walk_leafwise call_count_concat)
  then show "redact rd direction v = (x, ms) \<Longrightarrow> call_count ms = []"
    by (auto simp: redact_def split: if_splits)
qed

lemma authorize_count: "authorize_tool_call policy p t q m = (r, ms) \<Longrightarrow> call_count ms = []"
  by (auto simp: authorize_tool_call_def split: if_splits)

lemma safety_count: "safety_check sf t a = (r, ms) \<Longrightarrow> call_count ms = []"
  by (auto simp: safety_check_def split: if_splits option.splits)

lemma schema_count: "schema_stage env tg a ox = (r, ms) \<Longrightarrow> call_count ms = []"
  by (auto simp: schema_stage_def validate_arguments_def Let_def split: if_splits option.splits sum.splits)

lemma admit_count: "admit env cx p tg a ox = (r, ox', ms) \<Longrightarrow> call_count ms = []"
  by (auto simp: admit_def split: prod.splits sum.splits limiter_error.splits schema_failure.splits
      dest!: authorize_count safety_count schema_count)

lemma redact_arguments_count: "redact_arguments rd a = (x, ms) \<Longrightarrow> call_count ms = []"
  by (auto simp: redact_arguments_def dest: redact_count split: prod.splits)

lemma get_result_cfg: "get_result digest now q a c = (r, c') \<Longrightarrow> tc_cfg c' = tc_cfg c"
  by (metis cache_cfg_stable(4) snd_conv)

section \<open>Properties\<close>

lemma admitted_upstream:
  assumes "tool_call env cx p name arguments server_id ox w = (r, ox', w', ms, ds)"
    and "w' \<noteq> w \<or> ox_registry ox' \<noteq> ox_registry ox \<or> (\<exists>res. r = Inr res)"
  shows "\<exists>tg. resolve (ox_registry ox) name server_id = Inr (tg_sid tg, tg_entry tg, tg_raw tg) \<and>
    us_enabled (tg_server tg) \<and> passes_checks env cx p tg arguments ox"
  using assms(1)
proof (cases rule: tool_call_cases)
  case early
  then show ?thesis using assms(2) by auto
next
  case (escaped tg exc ox1)
  then show ?thesis using assms(2) admit_frame [OF escaped(3)] by auto
next
  case (refused tg rf ox1 ms1)
  then show ?thesis using assms(2) admit_frame [OF refused(3)] refuse_frame [OF refused(4)] by auto
next
  case (hit tg u ox1 ms1 ms2 args rq content)
  then show ?thesis using admit_Inr by blast
next
  case (forwarded tg u ox1 ms1 ms2 args rq ox2)
  then show ?thesis using admit_Inr by blast
qed

text \<open>C2. No call reaches an upstream server, changes the registry or returns a result unless its target is an
  enabled server, the access rule allows the agent the tool, both rate limits admit it, every
  guardrail passes and the arguments satisfy the tool's schema.\<close>

theorem only_admitted_calls_go_upstream:
  assumes "tool_call env cx p name arguments server_id ox w = (r, ox', w', ms, ds)"
    and "w' \<noteq> w \<or> ox_registry ox' \<noteq> ox_registry ox \<or> (\<exists>res. r = Inr res)"
  shows "\<exists>tg. resolve (ox_registry ox) name server_id = Inr (tg_sid tg, tg_entry tg, tg_raw tg) \<and>
    us_enabled (tg_server tg) \<and> passes_checks env cx p tg arguments ox"
  using assms by (rule admitted_upstream)


lemma audited_once:
  assumes "tool_call env cx p name arguments server_id ox w = (r, ox', w', ms, ds)" and "ox_audit ox = Some st"
  shows "(\<exists>f. ox_audit ox' = Some (audit_record (ge_digest env) (cx_uuid cx) (cx_now cx) f st) \<and>
      call_count ms = [(af_server_id f, af_tool_name f, af_status f)] \<and> af_agent_id f = pr_agent_id p \<and>
      af_request_id f = str_or (cx_request_id cx) ''unknown'' \<and> af_arguments f = Some arguments \<and> (af_is_error f \<longleftrightarrow> isl r)) \<or>
    (ox_audit ox' = Some st \<and> call_count ms = [] \<and>
      ((\<exists>m code. r = Inl (OrchestrationError m code) \<and> code \<in> {404, 503}) \<or>
       r = Inl EscapedZeroDivision \<or> (\<exists>x. r = Inl (EscapedValidator x)) \<or>
       (\<exists>res. r = Inr res \<and> cr_cached res)))"
  using assms(1)
proof (cases rule: tool_call_cases)
  case (early exc)
  then show ?thesis using assms(2) by auto
next
  case (escaped tg exc ox1)
  have "exc = EscapedZeroDivision \<or> (\<exists>x. exc = EscapedValidator x)"
    using escaped(3) by (auto simp: admit_def split: prod.splits sum.splits limiter_error.splits schema_failure.splits)
  then show ?thesis using escaped assms(2) admit_frame [OF escaped(3)] admit_count [OF escaped(3)] by auto
next
  case (refused tg rf ox1 ms1)
  have "ox_audit ox1 = Some st" using admit_frame [OF refused(3)] assms(2) by auto
  then show ?thesis using refuse_frame [OF refused(4)] admit_count [OF refused(3)]
    by (intro disjI1 exI [of _ "refusal_fields env rf 0 (base_fields cx p tg arguments)"])
      (simp add: refusal_fields_def base_fields_def)
next
  case (hit tg u ox1 ms1 ms2 args rq content)
  then show ?thesis
    using assms(2) admit_frame [OF hit(3)] cache_lookup_frame [OF hit(5)] admit_count [OF hit(3)]
      redact_arguments_count [OF hit(4)] by auto
next
  case (forwarded tg u ox1 ms1 ms2 args rq ox2)
  have a: "ox_audit ox2 = Some st" "call_count (ms1 @ ms2) = []"
    using assms(2) admit_frame [OF forwarded(3)] cache_lookup_frame [OF forwarded(5)] admit_count [OF forwarded(3)]
      redact_arguments_count [OF forwarded(4)] by auto
  from forwarded(6) show ?thesis
  proof (cases rule: forward_cases)
    case (failed exc rg')
    then show ?thesis using a
      by (intro disjI1 exI [of _ "refusal_fields env (FailedUpstream exc)
          (py_round ((cx_end cx - cx_start cx) * 1000) 2) (base_fields cx p tg arguments)"])
        (simp add: refusal_fields_def base_fields_def)
  next
    case (answered raw rg' clean cr ms3)
    then show ?thesis using a redact_count [OF answered(2)]
      by (intro disjI1 exI [of _ "(base_fields cx p tg arguments)
          \<lparr> af_latency_ms := py_round ((cx_end cx - cx_start cx) * 1000) 2, af_redacted := (rq \<or> cr) \<rparr>"])
        (simp add: base_fields_def)
  qed
qed


text \<open>A mutable tool never touches the cache: its result is not stored, and no stored result answers
  it.\<close>

theorem mutable_tools_bypass_cache:
  assumes "tool_call env cx p name arguments server_id ox w = (r, ox', w', ms, ds)"
    and "resolve (ox_registry ox) name server_id = Inr (sid, e, raw)" and "raw \<in> set (us_mutable_tools (re_server e))"
  shows "ox_cache ox' = ox_cache ox \<and> (\<forall>res. r = Inr res \<longrightarrow> \<not> cr_cached res)"
proof -
  have m: "tg_mutable tg" if "resolve (ox_registry ox) name server_id = Inr (tg_sid tg, tg_entry tg, tg_raw tg)" for tg
    using that assms(2,3) by (simp add: tg_mutable_def tg_server_def)
  from assms(1) show ?thesis
  proof (cases rule: tool_call_cases)
    case (early exc)
    then show ?thesis by auto
  next
    case (escaped tg exc ox1)
    then show ?thesis using admit_frame [OF escaped(3)] by auto
  next
    case (refused tg rf ox1 ms1)
    then show ?thesis using admit_frame [OF refused(3)] refuse_frame [OF refused(4)] by auto
  next
    case (hit tg u ox1 ms1 ms2 args rq content)
    then show ?thesis using cache_lookup_frame [OF hit(5)] m [OF hit(1)] by simp
  next
    case (forwarded tg u ox1 ms1 ms2 args rq ox2)
    have c: "ox_cache ox2 = ox_cache ox"
      using admit_frame [OF forwarded(3)] cache_lookup_frame [OF forwarded(5)] m [OF forwarded(1)] by auto
    have s: "ox_cache (cache_store env cx tg args clean ox2) = ox_cache ox2" for clean
      using m [OF forwarded(1)] by (simp add: cache_store_def split: option.splits)
    from forwarded(6) show ?thesis by (cases rule: forward_cases) (simp_all add: c s)
  qed
qed


section \<open>The manifest\<close>

definition live :: "string option \<Rightarrow> ('c, 's) registry_entry \<Rightarrow> bool" where
  \<comment> \<open>whose tools a manifest for the tag lists\<close>
  "live tag e \<longleftrightarrow> us_enabled (re_server e) \<and> re_healthy e \<and> (truthy_opt tag \<longrightarrow> the tag \<in> set (us_tags (re_server e)))"

text \<open>A manifest that is built lists exactly the tools of the servers that are enabled and healthy and
  carry the tag asked for, and counts these servers.\<close>

theorem built_manifest_lists_live_tools:
  assumes "build_manifest now now' generated_at tag ox = (m, ox')"
    and "tag \<noteq> None \<or> ox_cache ox = None"
  shows "set (tm_tools m) = (\<Union>p \<in> set (rg_entries (ox_registry ox)). if live tag (snd p) then set (re_tools (snd p)) else {}) \<and>
    tm_server_count m = length (filter (live tag) (map snd (rg_entries (ox_registry ox)))) \<and>
    ox_registry ox' = ox_registry ox"
proof -
  let ?es = "rg_entries (ox_registry ox)"
  have m: "m = \<lparr> tm_tools = concat (map (\<lambda>(sid, e). re_tools e) (filter (\<lambda>p. live tag (snd p)) ?es)),
      tm_generated_at = generated_at, tm_server_count = length (filter (\<lambda>p. live tag (snd p)) ?es) \<rparr>"
    using assms
    by (auto simp: build_manifest_def Let_def enabled_entries_def live_def case_prod_unfold conj_commute
        split: option.splits prod.splits intro!: arg_cong [where f = "\<lambda>p. filter p ?es"])
  have "ox_registry ox' = ox_registry ox"
    using assms by (auto simp: build_manifest_def Let_def split: option.splits prod.splits)
  then show ?thesis unfolding m by (auto simp: filter_map comp_def)
qed

text \<open>While a cached manifest lives, the manifest without a tag does not depend on the registry: a server
  that has been disabled, removed or added since does not change it.\<close>

theorem cached_manifest_ignores_registry:
  assumes "ox_cache ox = Some c" and "fst (get_manifest now c) = Some m"
  shows "fst (build_manifest now now' generated_at None (ox\<lparr> ox_registry := rg \<rparr>)) = m"
proof -
  obtain c' where "get_manifest now c = (Some m, c')" using assms(2) by (cases "get_manifest now c") auto
  then show ?thesis using assms(1) by (simp add: build_manifest_def)
qed

section \<open>A small gateway\<close>

definition pg_server :: upstream_server where
  "pg_server = (upstream ''pg'' ''Postgres'' ''http://pg:9000'')\<lparr> us_mutable_tools := [''drop''] \<rparr>"

definition demo_env :: "(nat, nat, nat) gateway_env" where
  "demo_env =
     \<lparr> ge_outside = serving (\<lambda>n. [''query'', ''drop'']), ge_digest = (\<lambda>v. ''h''), ge_draft7 = (\<lambda>s. Inr (\<lambda>a. Inr [])),
       ge_http = \<lparr> he_environ = (\<lambda>v. None), he_unix_time = 0, he_isoformat = ''now'', he_dumps = (\<lambda>v. ''{}''),
                   he_hmac = (\<lambda>k m. ''s''), he_post = (\<lambda>u b hs t w. (Inr 200, w)) \<rparr>,
       ge_show = (\<lambda>r. ''refused'') \<rparr>"

definition demo_registry :: "(nat, nat) server_registry" where
  "demo_registry = fst (register (ge_outside demo_env) pg_server True (empty_registry Bare Warn) 0)"

definition demo_ox :: "(nat, nat) orchestrator" where
  "demo_ox =
     \<lparr> ox_registry = demo_registry, ox_authorizer = new_authorizer (header_policy\<lparr> ap_mutable_allowed_agents := [''bot''] \<rparr>),
       ox_redactor = regex_redactor, ox_safety = sql_filter, ox_rate_limiter = None,
       ox_audit = Some new_audit_store, ox_schema = Some default_schema_validation,
       ox_cache = Some (new_tool_cache (default_cache_config\<lparr> cc_tool_ttls := [(''pg.query'', 60)] \<rparr>)),
       ox_webhooks = Some (new_dispatcher []) \<rparr>"

definition reading_at :: "seconds \<Rightarrow> call_context" where
  "reading_at t = \<lparr> cx_request_id = Some ''r1'', cx_limiter = \<lparr> lt_agent_new = t, lt_agent = t, lt_tool_new = t, lt_tool = t \<rparr>,
     cx_cache_get = t, cx_cache_set = t, cx_start = t, cx_end = t, cx_uuid = ''u1'', cx_now = t \<rparr>"

definition demo_call :: "seconds \<Rightarrow> string \<Rightarrow> jdict \<Rightarrow> (nat, nat) orchestrator \<Rightarrow> (nat, nat, nat) outcome" where
  "demo_call t tool arguments ox =
     tool_call demo_env (reading_at t) \<lparr> pr_agent_id = ''bot'', pr_permissions = [] \<rparr> tool arguments (Some ''pg'') ox 1"


definition contact :: jdict where
  "contact = [(''to'', JStr ''bob@corp.com'')]"

definition queried :: "(nat, nat) orchestrator" where
  \<comment> \<open>the gateway after one call of \<open>query\<close>\<close>
  "queried = fst (snd (demo_call 5 ''query'' contact demo_ox))"

lemma demo_query:
  obtains res ms ds where "demo_call 5 ''query'' contact demo_ox = (Inr res, queried, 2, ms, ds)"
    "\<not> cr_cached res" "cr_content res = JStr ''query''" "cr_tool res = ''query''"
proof -
  obtain r ox' w' ms ds where o: "demo_call 5 ''query'' contact demo_ox = (r, ox', w', ms, ds)" by (rule prod_cases5)
  have "case demo_call 5 ''query'' contact demo_ox of
      (Inr res, ox', w', ms, ds) \<Rightarrow> w' = 2 \<and> \<not> cr_cached res \<and> cr_content res = JStr ''query'' \<and> cr_tool res = ''query''
    | _ \<Rightarrow> False"
    by code_simp
  then show ?thesis using that o by (auto simp: queried_def split: sum.splits)
qed

lemma demo_resolve:
  obtains e where "resolve (ox_registry demo_ox) tool (Some ''pg'') = Inr (''pg'', e, strip_prefix pg_server tool)"
    "re_server e = pg_server" "re_healthy e" "map td_name (re_tools e) = [''query'', ''drop'']"
proof -
  have "map_option (\<lambda>e. (re_server e, re_healthy e, map td_name (re_tools e))) (dict_get (rg_entries (ox_registry demo_ox)) ''pg'') =
      Some (pg_server, True, [''query'', ''drop''])"
    by code_simp
  then show ?thesis using that by (auto simp: resolve_def)
qed

theorem only_admitted_calls_go_upstream_witness:
  "\<exists>tg. tg_raw tg = ''query'' \<and>
     passes_checks demo_env (reading_at 5) \<lparr> pr_agent_id = ''bot'', pr_permissions = [] \<rparr> tg contact demo_ox"
proof -
  obtain res ms ds where q: "demo_call 5 ''query'' contact demo_ox = (Inr res, queried, 2, ms, ds)"
    by (rule demo_query)
  obtain e where e: "resolve (ox_registry demo_ox) ''query'' (Some ''pg'') = Inr (''pg'', e, strip_prefix pg_server ''query'')"
    by (rule demo_resolve)
  have "strip_prefix pg_server ''query'' = ''query''" by code_simp
  then show ?thesis
    using only_admitted_calls_go_upstream [OF q [unfolded demo_call_def]] e by auto
qed



theorem mutable_tools_bypass_cache_witness:
  "ox_cache (fst (snd (demo_call 5 ''drop'' [] demo_ox))) = ox_cache demo_ox"
proof -
  obtain r ox' w' ms ds where o: "demo_call 5 ''drop'' [] demo_ox = (r, ox', w', ms, ds)" by (rule prod_cases5)
  obtain e where e: "resolve (ox_registry demo_ox) ''drop'' (Some ''pg'') = Inr (''pg'', e, strip_prefix pg_server ''drop'')"
    "re_server e = pg_server" by (rule demo_resolve)
  have "strip_prefix pg_server ''drop'' \<in> set (us_mutable_tools (re_server e))"
    unfolding e(2) by code_simp
  from mutable_tools_bypass_cache [OF o [unfolded demo_call_def] e(1) this] show ?thesis using o by simp
qed


theorem built_manifest_lists_live_tools_witness:
  "tm_server_count (fst (build_manifest 0 0 ''now'' (Some []) demo_ox)) = 1 \<and>
   td_name ` set (tm_tools (fst (build_manifest 0 0 ''now'' (Some []) demo_ox))) = {''query'', ''drop''}"
proof -
  obtain m ox' where m: "build_manifest 0 0 ''now'' (Some []) demo_ox = (m, ox')" by fastforce
  have "map (\<lambda>(sid, e). (live (Some []) e, map td_name (re_tools e))) (rg_entries (ox_registry demo_ox)) =
      [(True, [''query'', ''drop''])]" by code_simp
  then obtain sid e where e: "rg_entries (ox_registry demo_ox) = [(sid, e)]" "live (Some []) e"
    "map td_name (re_tools e) = [''query'', ''drop'']" by (auto simp: map_eq_Cons_conv)
  have "td_name ` set (re_tools e) = {''query'', ''drop''}" using arg_cong [OF e(3), of set] by simp
  then show ?thesis using built_manifest_lists_live_tools [OF m] m e(1,2) by simp
qed

definition no_tools :: tool_manifest where
  "no_tools = \<lparr> tm_tools = [], tm_generated_at = ''before'', tm_server_count = 0 \<rparr>"

definition warm :: "(tool_manifest, json) tool_cache" where
  "warm = set_manifest 0 no_tools (new_tool_cache default_cache_config)"

theorem cached_manifest_ignores_registry_witness:
  "fst (build_manifest 1 1 ''later'' None (demo_ox\<lparr> ox_cache := Some warm, ox_registry := empty_registry Bare Warn \<rparr>)) = no_tools"
proof (rule cached_manifest_ignores_registry)
  show "ox_cache (demo_ox\<lparr> ox_cache := Some warm \<rparr>) = Some warm" by simp
  show "fst (get_manifest 1 warm) = Some no_tools" by code_simp
qed

end
