(* ===== verification/Registry_Turns.thy ===== *)
theory Registry_Turns
  imports Registry
begin

text \<open>
  The registry while several of its operations are under way.

  A synchronisation waits once, inside \<open>MCPClient.list_tools\<close>: up to the gate of the circuit breaker it runs
  without giving up the event loop, and once the server has answered, \<open>_build_tool_definitions\<close> and the
  assignments to the entry run without a pause as well. \<open>begin_sync\<close> and \<open>finish_sync\<close> are these halves. An entry
  that is removed or replaced in between is an orphan: the synchronisation still writes to it, and nobody
  reads it.

  The locale \<open>registry_quiet\<close> collects what calls and synchronisations do to a registry in their turns, and
  \<open>registry_guarantee\<close> adds the operations that enter, remove or change entries. A relation that
  each of them respects is respected by everything the gateway does; the later theories prove so inside the
  locales, once for all relations: the registry stays well formed, the naming rule and the thresholds stay as they are,
  a circuit breaker only moves by its own operations, and calls and synchronisations leave the settings of the
  servers alone.
\<close>

section \<open>Breakers move by their operations\<close>

definition breaker_of :: "cb_registry \<Rightarrow> string \<Rightarrow> breaker" where
  \<comment> \<open>the breaker kept under an id, or the one that would be created for it\<close>
  "breaker_of cr sid =
     (case dict_get (cr_breakers cr) sid of
        None \<Rightarrow> new_breaker sid (cr_failure_threshold cr) (cr_recovery_timeout cr) (cr_probe_successes cr)
      | Some cb \<Rightarrow> cb)"

definition runs_to :: "breaker \<Rightarrow> breaker \<Rightarrow> bool" where
  "runs_to cb cb' \<longleftrightarrow> (\<exists>evs. cb' = run_events breaker_step cb evs)"

lemma runs_to_refl [simp]: "runs_to cb cb"
  unfolding runs_to_def by (rule exI [of _ "[]"]) simp

lemma runs_to_trans: "runs_to a b \<Longrightarrow> runs_to b c \<Longrightarrow> runs_to a c"
  unfolding runs_to_def by (metis run_events_append)

lemma runs_to_step [intro]:
  "runs_to cb (snd (before_call now cb))" "runs_to cb (on_success cb)" "runs_to cb (on_failure now cb)"
  unfolding runs_to_def
  by (rule exI [of _ "[BeforeCall now]"], simp, rule exI [of _ "[Succeeded]"], simp, rule exI [of _ "[Failed now]"], simp)

definition same_policy :: "cb_registry \<Rightarrow> cb_registry \<Rightarrow> bool" where
  "same_policy cr cr' \<longleftrightarrow>
     cr_enabled cr' = cr_enabled cr \<and> cr_failure_threshold cr' = cr_failure_threshold cr \<and>
     cr_recovery_timeout cr' = cr_recovery_timeout cr \<and> cr_probe_successes cr' = cr_probe_successes cr"

definition same_thresholds :: "('c, 's) server_registry \<Rightarrow> ('c, 's) server_registry \<Rightarrow> bool" where
  \<comment> \<open>the naming rule and the circuit breaker policy are the same\<close>
  "same_thresholds rg rg' \<longleftrightarrow> rg_naming rg' = rg_naming rg \<and> same_policy (rg_cb rg) (rg_cb rg')"

definition breakers_run :: "('c, 's) server_registry \<Rightarrow> ('c, 's) server_registry \<Rightarrow> bool" where
  \<comment> \<open>no breaker is dropped, and each has only been told of calls and their results\<close>
  "breakers_run rg rg' \<longleftrightarrow>
     same_policy (rg_cb rg) (rg_cb rg') \<and>
     (\<forall>sid. (dict_get (cr_breakers (rg_cb rg)) sid \<noteq> None \<longrightarrow> dict_get (cr_breakers (rg_cb rg')) sid \<noteq> None) \<and>
            runs_to (breaker_of (rg_cb rg) sid) (breaker_of (rg_cb rg') sid))"

lemma same_thresholds_refl [simp]: "same_thresholds rg rg"
  by (simp add: same_thresholds_def same_policy_def)

lemma same_thresholds_trans: "same_thresholds a b \<Longrightarrow> same_thresholds b c \<Longrightarrow> same_thresholds a c"
  by (simp add: same_thresholds_def same_policy_def)

lemma breakers_run_trans: "breakers_run a b \<Longrightarrow> breakers_run b c \<Longrightarrow> breakers_run a c"
  unfolding breakers_run_def same_policy_def by (metis (no_types, lifting) runs_to_trans)

lemma breakers_run_same: "rg_cb rg' = rg_cb rg \<Longrightarrow> breakers_run rg rg'"
  by (simp add: breakers_run_def same_policy_def)

lemma breakers_run_put:
  assumes "rg_cb rg' = (rg_cb rg)\<lparr> cr_breakers := dict_put sid cb (cr_breakers (rg_cb rg)) \<rparr>"
    and "runs_to (breaker_of (rg_cb rg) sid) cb"
  shows "breakers_run rg rg'"
  using assms by (auto simp: breakers_run_def same_policy_def breaker_of_def dict.get_put split: option.splits)

section \<open>What the calls of a client do to its breaker\<close>

definition link_runs :: "('w, 'c, 's) link \<Rightarrow> ('w, 'c, 's) link \<Rightarrow> bool" where
  "link_runs lk lk' \<longleftrightarrow>
     (case lk_cb lk of None \<Rightarrow> lk_cb lk' = None | Some cb \<Rightarrow> \<exists>cb'. lk_cb lk' = Some cb' \<and> runs_to cb cb')"

lemma store_link_runs:
  assumes "link_runs (link_of rg sid e w) lk"
  shows "breakers_run rg (store_link sid e lk rg)"
proof (cases "lk_cb lk")
  case None
  then show ?thesis by (intro breakers_run_same) (simp add: store_link_def)
next
  case (Some cb)
  then have "runs_to (breaker_of (rg_cb rg) sid) cb"
    using assms by (auto simp: link_runs_def link_of_def breaker_of_def split: option.splits if_splits)
  then show ?thesis using Some by (intro breakers_run_put [where sid = sid and cb = cb]) (simp_all add: store_link_def)
qed

lemma gate_keeps:
  "gate sdk lk = (g, lk') \<Longrightarrow>
   lk_client lk' = lk_client lk \<and> lk_world lk' = lk_world lk \<and> (lk_cb lk' = None \<longleftrightarrow> lk_cb lk = None)"
  by (auto simp: gate_def split: option.splits prod.splits sum.splits)

lemma gate_runs: "link_runs lk (snd (gate sdk lk))"
proof (cases "lk_cb lk")
  case (Some cb)
  have "lk_cb (snd (gate sdk lk)) = Some (snd (before_call (sdk_now sdk (lk_world lk)) cb))"
    using Some by (auto simp: gate_def split: prod.splits sum.splits)
  then show ?thesis using Some by (auto simp: link_runs_def)
qed (simp add: gate_def link_runs_def)

lemma report_result:
  assumes "report sdk res lk = (rep, lk')"
  shows "lk_cb lk' = map_option (if isl rep then on_failure (sdk_now sdk (lk_world lk)) else on_success) (lk_cb lk)"
  using assms reset_session_keeps [of sdk "on_err sdk lk"]
  by (auto simp: report_def on_err_def on_ok_def split: sum.splits call_exc.splits)

lemma list_attempt_keeps:
  "list_attempt sdk n lk = (r, lk') \<Longrightarrow> lk_cb lk' = lk_cb lk"
  by (auto simp: list_attempt_def split: prod.splits sum.splits if_splits dest: get_session_keeps)

lemma list_attempts_keep_cb:
  "attempts_from left again (list_attempt sdk) n lk = (r, lk') \<Longrightarrow> lk_cb lk' = lk_cb lk"
  by (rule attempts_from_keeps [where keep = lk_cb]) (auto dest: list_attempt_keeps)

lemma guarded_call_runs:
  assumes "retries_as_documented sdk"
    and keep: "\<And>lk r lk'. attempts_from 2 retriable body 1 lk = (r, lk') \<Longrightarrow> lk_cb lk' = lk_cb lk"
    and "guarded_call sdk body lk = (q, lk')"
  shows "link_runs lk lk'"
proof -
  obtain g lk1 where g: "gate sdk lk = (g, lk1)" by fastforce
  then have r1: "link_runs lk lk1" using gate_runs [of lk sdk] by simp
  show ?thesis
  proof (cases g)
    case (Inl e)
    then show ?thesis using assms(3) g r1 by (simp add: guarded_call_def)
  next
    case (Inr u)
    obtain res lk2 where a: "attempts_from 2 retriable body 1 lk1 = (res, lk2)" by fastforce
    then have "report sdk res lk2 = (q, lk')"
      using assms(3) g Inr by (simp add: guarded_call_def three_attempts [OF assms(1)])
    then have "link_runs lk1 lk'"
      using report_result keep [OF a] by (fastforce simp: link_runs_def split: option.splits)
    then show ?thesis using r1 runs_to_trans by (fastforce simp: link_runs_def split: option.splits)
  qed
qed

lemma call_tool_runs:
  "retries_as_documented sdk \<Longrightarrow> call_tool sdk name args a lk = (r, lk') \<Longrightarrow> link_runs lk lk'"
  by (auto simp: call_tool_def split: prod.splits sum.splits intro!: guarded_call_runs dest: call_attempts_keep_cb)

lemma list_tools_runs:
  "retries_as_documented sdk \<Longrightarrow> list_tools sdk lk = (r, lk') \<Longrightarrow> link_runs lk lk'"
  by (auto simp: list_tools_def split: prod.splits sum.splits intro!: guarded_call_runs dest: list_attempts_keep_cb)

section \<open>The turns of a call and of a synchronisation\<close>

definition report_reply :: "('w, 'c, 's) outside \<Rightarrow> string \<Rightarrow> bool \<Rightarrow> 'w \<Rightarrow> ('c, 's) server_registry \<Rightarrow> ('c, 's) server_registry" where
  \<comment> \<open>\<open>_on_ok\<close> or \<open>_on_err\<close> on the breaker kept under the server's id\<close>
  "report_reply os sid ok w rg =
     (case if cr_enabled (rg_cb rg) then dict_get (cr_breakers (rg_cb rg)) sid else None of
        None \<Rightarrow> rg
      | Some cb \<Rightarrow>
          rg\<lparr> rg_cb := (rg_cb rg)\<lparr> cr_breakers :=
            dict_put sid (if ok then on_success cb else on_failure (sdk_now (os_sdk os) w) cb) (cr_breakers (rg_cb rg)) \<rparr> \<rparr>)"

definition network_turn :: "string \<Rightarrow> ('c, 's) mcp_client \<Rightarrow> ('c, 's) server_registry \<Rightarrow> ('c, 's) server_registry" where
  \<comment> \<open>whatever the calls in flight do to the session of a client\<close>
  "network_turn sid c rg =
     (case dict_get (rg_entries rg) sid of None \<Rightarrow> rg | Some e \<Rightarrow> put_entry sid (e\<lparr> re_client := c \<rparr>) rg)"

datatype sync_begun = NotSynced | GateRefused upstream_error | Listing

definition begin_sync ::
  "('w, 'c, 's) outside \<Rightarrow> string \<Rightarrow> ('c, 's) server_registry \<Rightarrow> 'w \<Rightarrow> sync_begun \<times> ('c, 's) server_registry" where
  \<comment> \<open>\<open>sync_one\<close> up to the gate of the circuit breaker in \<open>list_tools\<close>\<close>
  "begin_sync os server_id rg w =
     (case dict_get (rg_entries rg) server_id of
        None \<Rightarrow> (NotSynced, rg)
      | Some entry \<Rightarrow>
          if \<not> us_enabled (re_server entry) then (NotSynced, rg)
          else
            (let (g, lk) = gate (os_sdk os) (link_of rg server_id entry w)
             in (case g of Inl exc \<Rightarrow> GateRefused exc | Inr _ \<Rightarrow> Listing, store_link server_id entry lk rg)))"

definition finish_sync ::
  "('w, 'c, 's) outside \<Rightarrow> string \<Rightarrow> ('c, 's) registry_entry option \<Rightarrow> upstream_error + raw_tool list \<Rightarrow> 'w \<Rightarrow>
   ('c, 's) server_registry \<Rightarrow> bool \<times> ('c, 's) server_registry" where
  \<comment> \<open>the rest of \<open>sync_one\<close>; an entry that has left the registry is given, any other is the one under the id\<close>
  "finish_sync os server_id orphan listing w rg =
     (case orphan of
        Some entry \<Rightarrow> (re_healthy (synced_entry os rg listing w entry), rg)
      | None \<Rightarrow>
          (case dict_get (rg_entries rg) server_id of
             None \<Rightarrow> (False, rg)
           | Some entry \<Rightarrow>
               (let entry' = synced_entry os rg listing w entry in (re_healthy entry', put_entry server_id entry' rg))))"

record ('c, 's) pending_sync =
  py_sid :: string
  py_listing :: "(upstream_error + raw_tool list) option"       \<comment> \<open>once the server has answered\<close>
  py_orphan :: "('c, 's) registry_entry option"                 \<comment> \<open>the entry, once it has left the registry\<close>

text \<open>\<open>tn_history\<close> records what has been written to registered entries, latest first; no step reads it.\<close>

record ('w, 'c, 's) turns =
  tn_registry :: "('c, 's) server_registry"
  tn_world :: 'w
  tn_syncs :: "(nat, ('c, 's) pending_sync) dict"
  tn_results :: "(nat \<times> bool) list"                             \<comment> \<open>what \<open>sync_one\<close> has returned, latest first\<close>
  tn_history :: "(string \<times> (upstream_error + raw_tool list) \<times> 'w) list"

datatype ('w, 'c, 's) turn =
    Operation registry_event                    \<comment> \<open>an operation from beginning to end\<close>
  | CallGated string                            \<comment> \<open>a call passes, or is refused by, the breaker of a server\<close>
  | CallAnswered string bool
  | NetworkTurn string "('c, 's) mcp_client" 'w
  | SyncBegun nat string
  | SyncAnswered nat "upstream_error + raw_tool list"
  | SyncFinished nat

fun replaces :: "registry_event \<Rightarrow> string \<Rightarrow> bool" where
  \<comment> \<open>the entry under the id is not the same object afterwards\<close>
  "replaces (Register server sync) sid \<longleftrightarrow> us_id server = sid"
| "replaces (Deregister sid') sid \<longleftrightarrow> sid' = sid"
| "replaces CloseAll sid \<longleftrightarrow> True"
| "replaces _ sid \<longleftrightarrow> False"

definition orphaned :: "registry_event \<Rightarrow> ('c, 's) server_registry \<Rightarrow> ('c, 's) pending_sync \<Rightarrow> ('c, 's) pending_sync" where
  "orphaned ev rg py =
     (if py_orphan py = None \<and> replaces ev (py_sid py) then py\<lparr> py_orphan := dict_get (rg_entries rg) (py_sid py) \<rparr> else py)"

definition wrote ::
  "string \<Rightarrow> ('c, 's) registry_entry option \<Rightarrow> upstream_error + raw_tool list \<Rightarrow> ('w, 'c, 's) turns \<Rightarrow>
   (string \<times> (upstream_error + raw_tool list) \<times> 'w) list" where
  "wrote sid orphan listing st = (if orphan = None then (sid, listing, tn_world st) # tn_history st else tn_history st)"

fun turn_step :: "('w, 'c, 's) outside \<Rightarrow> ('w, 'c, 's) turns \<Rightarrow> ('w, 'c, 's) turn \<Rightarrow> ('w, 'c, 's) turns" where
  "turn_step os st (Operation ev) =
     (let (rg, w) = registry_step os (tn_registry st, tn_world st) ev
      in st\<lparr> tn_registry := rg, tn_world := w,
             tn_syncs := map (\<lambda>(n, py). (n, orphaned ev (tn_registry st) py)) (tn_syncs st) \<rparr>)"
| "turn_step os st (CallGated sid) =
     (case dict_get (rg_entries (tn_registry st)) sid of
        None \<Rightarrow> st
      | Some e \<Rightarrow>
          (let (g, lk) = gate (os_sdk os) (link_of (tn_registry st) sid e (tn_world st))
           in st\<lparr> tn_registry := store_link sid e lk (tn_registry st) \<rparr>))"
| "turn_step os st (CallAnswered sid ok) = st\<lparr> tn_registry := report_reply os sid ok (tn_world st) (tn_registry st) \<rparr>"
| "turn_step os st (NetworkTurn sid c w) = st\<lparr> tn_registry := network_turn sid c (tn_registry st), tn_world := w \<rparr>"
| "turn_step os st (SyncBegun n sid) =
     (if n \<in> set (dict_keys (tn_syncs st)) then st
      else (case begin_sync os sid (tn_registry st) (tn_world st) of
              (NotSynced, rg) \<Rightarrow> st\<lparr> tn_registry := rg, tn_results := (n, False) # tn_results st \<rparr>
            | (GateRefused exc, rg) \<Rightarrow>
                (let (ok, rg') = finish_sync os sid None (Inl exc) (tn_world st) rg
                 in st\<lparr> tn_registry := rg', tn_results := (n, ok) # tn_results st,
                        tn_history := wrote sid None (Inl exc) st \<rparr>)
            | (Listing, rg) \<Rightarrow>
                st\<lparr> tn_registry := rg,
                    tn_syncs := dict_put n \<lparr> py_sid = sid, py_listing = None, py_orphan = None \<rparr> (tn_syncs st) \<rparr>))"
| "turn_step os st (SyncAnswered n listing) =
     (case dict_get (tn_syncs st) n of
        None \<Rightarrow> st
      | Some py \<Rightarrow>
          if py_listing py \<noteq> None then st
          else st\<lparr> tn_registry := report_reply os (py_sid py) (\<not> isl listing) (tn_world st) (tn_registry st),
                   tn_syncs := dict_put n (py\<lparr> py_listing := Some listing \<rparr>) (tn_syncs st) \<rparr>)"
| "turn_step os st (SyncFinished n) =
     (case dict_get (tn_syncs st) n of
        None \<Rightarrow> st
      | Some py \<Rightarrow>
          (case py_listing py of
             None \<Rightarrow> st
           | Some listing \<Rightarrow>
               (let (ok, rg) = finish_sync os (py_sid py) (py_orphan py) listing (tn_world st) (tn_registry st)
                in st\<lparr> tn_registry := rg, tn_syncs := dict_del n (tn_syncs st), tn_results := (n, ok) # tn_results st,
                       tn_history := wrote (py_sid py) (py_orphan py) listing st \<rparr>)))"

section \<open>What every turn guarantees\<close>

locale registry_quiet =
  fixes os :: "('w, 'c, 's) outside"
    and R :: "('c, 's) server_registry \<Rightarrow> ('c, 's) server_registry \<Rightarrow> bool"
  assumes same: "R rg rg"
    and trans: "R a b \<Longrightarrow> R b c \<Longrightarrow> R a c"
    and reconnected: "dict_get (rg_entries rg) sid = Some e \<Longrightarrow> R rg (put_entry sid (e\<lparr> re_client := client \<rparr>) rg)"
    and gated: "dict_get (rg_entries rg) sid = Some e \<Longrightarrow>
      R rg (store_link sid e (snd (gate (os_sdk os) (link_of rg sid e w))) rg)"
    and answered: "R rg (report_reply os sid ok w rg)"
    and listed: "dict_get (rg_entries rg) sid = Some e \<Longrightarrow>
      R rg (store_link sid e (snd (list_tools (os_sdk os) (link_of rg sid e w))) rg)"
    and called: "dict_get (rg_entries rg) sid = Some e \<Longrightarrow>
      R rg (store_link sid e (snd (call_tool (os_sdk os) name args agent (link_of rg sid e w))) rg)"
    and written: "dict_get (rg_entries rg) sid = Some e \<Longrightarrow> R rg (put_entry sid (synced_entry os rg listing w e) rg)"
begin

lemma sync_one_guarantee: "sync_one os sid rg w = (ok, rg', w', ms) \<Longrightarrow> R rg rg'"
proof (cases "\<exists>e. dict_get (rg_entries rg) sid = Some e \<and> us_enabled (re_server e)")
  case True
  assume s: "sync_one os sid rg w = (ok, rg', w', ms)"
  obtain e where e: "dict_get (rg_entries rg) sid = Some e" "us_enabled (re_server e)" using True by blast
  obtain r lk where l: "list_tools (os_sdk os) (link_of rg sid e w) = (r, lk)" by fastforce
  have "R rg (store_link sid e lk rg)" using listed [OF e(1), of w] l by simp
  moreover have "R (store_link sid e lk rg) rg'"
    using s e l written [of "store_link sid e lk rg" sid "e\<lparr> re_client := lk_client lk \<rparr>" r "lk_world lk"]
    by (auto simp: sync_one_def Let_def dict.get_put)
  ultimately show "R rg rg'" by (rule trans)
qed (auto simp: sync_one_def same split: option.splits)

lemma sync_all_guarantee: "sync_all os sids rg w = (rg', w', ms) \<Longrightarrow> R rg rg'"
proof (induction sids arbitrary: rg w ms)
  case (Cons sid sids)
  obtain ok rg1 w1 ms1 where one: "sync_one os sid rg w = (ok, rg1, w1, ms1)" by (rule prod_cases4)
  then obtain ms2 where "sync_all os sids rg1 w1 = (rg', w', ms2)" using Cons.prems by (auto split: prod.splits)
  then show ?case using Cons.IH trans sync_one_guarantee [OF one] by blast
qed (simp add: same)

lemma client_call_guarantee:
  "dict_get (rg_entries rg) sid = Some e \<Longrightarrow> client_call os sid e name args agent rg w = (r, rg', w') \<Longrightarrow> R rg rg'"
  using called [of rg sid e name args agent w] by (auto simp: client_call_def split: prod.splits)

lemma network_turn_guarantee: "R rg (network_turn sid c rg)"
  using reconnected [of rg sid] by (auto simp: network_turn_def same split: option.splits)

lemma begin_sync_guarantee: "begin_sync os sid rg w = (b, rg') \<Longrightarrow> R rg rg'"
  using gated [of rg sid _ w] by (auto simp: begin_sync_def same split: option.splits if_splits prod.splits)

lemma finish_sync_guarantee: "finish_sync os sid orphan listing w rg = (ok, rg') \<Longrightarrow> R rg rg'"
  using written [of rg sid] by (auto simp: finish_sync_def Let_def same split: option.splits)

end

text \<open>The second contract adds the operations that change settings, remove entries and enter new ones.\<close>

locale registry_guarantee = registry_quiet os R
  for os :: "('w, 'c, 's) outside" and R :: "('c, 's) server_registry \<Rightarrow> ('c, 's) server_registry \<Rightarrow> bool" +
  assumes change: "dict_get (rg_entries rg) sid = Some e \<Longrightarrow> entry_names e' = entry_names e \<Longrightarrow>
      us_id (re_server e') \<in> {sid, us_id (re_server e)} \<Longrightarrow> R rg (put_entry sid e' rg)"
    and drop: "R rg (rg\<lparr> rg_entries := dict_del sid (rg_entries rg) \<rparr>)"
    and clear: "R rg (rg\<lparr> rg_entries := [] \<rparr>)"
    and enter: "R rg (fst (register_entry os server rg w))"
begin

lemma register_guarantee: "register os server sync rg w = (rg', w', ms) \<Longrightarrow> R rg rg'"
proof -
  assume r: "register os server sync rg w = (rg', w', ms)"
  obtain rg1 w1 where one: "register_entry os server rg w = (rg1, w1)" by fastforce
  then have "R rg rg1" using enter [of rg server w] by simp
  moreover have "R rg1 rg'"
    using r one by (auto simp: register_def same split: if_splits prod.splits dest: sync_one_guarantee)
  ultimately show "R rg rg'" by (rule trans)
qed

lemma deregister_guarantee: "deregister os sid rg w = (b, rg', w', ms) \<Longrightarrow> R rg rg'"
  using drop [of rg sid] by (auto simp: deregister_def Let_def split: option.splits)

lemma set_enabled_guarantee: "set_enabled sid enabled rg = (b, rg') \<Longrightarrow> R rg rg'"
  using change [of rg sid] by (auto simp: set_enabled_def same entry_names_def split: option.splits)

lemma close_registry_guarantee: "close_registry os rg w = (rg', w') \<Longrightarrow> R rg rg'"
  using clear [of rg] by (auto simp: close_registry_def)

lemma registry_step_guarantee: "registry_step os (rg, w) ev = (rg', w') \<Longrightarrow> R rg rg'"
  by (cases ev)
    (auto simp: same split: prod.splits option.splits dest: register_guarantee deregister_guarantee set_enabled_guarantee
      sync_one_guarantee sync_all_guarantee client_call_guarantee close_registry_guarantee)

lemma turn_step_guarantee: "R (tn_registry st) (tn_registry (turn_step os st t))"
proof (cases t)
  case (CallGated sid)
  then show ?thesis using gated [of "tn_registry st" sid _ "tn_world st"] by (auto simp: same split: option.splits prod.splits)
next
  case (SyncBegun n sid)
  then show ?thesis
    by (auto simp: same split: prod.splits sync_begun.splits dest: begin_sync_guarantee finish_sync_guarantee intro: trans)
qed (auto simp: same answered network_turn_guarantee split: option.splits prod.splits
      dest: registry_step_guarantee finish_sync_guarantee)

lemma turns_guarantee: "R (tn_registry st) (tn_registry (run_events (turn_step os) st ts))"
  by (induction ts arbitrary: st) (auto simp: same intro: trans turn_step_guarantee)

end

lemma register_entry_cb:
  "rg_cb (fst (register_entry os server rg w)) = (if cr_enabled (rg_cb rg) then snd (cb_registry_get (us_id server) (rg_cb rg)) else rg_cb rg)"
  by (simp add: register_entry_def Let_def)

lemma cb_get_runs:
  assumes "rg_cb rg' = snd (cb_registry_get sid (rg_cb rg))"
  shows "breakers_run rg rg'"
proof (cases "dict_get (cr_breakers (rg_cb rg)) sid")
  case None
  then show ?thesis using assms
    by (intro breakers_run_put [where sid = sid and cb = "breaker_of (rg_cb rg) sid"])
      (simp_all add: cb_registry_get_def get_or_create_def breaker_of_def)
qed (use assms in \<open>auto simp: cb_registry_get_def get_or_create_def intro: breakers_run_same\<close>)

lemma report_reply_runs: "breakers_run rg (report_reply os sid ok w rg)"
proof (cases "if cr_enabled (rg_cb rg) then dict_get (cr_breakers (rg_cb rg)) sid else None")
  case None
  then show ?thesis by (intro breakers_run_same) (simp add: report_reply_def)
next
  case (Some cb)
  then have "breaker_of (rg_cb rg) sid = cb" by (simp add: breaker_of_def split: if_splits)
  then show ?thesis using Some
    by (intro breakers_run_put [where sid = sid and cb = "if ok then on_success cb else on_failure (sdk_now (os_sdk os) w) cb"])
      (auto simp: report_reply_def)
qed

lemma same_thresholds_put [simp]: "same_thresholds rg (put_entry sid e rg') = same_thresholds rg rg'"
  by (simp add: same_thresholds_def)

lemma same_thresholds_link [simp]: "same_thresholds rg (store_link sid e lk rg)"
  by (simp add: same_thresholds_def same_policy_def store_link_def split: option.splits)

lemma report_reply_keeps [simp]:
  "rg_entries (report_reply os sid ok w rg) = rg_entries rg" "rg_naming (report_reply os sid ok w rg) = rg_naming rg"
  "registry_ok (report_reply os sid ok w rg) = registry_ok rg" "same_thresholds rg (report_reply os sid ok w rg)"
  by (auto simp: report_reply_def same_thresholds_def same_policy_def split: option.splits)

interpretation naming: registry_guarantee os "\<lambda>rg rg'. registry_ok rg \<longrightarrow> registry_ok rg'" for os :: "('w, 'c, 's) outside"
proof unfold_locales
  show "registry_ok rg \<longrightarrow> registry_ok (put_entry sid e' rg)"
    if "dict_get (rg_entries rg) sid = Some e" "entry_names e' = entry_names e" "us_id (re_server e') \<in> {sid, us_id (re_server e)}"
    for rg :: "('c, 's) server_registry" and sid e e'
  proof
    assume ok: "registry_ok rg"
    then have "us_id (re_server e) = sid" using that(1) by (simp add: registry_ok_def)
    then show "registry_ok (put_entry sid e' rg)" using same_names_ok [OF ok that(1)] that(2,3) by simp
  qed
  then show "registry_ok rg \<longrightarrow> registry_ok (put_entry sid (e\<lparr> re_client := c \<rparr>) rg)"
    if "dict_get (rg_entries rg) sid = Some e" for rg :: "('c, 's) server_registry" and sid e c
    using that by (simp add: entry_names_def)
  show "registry_ok rg \<longrightarrow> registry_ok (rg\<lparr> rg_entries := dict_del sid (rg_entries rg) \<rparr>)" for rg :: "('c, 's) server_registry" and sid
    by (auto simp: registry_ok_def dict.get_del distinct_delete intro!: names_unique_upd [OF _ held_del] split: if_splits)
  show "registry_ok rg \<longrightarrow> registry_ok (put_entry sid (synced_entry os rg listing w e) rg)"
    if "dict_get (rg_entries rg) sid = Some e" for rg :: "('c, 's) server_registry" and sid e listing and w :: 'w
    using that by (intro impI synced_entry_ok)
qed (auto simp: empty_ok register_entry_ok store_link_ok)

interpretation thresholds: registry_guarantee os same_thresholds for os :: "('w, 'c, 's) outside"
proof unfold_locales
  show "same_thresholds rg (fst (register_entry os server rg w))" for rg :: "('c, 's) server_registry" and server and w :: 'w
    by (simp add: register_entry_def Let_def same_thresholds_def same_policy_def cb_registry_get_def split: prod.splits)
  show "same_thresholds rg (rg\<lparr> rg_entries := es \<rparr>)" for rg :: "('c, 's) server_registry" and es
    by (simp add: same_thresholds_def same_policy_def)
  then show "same_thresholds rg (rg\<lparr> rg_entries := [] \<rparr>)" for rg :: "('c, 's) server_registry" .
qed (auto intro: same_thresholds_trans)

interpretation breakers: registry_guarantee os "\<lambda>rg rg'. retries_as_documented (os_sdk os) \<longrightarrow> breakers_run rg rg'"
  for os :: "('w, 'c, 's) outside"
proof unfold_locales
  show "retries_as_documented (os_sdk os) \<longrightarrow> breakers_run rg (fst (register_entry os server rg w))"
    for rg :: "('c, 's) server_registry" and server and w :: 'w
    using register_entry_cb [of os server rg w] breakers_run_same cb_get_runs by (auto split: if_splits)
qed (auto intro: breakers_run_same breakers_run_trans store_link_runs gate_runs
      dest: list_tools_runs call_tool_runs simp: prod_eq_iff report_reply_runs)

section \<open>Which entries an operation leaves alone\<close>

lemma sync_one_frame:
  fixes os :: "('w, 'c, 's) outside"
  assumes "sync_one os sid rg w = (ok, rg', w', ms)"
  shows "other \<noteq> sid \<Longrightarrow> dict_get (rg_entries rg') other = dict_get (rg_entries rg) other"
    and "map_option re_server (dict_get (rg_entries rg') other) = map_option re_server (dict_get (rg_entries rg) other)"
proof -
  have "(other \<noteq> sid \<longrightarrow> dict_get (rg_entries rg') other = dict_get (rg_entries rg) other) \<and>
    map_option re_server (dict_get (rg_entries rg') other) = map_option re_server (dict_get (rg_entries rg) other)"
  proof (cases "\<exists>e. dict_get (rg_entries rg) sid = Some e \<and> us_enabled (re_server e)")
    case True
    then show ?thesis using sync_one_cases [OF _ _ assms] by (auto simp: dict.get_put)
  next
    case False
    then show ?thesis using assms by (auto simp: sync_one_def split: option.splits)
  qed
  then show "other \<noteq> sid \<Longrightarrow> dict_get (rg_entries rg') other = dict_get (rg_entries rg) other"
    and "map_option re_server (dict_get (rg_entries rg') other) = map_option re_server (dict_get (rg_entries rg) other)"
    by auto
qed

lemma register_frame:
  fixes os :: "('w, 'c, 's) outside"
  assumes "register os server sync rg w = (rg', w', ms)"
  shows "(sid \<noteq> us_id server \<longrightarrow> dict_get (rg_entries rg') sid = dict_get (rg_entries rg) sid) \<and>
    map_option re_server (dict_get (rg_entries rg') (us_id server)) = Some server"
proof -
  obtain rg1 w1 where one: "register_entry os server rg w = (rg1, w1)" by fastforce
  have e1: "rg_entries rg1 = rg_entries (put_entry (us_id server) (new_entry server (new_mcp_client (os_environ os w1) server)) rg)"
    using one by (auto simp: register_entry_def Let_def)
  show ?thesis
  proof (cases "sync \<and> us_enabled server")
    case True
    obtain ok rg2 w2 ms2 where s: "sync_one os (us_id server) rg1 w1 = (ok, rg2, w2, ms2)" by (rule prod_cases4)
    then have "rg' = rg2" using assms one True by (simp add: register_def)
    then show ?thesis using sync_one_frame [OF s] e1 by (auto simp: dict.get_put new_entry_def)
  next
    case False
    then have "rg' = rg1" using assms one by (auto simp: register_def)
    then show ?thesis using e1 by (simp add: dict.get_put new_entry_def)
  qed
qed

lemma deregister_frame:
  assumes "deregister os sid rg w = (b, rg', w', ms)"
  shows "dict_get (rg_entries rg') other = (if other = sid then None else dict_get (rg_entries rg) other)"
  using assms by (auto simp: deregister_def Let_def dict.get_del split: option.splits)

definition same_ids :: "('c, 's) server_registry \<Rightarrow> ('c, 's) server_registry \<Rightarrow> bool" where
  "same_ids rg rg' \<longleftrightarrow> (\<forall>sid. dict_get (rg_entries rg') sid = None \<longleftrightarrow> dict_get (rg_entries rg) sid = None)"

lemma sync_one_ids: "sync_one os sid rg w = (ok, rg', w', ms) \<Longrightarrow> same_ids rg rg'"
  unfolding same_ids_def using sync_one_frame(2) by (metis option.map_disc_iff)

lemma sync_all_ids: "sync_all os sids rg w = (rg', w', ms) \<Longrightarrow> same_ids rg rg'"
proof (induction sids arbitrary: rg w ms)
  case (Cons sid sids)
  obtain ok rg1 w1 ms1 where one: "sync_one os sid rg w = (ok, rg1, w1, ms1)" by (rule prod_cases4)
  then obtain ms2 where "sync_all os sids rg1 w1 = (rg', w', ms2)" using Cons.prems by (auto split: prod.splits)
  then show ?case using Cons.IH sync_one_ids [OF one] by (simp add: same_ids_def)
qed (simp add: same_ids_def)

lemma operation_ids:
  assumes "\<not> replaces ev sid" and "registry_step os (rg, w) ev = (rg', w')"
  shows "dict_get (rg_entries rg') sid = None \<longleftrightarrow> dict_get (rg_entries rg) sid = None"
proof (cases ev)
  case (Register server sync)
  then show ?thesis using assms register_frame by (fastforce split: prod.splits)
next
  case (Deregister sid')
  then show ?thesis using assms deregister_frame by (fastforce split: prod.splits)
next
  case (SyncOne sid')
  then show ?thesis using assms sync_one_ids by (fastforce simp: same_ids_def split: prod.splits)
next
  case (SyncAll sids)
  then show ?thesis using assms sync_all_ids by (fastforce simp: same_ids_def split: prod.splits)
next
  case (SetEnabled sid' enabled)
  then show ?thesis using assms by (auto simp: set_enabled_def dict.get_put split: option.splits prod.splits if_splits)
next
  case (CallTool sid' name args a)
  then show ?thesis using assms by (auto simp: client_call_def dict.get_put split: option.splits prod.splits if_splits)
qed (use assms in simp)

lemma begin_sync_ids: "begin_sync os sid rg w = (b, rg') \<Longrightarrow> same_ids rg rg'"
  by (auto simp: begin_sync_def same_ids_def dict.get_put split: option.splits if_splits prod.splits)

lemma finish_sync_ids: "finish_sync os sid orphan listing w rg = (ok, rg') \<Longrightarrow> same_ids rg rg'"
  by (auto simp: finish_sync_def same_ids_def dict.get_put Let_def split: option.splits if_splits)

fun is_operation :: "('w, 'c, 's) turn \<Rightarrow> bool" where
  "is_operation (Operation ev) \<longleftrightarrow> True"
| "is_operation _ \<longleftrightarrow> False"

lemma turn_ids: "\<not> is_operation t \<Longrightarrow> same_ids (tn_registry st) (tn_registry (turn_step os st t))"
proof (cases t)
  case (SyncBegun n sid)
  then show ?thesis
    by (auto simp: same_ids_def split: prod.splits sync_begun.splits dest!: begin_sync_ids finish_sync_ids)
qed (auto simp: same_ids_def network_turn_def dict.get_put split: option.splits prod.splits dest!: finish_sync_ids)

section \<open>A pending synchronisation knows its entry\<close>

definition turns_ok :: "('w, 'c, 's) turns \<Rightarrow> bool" where
  \<comment> \<open>the registry is well formed, and what is pending belongs to a registered entry or holds its orphan\<close>
  "turns_ok st \<longleftrightarrow> registry_ok (tn_registry st) \<and>
     (\<forall>n py. dict_get (tn_syncs st) n = Some py \<longrightarrow>
        py_orphan py = None \<longrightarrow> dict_get (rg_entries (tn_registry st)) (py_sid py) \<noteq> None)"

definition at_rest :: "('w, 'c, 's) turns \<Rightarrow> bool" where
  "at_rest st \<longleftrightarrow> registry_ok (tn_registry st) \<and> tn_syncs st = []"

lemma pending_kept:
  assumes "turns_ok st" and "same_ids (tn_registry st) rg"
    and "dict_get (tn_syncs st) n = Some py" and "py_orphan py = None"
  shows "dict_get (rg_entries rg) (py_sid py) \<noteq> None"
  using assms by (auto simp: turns_ok_def same_ids_def)

lemma operation_tracks:
  assumes ok: "turns_ok st" and s: "registry_step os (tn_registry st, tn_world st) ev = (rg, w)"
    and n: "dict_get (map (\<lambda>(n, py). (n, orphaned ev (tn_registry st) py)) (tn_syncs st)) n = Some py'" and o: "py_orphan py' = None"
  shows "dict_get (rg_entries rg) (py_sid py') \<noteq> None"
proof -
  obtain py where py: "dict_get (tn_syncs st) n = Some py" "py' = orphaned ev (tn_registry st) py"
    using n by (auto simp: map_of_map)
  have r: "dict_get (rg_entries (tn_registry st)) (py_sid py) \<noteq> None" if "py_orphan py = None"
    using ok py(1) that by (auto simp: turns_ok_def)
  then have "\<not> replaces ev (py_sid py)" "py' = py" using o py(2) by (auto simp: orphaned_def split: if_splits)
  then show ?thesis using operation_ids [OF _ s] r o by simp
qed

lemma begun_registered:
  "begin_sync os sid rg w = (Listing, rg') \<Longrightarrow> dict_get (rg_entries rg') sid \<noteq> None"
  by (auto simp: begin_sync_def dict.get_put split: option.splits if_splits prod.splits)

lemma turn_step_ok: "turns_ok st \<Longrightarrow> turns_ok (turn_step os st t)"
proof -
  assume ok: "turns_ok st"
  have reg: "registry_ok (tn_registry (turn_step os st t))"
    using naming.turn_step_guarantee [of st os t] ok by (simp add: turns_ok_def)
  have "dict_get (rg_entries (tn_registry (turn_step os st t))) (py_sid py) \<noteq> None"
    if n: "dict_get (tn_syncs (turn_step os st t)) n = Some py" "py_orphan py = None" for n py
  proof (cases t)
    case (Operation ev)
    then show ?thesis using n operation_tracks [OF ok] by (auto split: prod.splits)
  next
    case (SyncBegun m sid)
    then show ?thesis using n ok turn_ids [of t st os] pending_kept [OF ok] begun_registered
      by (fastforce simp: dict.get_put split: if_splits prod.splits sync_begun.splits)
  next
    case (SyncAnswered m listing)
    then show ?thesis using n ok by (auto simp: turns_ok_def dict.get_put split: option.splits if_splits)
  next
    case (SyncFinished m)
    then show ?thesis using n pending_kept [OF ok] turn_ids [of t st os]
      by (auto simp: dict.get_del split: option.splits if_splits prod.splits)
  qed (use n ok in \<open>auto simp: turns_ok_def network_turn_def dict.get_put split: option.splits prod.splits\<close>)
  then show ?thesis using reg by (auto simp: turns_ok_def)
qed

interpretation turning: det_machine at_rest "turn_step os" turns_ok for os :: "('w, 'c, 's) outside"
  by unfold_locales (simp add: at_rest_def turns_ok_def, rule turn_step_ok)

section \<open>Writing to entries, without the turns in between\<close>

definition entry_view ::
  "('c, 's) registry_entry \<Rightarrow> upstream_server \<times> tool_definition list \<times> bool \<times> sync_error option \<times> seconds option" where
  \<comment> \<open>an entry without its client\<close>
  "entry_view e = (re_server e, re_tools e, re_healthy e, re_last_error e, re_last_synced e)"

definition tools_view :: "('c, 's) server_registry \<Rightarrow>
   naming_config \<times> (string \<times> upstream_server \<times> tool_definition list \<times> bool \<times> sync_error option \<times> seconds option) list" where
  \<comment> \<open>what the listings, the lookup of names and the naming loop see of a registry\<close>
  "tools_view rg = (rg_naming rg, map (\<lambda>(sid, e). (sid, entry_view e)) (rg_entries rg))"

definition write_all ::
  "('w, 'c, 's) outside \<Rightarrow> (string \<times> (upstream_error + raw_tool list) \<times> 'w) list \<Rightarrow> ('c, 's) server_registry \<Rightarrow>
   ('c, 's) server_registry" where
  \<comment> \<open>the writes of a history, the oldest, at its end, first\<close>
  "write_all os history = foldr (\<lambda>(sid, listing, w) rg. snd (finish_sync os sid None listing w rg)) history"

lemma view_get:
  "tools_view rg = tools_view rg' \<Longrightarrow>
   map_option entry_view (dict_get (rg_entries rg) sid) = map_option entry_view (dict_get (rg_entries rg') sid)"
proof -
  have m: "map_option entry_view (dict_get es sid) = dict_get (map (\<lambda>(sid, e). (sid, entry_view e)) es) sid" for es
    by (simp add: map_of_map)
  show ?thesis if "tools_view rg = tools_view rg'" using that by (simp add: m tools_view_def)
qed

lemma view_put:
  "tools_view (put_entry sid e rg) =
   (fst (tools_view rg), dict_put sid (entry_view e) (snd (tools_view rg)))"
proof -
  have "map (\<lambda>(sid, e). (sid, entry_view e)) (dict_put sid e es) =
      dict_put sid (entry_view e) (map (\<lambda>(sid, e). (sid, entry_view e)) es)" for es
    by (induction es) auto
  then show ?thesis by (simp add: tools_view_def)
qed

lemma view_claimed:
  fixes rg rg' :: "('c, 's) server_registry"
  shows "tools_view rg = tools_view rg' \<Longrightarrow> claimed_elsewhere rg own = claimed_elsewhere rg' own"
proof -
  have c: "claimed_elsewhere rg own = fold (\<lambda>(sid, v) d. if sid = own then d else
      fold (\<lambda>td d. if truthy_opt (td_qualified_name td) then dict_put (the (td_qualified_name td)) sid d else d) (fst (snd v)) d)
      (snd (tools_view rg)) []" for rg :: "('c, 's) server_registry"
    unfolding claimed_elsewhere_def tools_view_def snd_conv fold_map
    by (intro fold_cong) (auto simp: entry_view_def)
  show ?thesis if "tools_view rg = tools_view rg'" by (simp only: c that)
qed

lemma view_collides:
  fixes rg rg' :: "('c, 's) server_registry"
  shows "tools_view rg = tools_view rg' \<Longrightarrow> collides rg own bare = collides rg' own bare"
proof -
  have c: "collides rg own bare =
      list_ex (\<lambda>(sid, v). sid \<noteq> own \<and> list_ex (\<lambda>t. td_name t = bare) (fst (snd v))) (snd (tools_view rg))"
    for rg :: "('c, 's) server_registry"
  proof -
    have "list_ex (\<lambda>(sid, e). sid \<noteq> own \<and> list_ex (\<lambda>t. td_name t = bare) (re_tools e)) es =
        list_ex (\<lambda>(sid, v). sid \<noteq> own \<and> list_ex (\<lambda>t. td_name t = bare) (fst (snd v))) (map (\<lambda>(sid, e). (sid, entry_view e)) es)"
      for es :: "(string, ('c, 's) registry_entry) dict"
      by (induction es) (auto simp: entry_view_def)
    then show ?thesis by (simp add: collides_def tools_view_def)
  qed
  show ?thesis if "tools_view rg = tools_view rg'" by (simp only: c that)
qed

lemma view_build:
  fixes rg rg' :: "('c, 's) server_registry"
  assumes "tools_view rg = tools_view rg'"
  shows "build_tool_definitions rg server raws = build_tool_definitions rg' server raws"
proof -
  have n: "rg_naming rg' = rg_naming rg" using assms by (simp add: tools_view_def)
  have d: "decide_name rg server name = decide_name rg' server name" for name
    using view_collides [OF assms] n by (simp add: decide_name_def)
  have "claim_names rg server existing raws = claim_names rg' server existing raws" for existing
    by (induction raws arbitrary: existing) (simp_all add: d n cong: option.case_cong conflict_policy.case_cong)
  then show ?thesis using view_claimed [OF assms] by (simp add: build_tool_definitions_def)
qed

lemma view_synced:
  fixes rg rg' :: "('c, 's) server_registry"
  assumes "tools_view rg = tools_view rg'" and "entry_view e = entry_view e'"
  shows "entry_view (synced_entry os rg listing w e) = entry_view (synced_entry os rg' listing w e')"
  using assms(2) view_build [OF assms(1)] by (auto simp: synced_entry_def entry_view_def split: sum.splits)

lemma view_finish:
  fixes rg rg' :: "('c, 's) server_registry"
  assumes "tools_view rg = tools_view rg'"
  shows "tools_view (snd (finish_sync os sid None listing w rg)) = tools_view (snd (finish_sync os sid None listing w rg'))"
proof (cases "dict_get (rg_entries rg) sid")
  case None
  then show ?thesis using view_get [OF assms, of sid] assms by (simp add: finish_sync_def)
next
  case (Some e)
  then obtain e' where e': "dict_get (rg_entries rg') sid = Some e'" "entry_view e = entry_view e'"
    using view_get [OF assms, of sid] by (cases "dict_get (rg_entries rg') sid") auto
  show ?thesis
    using Some e'(1) view_synced [OF assms e'(2), of os listing w] assms by (simp add: finish_sync_def Let_def view_put)
qed

section \<open>The turns of one synchronisation\<close>

lemma turns_make_the_call:
  assumes e: "dict_get (rg_entries rg) sid = Some e" and cb: "lk_cb lk1 = None \<longleftrightarrow> lk_cb (link_of rg sid e w) = None"
    and c1: "lk_client lk1 = re_client e" and cb3: "lk_cb lk3 = map_option (if \<not> ok then on_failure (sdk_now (os_sdk os) w2) else on_success) (lk_cb lk1)"
  shows "network_turn sid (lk_client lk3) (report_reply os sid ok w2 (network_turn sid c2 (store_link sid e lk1 rg))) =
    store_link sid e lk3 rg"
proof (cases "lk_cb lk1")
  case None
  then have "report_reply os sid ok w2 (network_turn sid c2 (store_link sid e lk1 rg)) = network_turn sid c2 (store_link sid e lk1 rg)"
    using cb e
    by (auto simp: report_reply_def network_turn_def store_link_def put_entry_def link_of_def dict.get_put split: option.splits if_splits)
  then show ?thesis using e cb3 None
    by (simp add: network_turn_def store_link_def put_entry_def dict.get_put)
next
  case (Some cb1)
  then have "cr_enabled (rg_cb rg)" using cb by (auto simp: link_of_def split: if_splits)
  then show ?thesis using e cb3 Some
    by (simp add: report_reply_def network_turn_def store_link_def put_entry_def dict.get_put)
qed

lemma dict_put_same: "dict_get d k = Some v \<Longrightarrow> dict_put k v d = d"
  by (induction d) (auto split: if_splits)

lemma view_client:
  assumes "dict_get (rg_entries rg) sid = Some e"
  shows "tools_view (put_entry sid (e\<lparr> re_client := c \<rparr>) rg) = tools_view rg"
proof -
  have "dict_get (snd (tools_view rg)) sid = Some (entry_view (e\<lparr> re_client := c \<rparr>))"
    using assms by (simp add: tools_view_def map_of_map entry_view_def)
  from dict_put_same [OF this] show ?thesis by (simp add: view_put)
qed

lemma view_link:
  assumes "dict_get (rg_entries rg) sid = Some e"
  shows "tools_view (store_link sid e lk rg) = tools_view rg"
  using view_client [OF assms, of "lk_client lk"] by (simp add: store_link_def tools_view_def)

lemma view_turns:
  "tools_view (report_reply os sid ok w rg) = tools_view rg" "tools_view (network_turn sid c rg) = tools_view rg"
  "tools_view (snd (begin_sync os sid rg w)) = tools_view rg"
proof -
  show "tools_view (report_reply os sid ok w rg) = tools_view rg" by (simp add: tools_view_def)
  show "tools_view (network_turn sid c rg) = tools_view rg"
    using view_client by (auto simp: network_turn_def split: option.splits)
  show "tools_view (snd (begin_sync os sid rg w)) = tools_view rg"
    by (auto simp: begin_sync_def view_link split: option.splits prod.splits)
qed

lemma finish_view:
  assumes "finish_sync os sid orphan listing w rg = (ok, rg')" and "tools_view rg = tools_view (write_all os h rg0)"
  shows "tools_view rg' = tools_view (write_all os (if orphan = None then (sid, listing, w) # h else h) rg0)"
proof (cases orphan)
  case None
  then show ?thesis using assms view_finish [OF assms(2), of os sid listing w] by (simp add: write_all_def)
next
  case (Some e)
  then show ?thesis using assms by (simp add: finish_sync_def)
qed

lemma history_view:
  assumes "\<not> is_operation t" and h: "tools_view (tn_registry st) = tools_view (write_all os (tn_history st) rg)"
  shows "tools_view (tn_registry (turn_step os st t)) = tools_view (write_all os (tn_history (turn_step os st t)) rg)"
proof (cases t)
  case (CallGated sid)
  then show ?thesis using h by (auto simp: view_link split: option.splits prod.splits)
next
  case (SyncBegun n sid)
  obtain b rg1 where b: "begin_sync os sid (tn_registry st) (tn_world st) = (b, rg1)" by fastforce
  then have h1: "tools_view rg1 = tools_view (write_all os (tn_history st) rg)"
    using view_turns(3) [of os sid "tn_registry st" "tn_world st"] h by simp
  then show ?thesis using SyncBegun h b
    by (cases b) (auto simp: wrote_def split: prod.splits dest: finish_view [OF _ h1])
next
  case (SyncFinished n)
  then show ?thesis using h by (auto simp: wrote_def split: option.splits prod.splits dest: finish_view [OF _ h])
qed (use assms in \<open>auto simp: view_turns split: option.splits\<close>)

lemma list_tools_splits:
  fixes lk lk1 lk3 :: "('w, 'c, 's) link"
  assumes re: "retries_as_documented sdk" and l: "list_tools sdk lk = (listing, lk3)"
    and g: "gate sdk lk = (Inr u, lk1)"
  obtains lk2 :: "('w, 'c, 's) link" where "lk_cb lk3 = map_option (if \<not> \<not> isl listing then on_failure (sdk_now sdk (lk_world lk2)) else on_success) (lk_cb lk1)"
proof -
  obtain res and lk2 :: "('w, 'c, 's) link" where a: "attempts_from 2 retriable (list_attempt sdk) 1 lk1 = (res, lk2)" by fastforce
  obtain rep and lk' :: "('w, 'c, 's) link" where rp: "report sdk res lk2 = (rep, lk')" by fastforce
  have "lk' = lk3" "isl rep \<longleftrightarrow> isl listing"
    using l g a rp by (auto simp: list_tools_def guarded_call_def three_attempts [OF re] split: sum.splits)
  then show ?thesis using that [of lk2] report_result [OF rp] list_attempts_keep_cb [OF a] by simp
qed

lemma sync_one_turns:
  fixes os :: "('w, 'c, 's) outside"
  assumes re: "retries_as_documented (os_sdk os)" and e: "dict_get (rg_entries rg) sid = Some e" "us_enabled (re_server e)"
    and g: "gate (os_sdk os) (link_of rg sid e w) = (Inr u, lk1)"
    and l: "list_tools (os_sdk os) (link_of rg sid e w) = (listing, lk3)"
  obtains c2 w2 where "network_turn sid (lk_client lk3) (report_reply os sid (\<not> isl listing) w2
      (network_turn sid c2 (store_link sid e lk1 rg))) = store_link sid e lk3 rg"
proof (rule list_tools_splits [OF re l g])
  fix lk2 :: "('w, 'c, 's) link"
  assume "lk_cb lk3 = map_option (if \<not> \<not> isl listing then on_failure (sdk_now (os_sdk os) (lk_world lk2)) else on_success) (lk_cb lk1)"
  from turns_make_the_call [OF e(1) _ _ this] have "network_turn sid (lk_client lk3)
      (report_reply os sid (\<not> isl listing) (lk_world lk2) (network_turn sid c (store_link sid e lk1 rg))) = store_link sid e lk3 rg" for c
    using gate_keeps [OF g] by (simp add: link_of_def)
  then show ?thesis by (rule that)
qed

section \<open>Properties\<close>

text \<open>A synchronisation is a schedule of its two halves, with the answer of the server and turns of the network
  in between: run without other turns it leaves the registry, the outside and the result of \<open>sync_one\<close>, and nothing
  pending.\<close>

theorem syncs_run_in_turns:
  fixes st :: "('w, 'c, 's) turns"
  assumes re: "retries_as_documented (os_sdk os)" and n: "n \<notin> set (dict_keys (tn_syncs st))"
    and s: "sync_one os sid (tn_registry st) (tn_world st) = (ok, rg', w', ms)"
  shows "\<exists>ts h. \<not> list_ex is_operation ts \<and>
    run_events (turn_step os) st ts =
      st\<lparr> tn_registry := rg', tn_world := w', tn_results := (n, ok) # tn_results st, tn_history := h \<rparr>"
proof (cases "\<exists>e. dict_get (rg_entries (tn_registry st)) sid = Some e \<and> us_enabled (re_server e)")
  case False
  then have "begin_sync os sid (tn_registry st) (tn_world st) = (NotSynced, tn_registry st)" "\<not> ok" "rg' = tn_registry st" "w' = tn_world st"
    using s by (auto simp: begin_sync_def sync_one_def split: option.splits)
  then show ?thesis using n by (intro exI [of _ "[SyncBegun n sid]"] exI [of _ "tn_history st"]) simp
next
  case True
  let ?rg = "tn_registry st" and ?w = "tn_world st"
  obtain e where e: "dict_get (rg_entries ?rg) sid = Some e" "us_enabled (re_server e)" using True by blast
  obtain listing lk3 where l: "list_tools (os_sdk os) (link_of ?rg sid e ?w) = (listing, lk3)" by fastforce
  obtain g lk1 where g: "gate (os_sdk os) (link_of ?rg sid e ?w) = (g, lk1)" by fastforce
  have f: "finish_sync os sid None listing w' (store_link sid e lk3 ?rg) = (ok, rg')" "w' = lk_world lk3"
    using s e l by (auto simp: sync_one_def finish_sync_def Let_def dict.get_put)
  show ?thesis
  proof (cases g)
    case (Inl exc)
    then have "listing = Inl exc" "lk3 = lk1" using l g by (auto simp: list_tools_def guarded_call_def)
    then show ?thesis using f gate_keeps [OF g] e g Inl n
      by (intro exI [of _ "[SyncBegun n sid]"] exI [of _ "wrote sid None (Inl exc) st"]) (simp add: begin_sync_def link_of_def)
  next
    case (Inr u)
    obtain c2 w2 where t: "network_turn sid (lk_client lk3) (report_reply os sid (\<not> isl listing) w2
        (network_turn sid c2 (store_link sid e lk1 ?rg))) = store_link sid e lk3 ?rg"
      using sync_one_turns [OF re e g [unfolded Inr] l] by blast
    have b: "begin_sync os sid ?rg ?w = (Listing, store_link sid e lk1 ?rg)" using e g Inr by (simp add: begin_sync_def)
    let ?ts = "[SyncBegun n sid, NetworkTurn sid c2 w2, SyncAnswered n listing, NetworkTurn sid (lk_client lk3) w', SyncFinished n]"
    have "dict_del n (dict_put n b (dict_put n a (tn_syncs st))) = tn_syncs st" for a b
      using n by (simp add: AList.delete_update_same AList.delete_idem)
    then show ?thesis using n b t f
      by (intro exI [of _ ?ts] exI [of _ "(sid, listing, w') # tn_history st"]) (simp add: wrote_def dict.get_put)
  qed
qed

text \<open>C12. However synchronisations, calls and turns of the network are interleaved, the tools, the health and the errors of
  the servers are those of writing the answers one after the other, in the order in which the synchronisations
  end.\<close>

theorem syncs_take_effect_at_once:
  assumes "tn_history st = []" and "\<not> list_ex is_operation ts"
  shows "tools_view (tn_registry (run_events (turn_step os) st ts)) =
    tools_view (write_all os (tn_history (run_events (turn_step os) st ts)) (tn_registry st))"
proof -
  have "tools_view (tn_registry (run_events (turn_step os) st' ts)) =
      tools_view (write_all os (tn_history (run_events (turn_step os) st' ts)) rg)"
    if "tools_view (tn_registry st') = tools_view (write_all os (tn_history st') rg)" for st' and rg
    using assms(2) that
  proof (induction ts arbitrary: st')
    case (Cons t ts)
    then show ?case using history_view [of t st' os rg] by simp
  qed simp
  from this [of st "tn_registry st"] show ?thesis using assms(1) by (simp add: write_all_def)
qed

text \<open>Whatever is interleaved, removals and registrations included, the registry keeps one entry per id under its own id
  and, unless the policy is \<open>suffix\<close>, no qualified name is held twice.\<close>

theorem interleaved_syncs_keep_names:
  assumes "rg_entries (tn_registry st) = []" and "tn_syncs st = []"
    and "st' = run_events (turn_step os) st ts"
  shows "distinct (dict_keys (rg_entries (tn_registry st'))) \<and>
    (nc_on_conflict (rg_naming (tn_registry st)) \<noteq> Suffix \<longrightarrow> names_unique (tn_registry st'))"
proof -
  have "turns_ok st'" unfolding assms(3) by (rule turning.run_from_init) (simp add: at_rest_def empty_ok assms)
  moreover have "rg_naming (tn_registry st') = rg_naming (tn_registry st)"
    using thresholds.turns_guarantee [of st os ts] assms(3) by (simp add: same_thresholds_def)
  ultimately show ?thesis by (simp add: turns_ok_def registry_ok_def)
qed

lemma replaced_removed:
  assumes "replaces ev sid" and "\<And>server sync. ev = Register server sync \<Longrightarrow> us_id server \<noteq> sid"
    and "registry_step os (rg, w) ev = (rg', w')"
  shows "dict_get (rg_entries rg') sid = None"
proof (cases ev)
  case (Deregister sid')
  then show ?thesis using assms deregister_frame by (fastforce split: prod.splits)
qed (use assms in \<open>auto simp: close_registry_def\<close>)

lemma removal_lasts:
  assumes "dict_get (rg_entries (tn_registry st)) sid = None"
    and "\<And>server sync. t = Operation (Register server sync) \<Longrightarrow> us_id server \<noteq> sid"
  shows "dict_get (rg_entries (tn_registry (turn_step os st t))) sid = None"
proof (cases t)
  case (Operation ev)
  obtain rg w where s: "registry_step os (tn_registry st, tn_world st) ev = (rg, w)" by fastforce
  have "dict_get (rg_entries rg) sid = None"
    using replaced_removed [OF _ _ s] operation_ids [OF _ s] assms Operation by (cases "replaces ev sid") auto
  then show ?thesis using Operation s by simp
qed (use assms(1) turn_ids [of t st os] in \<open>auto simp: same_ids_def\<close>)

text \<open>A server that has been removed is not brought back by a synchronisation that was under way: as long as nobody
  registers it, no sequence of turns makes its id appear.\<close>

theorem removed_servers_stay_removed:
  assumes "dict_get (rg_entries (tn_registry st)) sid = None"
    and "\<And>server sync. Operation (Register server sync) \<in> set ts \<Longrightarrow> us_id server \<noteq> sid"
  shows "dict_get (rg_entries (tn_registry (run_events (turn_step os) st ts))) sid = None"
  using assms
proof (induction ts arbitrary: st)
  case (Cons t ts)
  have "dict_get (rg_entries (tn_registry (turn_step os st t))) sid = None"
    by (rule removal_lasts [OF Cons.prems(1)]) (use Cons.prems(2) in auto)
  then show ?case using Cons.IH [of "turn_step os st t"] Cons.prems(2) by auto
qed simp

definition listing_of :: "string list \<Rightarrow> upstream_error + raw_tool list" where
  "listing_of names = Inr (map (\<lambda>n. tool_to_dict (named_tool n)) names)"

definition two_syncs :: "(nat, nat, nat) turn list" where
  \<comment> \<open>two servers are registered, both listings are under way at once, and the second ends first\<close>
  "two_syncs =
     [Operation (Register (upstream ''pg'' ''pg'' ''http://pg'') False), Operation (Register (upstream ''gh'' ''gh'' ''http://gh'') False),
      SyncBegun 0 ''pg'', SyncBegun 1 ''gh'', SyncAnswered 0 (listing_of [''query'']), SyncAnswered 1 (listing_of [''query'']),
      SyncFinished 1, SyncFinished 0]"

definition no_turns :: "(nat, nat) server_registry \<Rightarrow> (nat, nat, nat) turns" where
  "no_turns rg = \<lparr> tn_registry = rg, tn_world = 0, tn_syncs = [], tn_results = [], tn_history = [] \<rparr>"

abbreviation after_turns :: "(nat, nat, nat) turn list \<Rightarrow> (nat, nat, nat) turns" where
  "after_turns ts \<equiv> run_events (turn_step (serving (\<lambda>n. [''query'']))) (no_turns (empty_registry Bare Warn)) ts"

lemma two_syncs_run:
  "held (tn_registry (after_turns two_syncs)) ''gh'' = [''query''] \<and> held (tn_registry (after_turns two_syncs)) ''pg'' = [] \<and>
   tn_results (after_turns two_syncs) = [(0, True), (1, True)]"
  by code_simp

lemma serving_documented: "retries_as_documented (os_sdk (serving names))"
  using demo_documented by (simp add: serving_def retries_as_documented_def)

definition before_syncs :: "(nat, nat, nat) turns" where
  "before_syncs = after_turns (take 2 two_syncs)"

theorem syncs_run_in_turns_witness:
  "\<exists>ts. tn_results (run_events (turn_step (serving (\<lambda>n. [''query'']))) before_syncs ts) = [(7, True)]"
proof -
  have "fst (sync_one (serving (\<lambda>n. [''query''])) ''pg'' (tn_registry before_syncs) (tn_world before_syncs))"
    by code_simp
  then obtain rg' w' ms where s: "sync_one (serving (\<lambda>n. [''query''])) ''pg'' (tn_registry before_syncs) (tn_world before_syncs) =
      (True, rg', w', ms)"
    by (cases "sync_one (serving (\<lambda>n. [''query''])) ''pg'' (tn_registry before_syncs) (tn_world before_syncs)") auto
  have "tn_syncs before_syncs = [] \<and> tn_results before_syncs = []" by code_simp
  then obtain ts h where "run_events (turn_step (serving (\<lambda>n. [''query'']))) before_syncs ts =
      before_syncs\<lparr> tn_registry := rg', tn_world := w', tn_results := [(7, True)], tn_history := h \<rparr>"
    using syncs_run_in_turns [OF serving_documented _ s, of 7] by auto
  then show ?thesis by (intro exI [of _ ts]) simp
qed

theorem syncs_take_effect_at_once_witness:
  "\<exists>history. map fst history = [''pg'', ''gh''] \<and>
     tools_view (tn_registry (run_events (turn_step (serving (\<lambda>n. [''query'']))) before_syncs (drop 2 two_syncs))) =
     tools_view (write_all (serving (\<lambda>n. [''query''])) history (tn_registry before_syncs))"
proof -
  let ?last = "run_events (turn_step (serving (\<lambda>n. [''query'']))) before_syncs (drop 2 two_syncs)"
  have order: "map fst (tn_history ?last) = [''pg'', ''gh'']" and none: "tn_history before_syncs = []" by code_simp+
  have "\<not> list_ex is_operation (drop 2 two_syncs)" by (simp add: two_syncs_def)
  from order syncs_take_effect_at_once [OF none this, of "serving (\<lambda>n. [''query''])"]
  have "map fst (tn_history ?last) = [''pg'', ''gh''] \<and>
      tools_view (tn_registry ?last) = tools_view (write_all (serving (\<lambda>n. [''query''])) (tn_history ?last) (tn_registry before_syncs))"
    by (rule conjI)
  then show ?thesis by (rule exI)
qed

theorem interleaved_syncs_keep_names_witness: "names_unique (tn_registry (after_turns two_syncs))"
  using interleaved_syncs_keep_names [of "no_turns (empty_registry Bare Warn)" "after_turns two_syncs" "serving (\<lambda>n. [''query''])" two_syncs]
  by (simp add: no_turns_def empty_registry_def new_server_registry_def Let_def)

theorem removed_servers_stay_removed_witness:
  "dict_get (rg_entries (tn_registry (run_events (turn_step (serving (\<lambda>n. [''query''])))
     (after_turns [Operation (add ''pg''), SyncBegun 0 ''pg'', Operation (Deregister ''pg'')])
     [SyncAnswered 0 (listing_of [''query'']), SyncFinished 0]))) ''pg'' = None"
proof (rule removed_servers_stay_removed)
  have "map fst (rg_entries (tn_registry (after_turns [Operation (add ''pg''), SyncBegun 0 ''pg'', Operation (Deregister ''pg'')]))) = []"
    by code_simp
  then show "dict_get (rg_entries (tn_registry (after_turns [Operation (add ''pg''), SyncBegun 0 ''pg'',
      Operation (Deregister ''pg'')]))) ''pg'' = None" by simp
qed simp

end
