(* ===== verification/Lifecycle.thy ===== *)
theory Lifecycle
  imports Orchestrator Registry_Turns
begin

text \<open>
  \<open>app/main.py\<close> and \<open>app/admin/reload.py\<close>: how the components are built from the configuration, the
  registration of the configured servers at startup, the health sweep, the shutdown, and the reload of the
  configuration at run time.

  \<open>app_state\<close> is \<open>app.state\<close>; the registry and the audit store are those of its orchestrator, as in the
  code. \<open>app_env\<close> holds the outside: the file and its parsers, the Presidio engine, the compiler of regular
  expressions, and the order \<open>ap_iter\<close> in which a set of strings is iterated. A reload runs as one step
  here, and in \<open>Tasks\<close> as a sequence of actions with anything in between. Closing HTTP clients of dispatchers that
  are dropped changes nothing that is modelled.
\<close>

section \<open>State\<close>

record ('c, 's) app_state =
  app_settings :: settings
  app_config :: gateway_config
  app_ox :: "('c, 's) orchestrator"
  app_authorizer :: authorizer

record ('w, 'c, 's) app_env =
  ae_gateway :: "('w, 'c, 's) gateway_env"
  ae_read_file :: "'w \<Rightarrow> string \<Rightarrow> string option"
  ae_safe_load :: "string \<Rightarrow> config_error + json"
  ae_parse_fields :: "json \<Rightarrow> config_error + gateway_config"
  ae_analyzer :: "string + analyzer"
  ae_compile :: re_engine
  ae_iter :: "string set \<Rightarrow> string list"
  ae_isoformat :: "'w \<Rightarrow> string"

abbreviation ae_outside :: "('w, 'c, 's) app_env \<Rightarrow> ('w, 'c, 's) outside" where
  "ae_outside ae \<equiv> ge_outside (ae_gateway ae)"

definition load_config :: "('w, 'c, 's) app_env \<Rightarrow> settings \<Rightarrow> 'w \<Rightarrow> config_error + gateway_config" where
  "load_config ae st w =
     load_gateway_config (ae_read_file ae w) (ae_safe_load ae) (ae_parse_fields ae) (st_config_path st)"

section \<open>Startup and shutdown\<close>

definition build_components ::
  "('w, 'c, 's) app_env \<Rightarrow> gateway_config \<Rightarrow> regex_error + ('c, 's) orchestrator" where
  "build_components ae cfg =
     (case new_safety_filter (ae_compile ae) (gc_guardrails cfg) of
        Inl e \<Rightarrow> Inl e
      | Inr safety \<Rightarrow>
          Inr \<lparr> ox_registry = new_server_registry (Some (gc_circuit_breaker cfg)) (Some (gc_naming cfg)),
                ox_authorizer = new_authorizer (gc_auth cfg),
                ox_redactor = new_redactor (ae_analyzer ae) (gc_redaction cfg),
                ox_safety = safety,
                ox_rate_limiter = Some (new_rate_limiter (gc_rate_limiting cfg)),
                ox_audit = Some new_audit_store,
                ox_schema = Some (gc_schema_validation cfg),
                ox_cache = Some (new_tool_cache (gc_cache cfg)),
                ox_webhooks = Some (new_dispatcher (gc_webhooks cfg)) \<rparr>)"

fun register_all ::
  "('w, 'c, 's) outside \<Rightarrow> upstream_server list \<Rightarrow> ('c, 's) server_registry \<Rightarrow> 'w \<Rightarrow>
   ('c, 's) server_registry \<times> 'w \<times> metric list" where
  "register_all os [] rg w = (rg, w, [])"
| "register_all os (server # servers) rg w =
     (let (rg1, w1, ms1) = register os server True rg w;
          (rg2, w2, ms2) = register_all os servers rg1 w1
      in (rg2, w2, ms1 @ ms2))"

datatype config_failure =
    LoadFailed config_error
  | FilterFailed regex_error

definition startup ::
  "('w, 'c, 's) app_env \<Rightarrow> ('d \<Rightarrow> 'd) \<Rightarrow> settings \<Rightarrow> 'w \<Rightarrow> 'd \<Rightarrow>
   (config_failure + ('c, 's) app_state) \<times> 'w \<times> 'd \<times> metric list" where
  \<comment> \<open>\<open>lifespan\<close> up to its \<open>yield\<close>; \<open>create_all\<close> makes the tables of the audit database\<close>
  "startup ae create_all st w d =
     (case load_config ae st w of
        Inl e \<Rightarrow> (Inl (LoadFailed e), w, d, [])
      | Inr cfg \<Rightarrow>
          (case build_components ae cfg of
             Inl e \<Rightarrow> (Inl (FilterFailed e), w, d, [])
           | Inr ox \<Rightarrow>
               (let (store, d1) = start_store create_all new_audit_store d;
                    (rg, w1, ms) = register_all (ae_outside ae) (gc_upstreams cfg) (ox_registry ox) w
                in (Inr \<lparr> app_settings = st, app_config = cfg,
                          app_ox = ox\<lparr> ox_registry := rg, ox_audit := Some store \<rparr>,
                          app_authorizer = ox_authorizer ox \<rparr>, w1, d1, ms))))"

definition health_sweep ::
  "('w, 'c, 's) app_env \<Rightarrow> string list \<Rightarrow> ('c, 's) app_state \<Rightarrow> 'w \<Rightarrow> ('c, 's) app_state \<times> 'w \<times> metric list" where
  \<comment> \<open>one turn of the loop, with the entries in the order in which their synchronisation ends\<close>
  "health_sweep ae sids app w =
     (let (rg, w', ms) = sync_all (ae_outside ae) sids (ox_registry (app_ox app)) w
      in (app\<lparr> app_ox := (app_ox app)\<lparr> ox_registry := rg \<rparr> \<rparr>, w', ms))"

definition shutdown ::
  "('w, 'c, 's) app_env \<Rightarrow> (audit_entry list \<Rightarrow> 'd \<Rightarrow> (string + unit) \<times> 'd) \<Rightarrow> ('d \<Rightarrow> 'd) \<Rightarrow>
   ('c, 's) app_state \<Rightarrow> 'w \<Rightarrow> 'd \<Rightarrow> ('c, 's) app_state \<times> 'w \<times> 'd" where
  \<comment> \<open>the \<open>finally\<close> of \<open>lifespan\<close>\<close>
  "shutdown ae commit dispose app w d =
     (let ox = app_ox app;
          (rg, w1) = close_registry (ae_outside ae) (ox_registry ox) w;
          (audit, d1) = (case ox_audit ox of
                           None \<Rightarrow> (None, d)
                         | Some s \<Rightarrow> (let (s', d') = stop_store commit dispose s d in (Some s', d')))
      in (app\<lparr> app_ox := ox\<lparr> ox_registry := rg, ox_audit := audit \<rparr> \<rparr>, w1, d1))"

section \<open>The reload\<close>

fun deregister_all ::
  "('w, 'c, 's) outside \<Rightarrow> string list \<Rightarrow> ('c, 's) server_registry \<Rightarrow> 'w \<Rightarrow>
   ('c, 's) server_registry \<times> 'w \<times> metric list" where
  "deregister_all os [] rg w = (rg, w, [])"
| "deregister_all os (sid # sids) rg w =
     (let (b, rg1, w1, ms1) = deregister os sid rg w;
          (rg2, w2, ms2) = deregister_all os sids rg1 w1
      in (rg2, w2, ms1 @ ms2))"

definition reload_upstream ::
  "('w, 'c, 's) outside \<Rightarrow> upstream_server list \<Rightarrow> string set \<Rightarrow> string set \<Rightarrow> upstream_server \<Rightarrow>
   ('c, 's) server_registry \<Rightarrow> 'w \<Rightarrow> ('c, 's) server_registry \<times> 'w \<times> metric list" where
  \<comment> \<open>one turn of the loop over the new servers\<close>
  "reload_upstream os old_upstreams added maybe_changed server rg w =
     (if us_id server \<in> added then register os server True rg w
      else if us_id server \<in> maybe_changed then
        (let old = the (find (\<lambda>s. us_id s = us_id server) old_upstreams)
         in if us_base_url old \<noteq> us_base_url server \<or> us_transport old \<noteq> us_transport server
            then (let (b, rg1, w1, ms1) = deregister os (us_id server) rg w;
                      (rg2, w2, ms2) = register os server True rg1 w1
                  in (rg2, w2, ms1 @ ms2))
            else (case dict_get (rg_entries rg) (us_id server) of
                    None \<Rightarrow> (rg, w, [])
                  | Some entry \<Rightarrow> (put_entry (us_id server) (entry\<lparr> re_server := server \<rparr>) rg, w, [])))
      else (rg, w, []))"

fun reload_upstreams ::
  "('w, 'c, 's) outside \<Rightarrow> upstream_server list \<Rightarrow> string set \<Rightarrow> string set \<Rightarrow> upstream_server list \<Rightarrow>
   ('c, 's) server_registry \<Rightarrow> 'w \<Rightarrow> ('c, 's) server_registry \<times> 'w \<times> metric list" where
  "reload_upstreams os olds added changed [] rg w = (rg, w, [])"
| "reload_upstreams os olds added changed (server # servers) rg w =
     (let (rg1, w1, ms1) = reload_upstream os olds added changed server rg w;
          (rg2, w2, ms2) = reload_upstreams os olds added changed servers rg1 w1
      in (rg2, w2, ms1 @ ms2))"

record reload_result =
  rr_reloaded_at :: string
  rr_added :: "string list"
  rr_removed :: "string list"
  rr_updated :: "string list"

definition do_reload ::
  "('w, 'c, 's) app_env \<Rightarrow> ('c, 's) app_state \<Rightarrow> 'w \<Rightarrow>
   (config_failure + reload_result) \<times> ('c, 's) app_state \<times> 'w \<times> metric list" where
  \<comment> \<open>an exception of the safety filter leaves what has been assigned before it\<close>
  "do_reload ae app w =
     (case load_config ae (app_settings app) w of
        Inl e \<Rightarrow> (Inl (LoadFailed e), app, w, [])
      | Inr new_cfg \<Rightarrow>
          (let os = ae_outside ae;
               ox = app_ox app;
               old_ids = set (map us_id (gc_upstreams (app_config app)));
               new_ids = set (map us_id (gc_upstreams new_cfg));
               removed = old_ids - new_ids;
               added = new_ids - old_ids;
               maybe_changed = old_ids \<inter> new_ids;
               (rg1, w1, ms1) = deregister_all os (ae_iter ae removed) (ox_registry ox) w;
               (rg2, w2, ms2) = reload_upstreams os (gc_upstreams (app_config app)) added maybe_changed
                                  (gc_upstreams new_cfg) rg1 w1;
               ox1 = ox\<lparr> ox_registry := rg2, ox_authorizer := new_authorizer (gc_auth new_cfg),
                         ox_redactor := new_redactor (ae_analyzer ae) (gc_redaction new_cfg) \<rparr>
           in case new_safety_filter (ae_compile ae) (gc_guardrails new_cfg) of
                Inl e \<Rightarrow> (Inl (FilterFailed e), app\<lparr> app_ox := ox1 \<rparr>, w2, ms1 @ ms2)
              | Inr safety \<Rightarrow>
                  (let ox2 = ox1\<lparr> ox_safety := safety, ox_schema := Some (gc_schema_validation new_cfg),
                                  ox_rate_limiter := Some (new_rate_limiter (gc_rate_limiting new_cfg)),
                                  ox_cache := Some (invalidate_manifest (new_tool_cache (gc_cache new_cfg))),
                                  ox_webhooks := Some (new_dispatcher (gc_webhooks new_cfg)) \<rparr>
                   in (Inr \<lparr> rr_reloaded_at = ae_isoformat ae w2, rr_added = ae_iter ae added,
                             rr_removed = ae_iter ae removed, rr_updated = ae_iter ae maybe_changed \<rparr>,
                       app\<lparr> app_ox := ox2, app_config := new_cfg, app_authorizer := ox_authorizer ox2 \<rparr>,
                       w2, ms1 @ ms2))))"

definition sighup :: "('w, 'c, 's) app_env \<Rightarrow> ('c, 's) app_state \<Rightarrow> 'w \<Rightarrow> ('c, 's) app_state \<times> 'w \<times> metric list" where
  \<comment> \<open>the signal handler: a reload in a task of its own, whose result or exception nobody reads\<close>
  "sighup ae app w = (let (r, app', w', ms) = do_reload ae app w in (app', w', ms))"

definition iterates_sets :: "(string set \<Rightarrow> string list) \<Rightarrow> bool" where
  \<comment> \<open>what iterating a Python set promises: every element once\<close>
  "iterates_sets iter \<longleftrightarrow> (\<forall>A. finite A \<longrightarrow> set (iter A) = A \<and> distinct (iter A))"

section \<open>What registration does to the entries\<close>

lemma deregister_all_frame:
  "deregister_all os sids rg w = (rg', w', ms) \<Longrightarrow>
   dict_get (rg_entries rg') other = (if other \<in> set sids then None else dict_get (rg_entries rg) other)"
proof (induction sids arbitrary: rg w ms)
  case (Cons sid sids)
  obtain b rg1 w1 ms1 where d: "deregister os sid rg w = (b, rg1, w1, ms1)" by (rule prod_cases4)
  obtain ms2 where "deregister_all os sids rg1 w1 = (rg', w', ms2)"
    using Cons.prems d by (auto split: prod.splits)
  then show ?case
    using Cons.IH deregister_frame [OF d] by auto
qed simp

lemma register_all_frame:
  "register_all os servers rg w = (rg', w', ms) \<Longrightarrow> distinct (map us_id servers) \<Longrightarrow>
   (case find (\<lambda>s. us_id s = sid) servers of
      None \<Rightarrow> dict_get (rg_entries rg') sid = dict_get (rg_entries rg) sid
    | Some s \<Rightarrow> map_option re_server (dict_get (rg_entries rg') sid) = Some s)"
proof (induction servers arbitrary: rg w ms)
  case (Cons server servers)
  obtain rg1 w1 ms1 where r: "register os server True rg w = (rg1, w1, ms1)" by (rule prod_cases3)
  obtain ms2 where rest: "register_all os servers rg1 w1 = (rg', w', ms2)"
    using Cons.prems(1) r by (auto split: prod.splits)
  have "us_id server \<notin> us_id ` set servers" using Cons.prems(2) by simp
  then have "find (\<lambda>s. us_id s = us_id server) servers = None" by (simp add: find_key_None)
  then show ?case
    using Cons.IH [OF rest] Cons.prems(2) register_frame [OF r, of sid]
    by (cases "us_id server = sid"; cases "find (\<lambda>s. us_id s = sid) servers") simp_all
qed simp

section \<open>What a reload does to the entries\<close>

definition kept :: "upstream_server list \<Rightarrow> upstream_server \<Rightarrow> bool" where
  \<comment> \<open>the server was configured before with the same URL and transport\<close>
  "kept olds s \<longleftrightarrow>
     (case find (\<lambda>old. us_id old = us_id s) olds of
        None \<Rightarrow> False
      | Some old \<Rightarrow> us_base_url old = us_base_url s \<and> us_transport old = us_transport s)"

definition settled ::
  "upstream_server list \<Rightarrow> upstream_server \<Rightarrow> ('c, 's) registry_entry option \<Rightarrow> ('c, 's) registry_entry option \<Rightarrow> bool" where
  \<comment> \<open>a kept server has its entry, if it had one, with the new server in place; any other has an entry for it\<close>
  "settled olds s before after \<longleftrightarrow>
     (if kept olds s then after = map_option (\<lambda>e. e\<lparr> re_server := s \<rparr>) before else map_option re_server after = Some s)"

lemma reload_upstream_frame:
  assumes "reload_upstream os olds added changed s rg w = (rg', w', ms)"
    and "us_id s \<in> added \<longleftrightarrow> us_id s \<notin> us_id ` set olds" and "us_id s \<in> changed \<longleftrightarrow> us_id s \<in> us_id ` set olds"
  shows "(sid \<noteq> us_id s \<longrightarrow> dict_get (rg_entries rg') sid = dict_get (rg_entries rg) sid) \<and>
    settled olds s (dict_get (rg_entries rg) (us_id s)) (dict_get (rg_entries rg') (us_id s))"
proof (cases "find (\<lambda>old. us_id old = us_id s) olds")
  case None
  then have "\<not> kept olds s" by (simp add: kept_def)
  moreover have "us_id s \<in> added" using None assms(2) by (simp add: find_key_None)
  ultimately show ?thesis using assms(1) register_frame [of os s True rg w rg' w' ms sid]
    by (simp add: reload_upstream_def settled_def)
next
  case (Some old)
  then have c: "us_id s \<notin> added" "us_id s \<in> changed"
    using assms(2,3) find_key_None [of us_id "us_id s" olds] by auto
  show ?thesis
  proof (cases "kept olds s")
    case True
    then show ?thesis using assms(1) c Some
      by (auto simp: reload_upstream_def kept_def settled_def dict.get_put split: option.splits)
  next
    case False
    obtain b rg1 w1 ms1 where d: "deregister os (us_id s) rg w = (b, rg1, w1, ms1)" by (rule prod_cases4)
    obtain rg2 w2 ms2 where r: "register os s True rg1 w1 = (rg2, w2, ms2)" by (rule prod_cases3)
    have "rg' = rg2" using assms(1) c Some False d r by (auto simp: reload_upstream_def kept_def)
    then show ?thesis
      using False deregister_frame [OF d, of sid] register_frame [OF r, of sid]
      by (simp add: settled_def)
  qed
qed

lemma reload_upstreams_frame:
  assumes "reload_upstreams os olds added changed servers rg w = (rg', w', ms)" and "distinct (map us_id servers)"
    and "\<And>s. s \<in> set servers \<Longrightarrow> (us_id s \<in> added \<longleftrightarrow> us_id s \<notin> us_id ` set olds) \<and>
           (us_id s \<in> changed \<longleftrightarrow> us_id s \<in> us_id ` set olds)"
  shows "(case find (\<lambda>s. us_id s = sid) servers of
      None \<Rightarrow> dict_get (rg_entries rg') sid = dict_get (rg_entries rg) sid
    | Some s \<Rightarrow> settled olds s (dict_get (rg_entries rg) sid) (dict_get (rg_entries rg') sid))"
  using assms
proof (induction servers arbitrary: rg w ms)
  case (Cons s servers)
  obtain rg1 w1 ms1 where r: "reload_upstream os olds added changed s rg w = (rg1, w1, ms1)" by (rule prod_cases3)
  obtain ms2 where rest: "reload_upstreams os olds added changed servers rg1 w1 = (rg', w', ms2)"
    using Cons.prems(1) r by (auto split: prod.splits)
  have one: "(sid \<noteq> us_id s \<longrightarrow> dict_get (rg_entries rg1) sid = dict_get (rg_entries rg) sid) \<and>
      settled olds s (dict_get (rg_entries rg) (us_id s)) (dict_get (rg_entries rg1) (us_id s))"
    using reload_upstream_frame [OF r] Cons.prems(3) [of s] by simp
  have later: "(case find (\<lambda>s. us_id s = sid) servers of
      None \<Rightarrow> dict_get (rg_entries rg') sid = dict_get (rg_entries rg1) sid
    | Some s \<Rightarrow> settled olds s (dict_get (rg_entries rg1) sid) (dict_get (rg_entries rg') sid))"
    using Cons.IH [OF rest] Cons.prems(2,3) by simp
  have "us_id s \<notin> us_id ` set servers" using Cons.prems(2) by simp
  then have "find (\<lambda>x. us_id x = us_id s) servers = None" by (simp add: find_key_None)
  then show ?case using one later
    by (cases "us_id s = sid"; cases "find (\<lambda>s. us_id s = sid) servers") auto
qed simp

lemma do_reload_parts:
  assumes "do_reload ae app w = (r, app', w', ms)" and "load_config ae (app_settings app) w = Inr cfg"
  obtains rg1 w1 ms1 ms2 where
    "deregister_all (ae_outside ae) (ae_iter ae (us_id ` set (gc_upstreams (app_config app)) - us_id ` set (gc_upstreams cfg)))
       (ox_registry (app_ox app)) w = (rg1, w1, ms1)"
    "reload_upstreams (ae_outside ae) (gc_upstreams (app_config app))
       (us_id ` set (gc_upstreams cfg) - us_id ` set (gc_upstreams (app_config app)))
       (us_id ` set (gc_upstreams (app_config app)) \<inter> us_id ` set (gc_upstreams cfg)) (gc_upstreams cfg) rg1 w1 =
       (ox_registry (app_ox app'), w', ms2)"
  using assms by (auto simp: do_reload_def Let_def split: prod.splits sum.splits)

lemma load_config_distinct: "load_config ae st w = Inr cfg \<Longrightarrow> distinct (map us_id (gc_upstreams cfg))"
  unfolding load_config_def by (rule loaded_config_distinct)

section \<open>What a reload guarantees of the registry\<close>

context registry_guarantee begin

lemma register_all_guarantee: "register_all os servers rg w = (rg', w', ms) \<Longrightarrow> R rg rg'"
proof (induction servers arbitrary: rg w ms)
  case (Cons s servers)
  obtain rg1 w1 ms1 where r: "register os s True rg w = (rg1, w1, ms1)" by (rule prod_cases3)
  then obtain ms2 where "register_all os servers rg1 w1 = (rg', w', ms2)" using Cons.prems by (auto split: prod.splits)
  then show ?case using Cons.IH trans register_guarantee [OF r] by blast
qed (simp add: same)

lemma deregister_all_guarantee: "deregister_all os sids rg w = (rg', w', ms) \<Longrightarrow> R rg rg'"
proof (induction sids arbitrary: rg w ms)
  case (Cons sid sids)
  obtain b rg1 w1 ms1 where d: "deregister os sid rg w = (b, rg1, w1, ms1)" by (rule prod_cases4)
  then obtain ms2 where "deregister_all os sids rg1 w1 = (rg', w', ms2)" using Cons.prems by (auto split: prod.splits)
  then show ?case using Cons.IH trans deregister_guarantee [OF d] by blast
qed (simp add: same)

lemma reload_upstream_guarantee: "reload_upstream os olds added changed s rg w = (rg', w', ms) \<Longrightarrow> R rg rg'"
  by (auto simp: reload_upstream_def Let_def same entry_names_def split: if_splits prod.splits option.splits
      intro: change trans register_guarantee deregister_guarantee)

lemma reload_upstreams_guarantee: "reload_upstreams os olds added changed servers rg w = (rg', w', ms) \<Longrightarrow> R rg rg'"
proof (induction servers arbitrary: rg w ms)
  case (Cons s servers)
  obtain rg1 w1 ms1 where r: "reload_upstream os olds added changed s rg w = (rg1, w1, ms1)" by (rule prod_cases3)
  then obtain ms2 where "reload_upstreams os olds added changed servers rg1 w1 = (rg', w', ms2)"
    using Cons.prems by (auto split: prod.splits)
  then show ?case using Cons.IH trans reload_upstream_guarantee [OF r] by blast
qed (simp add: same)

lemma do_reload_guarantee:
  assumes "ae_outside ae = os" and "do_reload ae app w = (r, app', w', ms)"
  shows "R (ox_registry (app_ox app)) (ox_registry (app_ox app'))"
proof (cases "load_config ae (app_settings app) w")
  case (Inl e)
  then show ?thesis using assms by (simp add: do_reload_def same)
next
  case (Inr cfg)
  show ?thesis
    by (rule do_reload_parts [OF assms(2) Inr])
      (use assms(1) trans deregister_all_guarantee reload_upstreams_guarantee in blast)
qed

end

section \<open>Properties\<close>

text \<open>A reload brings the registry to the new configuration: a server that is no longer configured is
  removed, one that was configured with the same URL and transport keeps its entry, with its client, tools
  and health, under the new settings, and every other configured server has a new entry. A server that was
  only registered at run time stays. This holds also when the reload fails afterwards.\<close>

theorem reload_brings_registry_to_config:
  assumes "do_reload ae app w = (r, app', w', ms)" and "load_config ae (app_settings app) w = Inr cfg"
    and "iterates_sets (ae_iter ae)"
  shows "case find (\<lambda>s. us_id s = sid) (gc_upstreams cfg) of
      None \<Rightarrow> dict_get (rg_entries (ox_registry (app_ox app'))) sid =
        (if sid \<in> us_id ` set (gc_upstreams (app_config app)) then None
         else dict_get (rg_entries (ox_registry (app_ox app))) sid)
    | Some s \<Rightarrow> settled (gc_upstreams (app_config app)) s (dict_get (rg_entries (ox_registry (app_ox app))) sid)
        (dict_get (rg_entries (ox_registry (app_ox app'))) sid)"
proof (rule do_reload_parts [OF assms(1,2)])
  fix rg1 w1 ms1 ms2
  let ?olds = "us_id ` set (gc_upstreams (app_config app))" and ?news = "us_id ` set (gc_upstreams cfg)"
  assume d: "deregister_all (ae_outside ae) (ae_iter ae (?olds - ?news)) (ox_registry (app_ox app)) w = (rg1, w1, ms1)"
    and u: "reload_upstreams (ae_outside ae) (gc_upstreams (app_config app)) (?news - ?olds) (?olds \<inter> ?news)
       (gc_upstreams cfg) rg1 w1 = (ox_registry (app_ox app'), w', ms2)"
  have "set (ae_iter ae (?olds - ?news)) = ?olds - ?news" using assms(3) by (simp add: iterates_sets_def)
  then have gone: "dict_get (rg_entries rg1) sid =
      (if sid \<in> ?olds - ?news then None else dict_get (rg_entries (ox_registry (app_ox app))) sid)"
    using deregister_all_frame [OF d, of sid] by simp
  have "find (\<lambda>s. us_id s = sid) (gc_upstreams cfg) = None \<longleftrightarrow> sid \<notin> ?news" by (simp add: find_key_None)
  then show ?thesis
    using reload_upstreams_frame [OF u load_config_distinct [OF assms(2)], of sid] gone by (auto split: option.splits)
qed

text \<open>C23. A reload that succeeds installs the new policies: authorization (for identification too), redaction,
  guardrails, schema validation, a fresh rate limiter, in which every bucket is full again, an empty cache
  and new webhooks. The audit store is the same, and so are the naming rule and the thresholds of the
  circuit breakers, whatever the new configuration says of them.\<close>

theorem reload_installs_policies:
  assumes "do_reload ae app w = (Inr res, app', w', ms)"
  shows "load_config ae (app_settings app) w = Inr (app_config app') \<and>
    (let cfg = app_config app'; ox = app_ox app' in
       ox_authorizer ox = new_authorizer (gc_auth cfg) \<and> app_authorizer app' = ox_authorizer ox \<and>
       rd_policy (ox_redactor ox) = gc_redaction cfg \<and>
       new_safety_filter (ae_compile ae) (gc_guardrails cfg) = Inr (ox_safety ox) \<and>
       ox_schema ox = Some (gc_schema_validation cfg) \<and>
       ox_rate_limiter ox = Some (new_rate_limiter (gc_rate_limiting cfg)) \<and>
       ox_cache ox = Some (new_tool_cache (gc_cache cfg)) \<and> ox_webhooks ox = Some (new_dispatcher (gc_webhooks cfg)) \<and>
       ox_audit ox = ox_audit (app_ox app) \<and> same_thresholds (ox_registry (app_ox app)) (ox_registry ox))"
proof -
  obtain cfg where l: "load_config ae (app_settings app) w = Inr cfg"
    using assms by (cases "load_config ae (app_settings app) w") (auto simp: do_reload_def)
  have "same_thresholds (ox_registry (app_ox app)) (ox_registry (app_ox app'))"
    by (rule thresholds.do_reload_guarantee [OF refl assms])
  then show ?thesis
    using assms l
    by (auto simp: do_reload_def Let_def invalidate_manifest_def new_tool_cache_def ttl_delete_def new_redactor_def
        split: prod.splits sum.splits)
qed


text \<open>C24. A gateway that starts has exactly the configured servers in its registry, the registry is well formed, and identification and tool calls use one authorizer.\<close>

theorem startup_registers_configured:
  fixes app :: "('c, 's) app_state"
  assumes "startup ae create_all st w d = (Inr app, w', d', ms)"
  shows "load_config ae st w = Inr (app_config app) \<and>
    map_option re_server (dict_get (rg_entries (ox_registry (app_ox app))) sid) =
      find (\<lambda>s. us_id s = sid) (gc_upstreams (app_config app)) \<and>
    registry_ok (ox_registry (app_ox app)) \<and> rg_naming (ox_registry (app_ox app)) = gc_naming (app_config app) \<and>
    app_authorizer app = ox_authorizer (app_ox app)"
proof -
  obtain cfg where l: "load_config ae st w = Inr cfg"
    using assms by (cases "load_config ae st w") (auto simp: startup_def)
  then obtain sf where sf: "new_safety_filter (ae_compile ae) (gc_guardrails cfg) = Inr sf"
    using assms by (cases "new_safety_filter (ae_compile ae) (gc_guardrails cfg)") (auto simp: startup_def build_components_def)
  let ?rg0 = "new_server_registry (Some (gc_circuit_breaker cfg)) (Some (gc_naming cfg)) :: ('c, 's) server_registry"
  have app: "app_config app = cfg" "app_authorizer app = ox_authorizer (app_ox app)" and
    r: "register_all (ae_outside ae) (gc_upstreams cfg) ?rg0 w = (ox_registry (app_ox app), w', ms)"
    using assms l sf by (auto simp: startup_def build_components_def start_store_def split: prod.splits)
  have "registry_ok ?rg0" by (rule empty_ok) (simp add: new_server_registry_def Let_def)
  then have "registry_ok (ox_registry (app_ox app))"
    using naming.register_all_guarantee [OF r] by simp
  then show ?thesis
    using register_all_frame [OF r load_config_distinct [OF l], of sid] thresholds.register_all_guarantee [OF r] l app
    by (auto simp: same_thresholds_def new_server_registry_def Let_def split: option.splits)
qed

section \<open>A running gateway\<close>

definition app_env_for :: "gateway_config \<Rightarrow> (nat, nat, nat) app_env" where
  \<comment> \<open>an outside whose configuration file parses to the given configuration\<close>
  "app_env_for cfg =
     \<lparr> ae_gateway = demo_env, ae_read_file = (\<lambda>w path. Some ''file''), ae_safe_load = (\<lambda>text. Inr (JInt 1)),
       ae_parse_fields = (\<lambda>doc. Inr cfg), ae_analyzer = Inl ''no presidio'', ae_compile = (\<lambda>p. None),
       ae_iter = sorted_list_of_set, ae_isoformat = (\<lambda>w. ''now'') \<rparr>"

definition with_servers :: "upstream_server list \<Rightarrow> gateway_config" where
  "with_servers servers = default_gateway_config\<lparr> gc_upstreams := servers \<rparr>"

definition running :: "(nat, nat) app_state" where
  "running = \<lparr> app_settings = default_settings, app_config = with_servers [pg_server], app_ox = demo_ox,
     app_authorizer = ox_authorizer demo_ox \<rparr>"

definition tagged_pg :: upstream_server where
  "tagged_pg = pg_server\<lparr> us_tags := [''db''] \<rparr>"

lemma loads_config:
  "distinct (map us_id servers) \<Longrightarrow> load_config (app_env_for (with_servers servers)) st w = Inr (with_servers servers)"
  by (simp add: load_config_def load_gateway_config_def app_env_for_def model_validate_def with_servers_def
      unique_ids_iff [THEN iffD2])

lemma app_env_iterates: "iterates_sets (ae_iter (app_env_for cfg))"
  by (simp add: iterates_sets_def app_env_for_def)

lemma demo_ids: "us_id pg_server = ''pg''" "us_id tagged_pg = ''pg''" "gc_upstreams (with_servers servers) = servers"
  "gc_guardrails (with_servers servers) = default_guardrails_policy"
  "new_safety_filter re default_guardrails_policy = Inr \<lparr> sf_policy = default_guardrails_policy, sf_compiled = [] \<rparr>"
  by (simp_all add: pg_server_def tagged_pg_def upstream_def with_servers_def default_gateway_config_def
      new_safety_filter_def default_guardrails_policy_def)

theorem reload_brings_registry_to_config_witness:
  "\<exists>e e'. dict_get (rg_entries (ox_registry demo_ox)) ''pg'' = Some e \<and>
     dict_get (rg_entries (ox_registry (app_ox (fst (snd
       (do_reload (app_env_for (with_servers [tagged_pg, upstream ''gh'' ''GitHub'' ''http://gh''])) running 1)))))) ''pg'' = Some e' \<and>
     e' = e\<lparr> re_server := tagged_pg \<rparr>"
proof -
  let ?ae = "app_env_for (with_servers [tagged_pg, upstream ''gh'' ''GitHub'' ''http://gh''])"
  obtain r app' w' ms where d: "do_reload ?ae running 1 = (r, app', w', ms)" by (rule prod_cases4)
  have l: "load_config ?ae (app_settings running) 1 = Inr (with_servers [tagged_pg, upstream ''gh'' ''GitHub'' ''http://gh''])"
    by (rule loads_config) (simp add: demo_ids, simp add: upstream_def)
  have k: "kept (gc_upstreams (app_config running)) tagged_pg"
    by (simp add: kept_def running_def demo_ids) (simp add: tagged_pg_def)
  have "find (\<lambda>s. us_id s = ''pg'') [tagged_pg, upstream ''gh'' ''GitHub'' ''http://gh''] = Some tagged_pg"
    by (simp add: demo_ids)
  then have s: "dict_get (rg_entries (ox_registry (app_ox app'))) ''pg'' =
      map_option (\<lambda>e. e\<lparr> re_server := tagged_pg \<rparr>) (dict_get (rg_entries (ox_registry (app_ox running))) ''pg'')"
    using reload_brings_registry_to_config [OF d l app_env_iterates, of "''pg''"] k by (simp add: demo_ids settled_def)
  have "dict_get (rg_entries (ox_registry demo_ox)) ''pg'' \<noteq> None" by code_simp
  then show ?thesis using s d by (auto simp: running_def)
qed

theorem reload_installs_policies_witness:
  "\<exists>app'. fst (snd (do_reload (app_env_for (with_servers [])) running 1)) = app' \<and>
     ox_rate_limiter (app_ox app') = Some (new_rate_limiter default_rate_limiting_policy) \<and>
     rg_naming (ox_registry (app_ox app')) = rg_naming demo_registry"
proof -
  have l: "load_config (app_env_for (with_servers [])) (app_settings running) 1 = Inr (with_servers [])"
    by (rule loads_config) simp
  obtain r app' w' ms where d: "do_reload (app_env_for (with_servers [])) running 1 = (r, app', w', ms)" by (rule prod_cases4)
  then obtain res where r: "r = Inr res"
    using l by (auto simp: do_reload_def Let_def demo_ids split: prod.splits)
  have "app_config app' = with_servers []" using reload_installs_policies [OF d [unfolded r]] l by simp
  then show ?thesis using reload_installs_policies [OF d [unfolded r]] d
    by (simp add: Let_def with_servers_def default_gateway_config_def same_thresholds_def running_def demo_ox_def)
qed

definition bad_guardrails :: gateway_config where
  "bad_guardrails = (with_servers [])\<lparr>
     gc_guardrails := \<lparr> gp_enabled = True, gp_rules = [(safety_rule_named ''r'')\<lparr> sr_forbidden_regex := [''('' ] \<rparr>] \<rparr> \<rparr>"


theorem startup_registers_configured_witness:
  "\<exists>app. fst (startup (app_env_for (with_servers [pg_server])) id default_settings 0 ()) = Inr app \<and>
     map_option re_server (dict_get (rg_entries (ox_registry (app_ox app))) ''pg'') = Some pg_server"
proof -
  let ?ae = "app_env_for (with_servers [pg_server])"
  have l: "load_config ?ae default_settings 0 = Inr (with_servers [pg_server])" by (rule loads_config) simp
  obtain r w' d' ms where s: "startup ?ae id default_settings 0 () = (r, w', d', ms)" by (rule prod_cases4)
  then obtain app where "r = Inr app"
    using l by (auto simp: startup_def build_components_def demo_ids start_store_def split: prod.splits)
  with s have s: "startup ?ae id default_settings 0 () = (Inr app, w', d', ms)" by simp
  have "app_config app = with_servers [pg_server]" using startup_registers_configured [OF s] l by simp
  then show ?thesis using startup_registers_configured [OF s, of "''pg''"] s by (simp add: demo_ids)
qed

end
