(* ===== verification/Api.thy ===== *)
theory Api
  imports Lifecycle
begin

text \<open>
  \<open>app/api/\<close>: the API key, the identification of the caller, every route, the stream of events of a call,
  and the middleware around a request; then the gateway as a machine whose steps are requests, health sweeps
  and flushes of the audit queue.

  A route returns its result or exception, the application state, the outside, the metric updates and the
  webhook deliveries. FastAPI turns an \<open>HTTPException\<close> into a response and lets any other exception pass
  through the middleware. Parsing of paths, query strings and bodies is FastAPI's: a request comes with its
  \<open>endpoint\<close>. The Prometheus exposition and the CORS middleware are not modelled.
\<close>

section \<open>Requests and responses\<close>

record http_request =
  hr_method :: string
  hr_path :: string
  hr_route :: "string option"                         \<comment> \<open>the route template, when one matched\<close>
  hr_headers :: "(string \<times> string) list"

definition get_header :: "http_request \<Rightarrow> string \<Rightarrow> string option" where
  \<comment> \<open>\<open>request.headers.get(name)\<close>: the first header of the name, whatever the case\<close>
  "get_header req name = first_some (\<lambda>(k, v). if lower k = lower name then Some v else None) (hr_headers req)"

datatype api_detail =
    ServerNotFound string
  | InvalidApiKey
  | AuthMessage auth_error
  | CallMessage orchestration_message

datatype unhandled =
    FromIdentify string
  | FromCall orchestrator_exc
  | FromReload config_failure

datatype api_exc =
    HTTPException int api_detail
  | Unhandled unhandled

record tool_call_request =
  tq_name :: string
  tq_arguments :: jdict
  tq_server_id :: "string option"

record health_response =
  hs_status :: string
  hs_upstreams :: "(string, string) dict"
  hs_version :: string

datatype api_body =
    CallBody tool_call_result
  | ManifestBody tool_manifest
  | HealthBody health_response
  | JsonBody jdict
  | DetailBody api_detail

record response =
  rs_status :: int
  rs_body :: api_body
  rs_request_id :: string

text \<open>The readings of one request: the fresh id, the clocks of the middleware and of \<open>identify\<close>, and the
  context of a tool call.\<close>

record request_env =
  qe_uuid :: string
  qe_start :: seconds
  qe_end :: seconds
  qe_identify :: seconds
  qe_identify' :: seconds
  qe_call :: call_context
  qe_isoformat :: string

record ('w, 'c, 's, 'k, 'd) api_env =
  av_app :: "('w, 'c, 's) app_env"
  av_provider :: "'k provider"
  av_repr :: "json \<Rightarrow> string"
  av_show_sync :: "sync_error \<Rightarrow> string"
  av_isoformat :: "seconds \<Rightarrow> string"
  av_execute :: "audit_select \<Rightarrow> 'd \<Rightarrow> audit_entry list"

section \<open>Dependencies\<close>

definition require_api_key :: "settings \<Rightarrow> http_request \<Rightarrow> api_exc + unit" where
  "require_api_key st req =
     (case st_api_key st of
        None \<Rightarrow> Inr ()
      | Some key \<Rightarrow>
          if get_header req (st_api_key_header st) \<noteq> Some key then Inl (HTTPException 401 InvalidApiKey) else Inr ())"

definition py_space :: "char \<Rightarrow> bool" where
  \<comment> \<open>the characters below 256 that \<open>str.isspace\<close> accepts\<close>
  "py_space c \<longleftrightarrow> (of_char c :: nat) \<in> set [9, 10, 11, 12, 13, 28, 29, 30, 31, 32, 133, 160]"

definition strip :: "string \<Rightarrow> string" where
  "strip s = rev (dropWhile py_space (rev (dropWhile py_space s)))"

definition bearer_token :: "http_request \<Rightarrow> string option" where
  "bearer_token req =
     (let authorization = get_header req ''Authorization''
      in if truthy_opt authorization \<and> starts_with ''bearer '' (lower (the authorization))
         then Some (strip (drop 7 (the authorization))) else None)"

definition get_principal ::
  "('w, 'c, 's, 'k, 'd) api_env \<Rightarrow> request_env \<Rightarrow> http_request \<Rightarrow> settings \<Rightarrow> authorizer \<Rightarrow>
   (api_exc + principal) \<times> metric list \<times> authorizer" where
  "get_principal av qe req st az =
     (let x_agent_id = get_header req ''X-Agent-Id'';
          agent_id = (if truthy_opt x_agent_id then x_agent_id else get_header req (st_agent_id_header st));
          (r, ms, az') = identify (av_provider av) (av_repr av) (qe_identify qe) (qe_identify' qe) agent_id (bearer_token req) az
      in ((case r of
             Inr p \<Rightarrow> Inr p
           | Inl (Denied e) \<Rightarrow> Inl (HTTPException 401 (AuthMessage e))
           | Inl (Escaped x) \<Rightarrow> Inl (Unhandled (FromIdentify x))), ms, az'))"

section \<open>Routes\<close>

type_synonym ('w, 'c, 's, 'r) handled = "(api_exc + 'r) \<times> ('c, 's) app_state \<times> 'w \<times> metric list \<times> delivery list"

definition set_registry :: "('c, 's) server_registry \<Rightarrow> ('c, 's) app_state \<Rightarrow> ('c, 's) app_state" where
  "set_registry rg app = app\<lparr> app_ox := (app_ox app)\<lparr> ox_registry := rg \<rparr> \<rparr>"

definition healthz :: "('c, 's) server_registry \<Rightarrow> health_response" where
  "healthz rg =
     (let statuses = fold (\<lambda>(sid, e) d. dict_put (us_id (re_server e)) (if re_healthy e then ''healthy'' else ''unhealthy'') d)
            (rg_entries rg) [];
          values = map snd statuses
      in \<lparr> hs_status = (if statuses \<noteq> [] \<and> list_all (\<lambda>v. v = ''unhealthy'') values then ''down''
                         else if list_ex (\<lambda>v. v = ''unhealthy'') values then ''degraded'' else ''ok''),
           hs_upstreams = statuses, hs_version = ''0.1.0'' \<rparr>)"

definition opt_error :: "('w, 'c, 's, 'k, 'd) api_env \<Rightarrow> sync_error option \<Rightarrow> json" where
  "opt_error av e = (case e of None \<Rightarrow> JNull | Some x \<Rightarrow> JStr (av_show_sync av x))"

definition list_servers_route :: "('w, 'c, 's, 'k, 'd) api_env \<Rightarrow> ('c, 's) server_registry \<Rightarrow> jdict" where
  "list_servers_route av rg =
     [(''servers'', JDict (map (\<lambda>(sid, d). (sid, JDict d)) (registry_to_dict (av_isoformat av) (av_show_sync av) rg)))]"

definition register_route ::
  "('w, 'c, 's, 'k, 'd) api_env \<Rightarrow> upstream_server \<Rightarrow> ('c, 's) app_state \<Rightarrow> 'w \<Rightarrow> ('w, 'c, 's, jdict) handled" where
  "register_route av server app w =
     (let (rg, w', ms) = register (ae_outside (av_app av)) server True (ox_registry (app_ox app)) w;
          entry = the (dict_get (rg_entries rg) (us_id server))
      in (Inr [(''registered'', JStr (us_id (re_server entry))), (''healthy'', JBool (re_healthy entry)),
               (''tool_count'', JInt (int (length (re_tools entry)))), (''last_error'', opt_error av (re_last_error entry))],
          set_registry rg app, w', ms, []))"

definition deregister_route ::
  "('w, 'c, 's, 'k, 'd) api_env \<Rightarrow> string \<Rightarrow> ('c, 's) app_state \<Rightarrow> 'w \<Rightarrow> ('w, 'c, 's, jdict) handled" where
  "deregister_route av server_id app w =
     (let (ok, rg, w', ms) = deregister (ae_outside (av_app av)) server_id (ox_registry (app_ox app)) w
      in (if \<not> ok then Inl (HTTPException 404 (ServerNotFound server_id)) else Inr [(''deregistered'', JStr server_id)],
          set_registry rg app, w', ms, []))"

definition sync_route ::
  "('w, 'c, 's, 'k, 'd) api_env \<Rightarrow> string \<Rightarrow> ('c, 's) app_state \<Rightarrow> 'w \<Rightarrow> ('w, 'c, 's, jdict) handled" where
  "sync_route av server_id app w =
     (let (ok, rg, w', ms) = sync_one (ae_outside (av_app av)) server_id (ox_registry (app_ox app)) w
      in (case dict_get (rg_entries rg) server_id of
            None \<Rightarrow> Inl (HTTPException 404 (ServerNotFound server_id))
          | Some entry \<Rightarrow>
              Inr [(''server_id'', JStr server_id), (''healthy'', JBool ok),
                   (''tool_count'', JInt (int (length (re_tools entry)))), (''last_error'', opt_error av (re_last_error entry))],
          set_registry rg app, w', ms, []))"

definition set_enabled_route ::
  "string \<Rightarrow> bool \<Rightarrow> ('c, 's) app_state \<Rightarrow> 'w \<Rightarrow> ('w, 'c, 's, jdict) handled" where
  "set_enabled_route server_id enabled app w =
     (let (ok, rg) = set_enabled server_id enabled (ox_registry (app_ox app))
      in (if \<not> ok then Inl (HTTPException 404 (ServerNotFound server_id))
          else Inr [(''server_id'', JStr server_id), (''enabled'', JBool enabled)],
          set_registry rg app, w, [], []))"

definition circuit_breakers_route :: "('c, 's) server_registry \<Rightarrow> jdict" where
  "circuit_breakers_route rg =
     [(''circuit_breakers'', JDict (map (\<lambda>(sid, d). (sid, JDict d)) (cb_all_states (rg_cb rg))))]"

definition conflicts_route :: "('c, 's) server_registry \<Rightarrow> jdict" where
  "conflicts_route rg =
     (let conflicts = list_conflicts rg
      in [(''conflicts'', JList (map (\<lambda>(name, sids). JDict [(''tool'', JStr name), (''servers'', JList (map JStr sids))]) conflicts)),
          (''count'', JInt (int (length conflicts)))])"

definition list_tools_route ::
  "request_env \<Rightarrow> string option \<Rightarrow> ('c, 's) app_state \<Rightarrow> 'w \<Rightarrow> ('w, 'c, 's, tool_manifest) handled" where
  "list_tools_route qe tag app w =
     (let (m, ox) = build_manifest (cx_cache_get (qe_call qe)) (cx_cache_set (qe_call qe)) (qe_isoformat qe) tag (app_ox app)
      in (Inr m, app\<lparr> app_ox := ox \<rparr>, w, [], []))"

definition call_exc_of :: "orchestrator_exc \<Rightarrow> api_exc" where
  "call_exc_of exc =
     (case exc of OrchestrationError m code \<Rightarrow> HTTPException code (CallMessage m) | other \<Rightarrow> Unhandled (FromCall other))"

definition call_tool_route ::
  "('w, 'c, 's, 'k, 'd) api_env \<Rightarrow> request_env \<Rightarrow> http_request \<Rightarrow> tool_call_request \<Rightarrow> ('c, 's) app_state \<Rightarrow> 'w \<Rightarrow>
   ('w, 'c, 's, tool_call_result) handled" where
  \<comment> \<open>with its dependency \<open>get_principal\<close>\<close>
  "call_tool_route av qe req payload app w =
     (case get_principal av qe req (app_settings app) (app_authorizer app) of
        (Inl e, ms, az) \<Rightarrow> (Inl e, app\<lparr> app_authorizer := az \<rparr>, w, ms, [])
      | (Inr p, ms, az) \<Rightarrow>
          (let (r, ox, w', ms', ds) = tool_call (ae_gateway (av_app av)) (qe_call qe) p (tq_name payload) (tq_arguments payload)
                 (tq_server_id payload) (app_ox app) w
           in (case r of Inl exc \<Rightarrow> Inl (call_exc_of exc) | Inr res \<Rightarrow> Inr res,
               app\<lparr> app_authorizer := az, app_ox := ox \<rparr>, w', ms @ ms', ds)))"

definition reload_route ::
  "('w, 'c, 's, 'k, 'd) api_env \<Rightarrow> ('c, 's) app_state \<Rightarrow> 'w \<Rightarrow> ('w, 'c, 's, jdict) handled" where
  "reload_route av app w =
     (let (r, app', w', ms) = do_reload (av_app av) app w
      in (case r of
            Inl e \<Rightarrow> Inl (Unhandled (FromReload e))
          | Inr res \<Rightarrow>
              Inr [(''reloaded_at'', JStr (rr_reloaded_at res)), (''upstreams_added'', JList (map JStr (rr_added res))),
                   (''upstreams_removed'', JList (map JStr (rr_removed res))),
                   (''upstreams_updated'', JList (map JStr (rr_updated res)))],
          app', w', ms, []))"

definition query_audit_route ::
  "('w, 'c, 's, 'k, 'd) api_env \<Rightarrow> string option \<Rightarrow> string option \<Rightarrow> string option \<Rightarrow> string option \<Rightarrow> int \<Rightarrow> int \<Rightarrow>
   'd \<Rightarrow> jdict" where
  "query_audit_route av agent_id server_id tool_name status limit offset d =
     (let rows = audit_query (av_execute av) agent_id server_id tool_name status limit offset d
      in [(''entries'', JList (map JDict rows)), (''count'', JInt (int (length rows)))])"

section \<open>The stream of a call\<close>

record stream_event =
  sv_event :: string
  sv_data :: json

definition call_error_data :: "(orchestrator_exc \<Rightarrow> string) \<Rightarrow> orchestrator_exc \<Rightarrow> json" where
  "call_error_data show exc =
     JDict [(''code'', JInt (case exc of OrchestrationError m code \<Rightarrow> code | _ \<Rightarrow> 500)), (''message'', JStr (show exc))]"

definition event_source ::
  "(orchestrator_exc \<Rightarrow> string) \<Rightarrow> (tool_call_result \<Rightarrow> json) \<Rightarrow> principal \<Rightarrow> tool_call_request \<Rightarrow> nat \<Rightarrow>
   orchestrator_exc + tool_call_result \<Rightarrow> stream_event list" where
  \<comment> \<open>for a call that ends after so many waits of five seconds; \<open>show\<close> is \<open>str(exc)\<close>, \<open>dump\<close> is
      \<open>model_dump_json\<close>\<close>
  "event_source show dump p payload waits outcome =
     \<lparr> sv_event = ''start'', sv_data = JDict [(''tool'', JStr (tq_name payload)), (''agent_id'', JStr (pr_agent_id p))] \<rparr>
     # replicate waits \<lparr> sv_event = ''progress'', sv_data = JDict [(''status'', JStr ''running'')] \<rparr>
     @ [case outcome of
          Inl exc \<Rightarrow> \<lparr> sv_event = ''error'', sv_data = call_error_data show exc \<rparr>
        | Inr res \<Rightarrow> \<lparr> sv_event = ''result'', sv_data = dump res \<rparr>]"

definition call_tool_stream_route ::
  "(orchestrator_exc \<Rightarrow> string) \<Rightarrow> (tool_call_result \<Rightarrow> json) \<Rightarrow> nat \<Rightarrow> ('w, 'c, 's, 'k, 'd) api_env \<Rightarrow> request_env \<Rightarrow>
   http_request \<Rightarrow> tool_call_request \<Rightarrow> ('c, 's) app_state \<Rightarrow> 'w \<Rightarrow> ('w, 'c, 's, stream_event list) handled" where
  "call_tool_stream_route show dump waits av qe req payload app w =
     (case get_principal av qe req (app_settings app) (app_authorizer app) of
        (Inl e, ms, az) \<Rightarrow> (Inl e, app\<lparr> app_authorizer := az \<rparr>, w, ms, [])
      | (Inr p, ms, az) \<Rightarrow>
          (let (r, ox, w', ms', ds) = tool_call (ae_gateway (av_app av)) (qe_call qe) p (tq_name payload) (tq_arguments payload)
                 (tq_server_id payload) (app_ox app) w
           in (Inr (event_source show dump p payload waits r), app\<lparr> app_authorizer := az, app_ox := ox \<rparr>, w', ms @ ms', ds)))"

section \<open>Serving a request\<close>

datatype endpoint =
    Healthz
  | ListServers
  | RegisterServer upstream_server
  | DeregisterServer string
  | SyncServer string
  | EnableServer string bool
  | CircuitBreakers
  | Conflicts
  | ListTools "string option"
  | CallToolOnce tool_call_request
  | ReloadConfig
  | QueryAudit "string option" "string option" "string option" "string option" int int

fun route ::
  "('w, 'c, 's, 'k, 'd) api_env \<Rightarrow> request_env \<Rightarrow> http_request \<Rightarrow> 'd \<Rightarrow> endpoint \<Rightarrow> ('c, 's) app_state \<Rightarrow> 'w \<Rightarrow>
   ('w, 'c, 's, api_body) handled" where
  "route av qe req d Healthz app w = (Inr (HealthBody (healthz (ox_registry (app_ox app)))), app, w, [], [])"
| "route av qe req d ListServers app w = (Inr (JsonBody (list_servers_route av (ox_registry (app_ox app)))), app, w, [], [])"
| "route av qe req d (RegisterServer server) app w = apfst (map_sum id JsonBody) (register_route av server app w)"
| "route av qe req d (DeregisterServer sid) app w = apfst (map_sum id JsonBody) (deregister_route av sid app w)"
| "route av qe req d (SyncServer sid) app w = apfst (map_sum id JsonBody) (sync_route av sid app w)"
| "route av qe req d (EnableServer sid enabled) app w = apfst (map_sum id JsonBody) (set_enabled_route sid enabled app w)"
| "route av qe req d CircuitBreakers app w = (Inr (JsonBody (circuit_breakers_route (ox_registry (app_ox app)))), app, w, [], [])"
| "route av qe req d Conflicts app w = (Inr (JsonBody (conflicts_route (ox_registry (app_ox app)))), app, w, [], [])"
| "route av qe req d (ListTools tag) app w = apfst (map_sum id ManifestBody) (list_tools_route qe tag app w)"
| "route av qe req d (CallToolOnce payload) app w = apfst (map_sum id CallBody) (call_tool_route av qe req payload app w)"
| "route av qe req d ReloadConfig app w = apfst (map_sum id JsonBody) (reload_route av app w)"
| "route av qe req d (QueryAudit agent server tool status limit offset) app w =
     (Inr (JsonBody (query_audit_route av agent server tool status limit offset d)), app, w, [], [])"

definition is_public :: "endpoint \<Rightarrow> bool" where
  \<comment> \<open>a route of \<open>public_router\<close>\<close>
  "is_public ep \<longleftrightarrow> ep = Healthz"

definition success_status :: "endpoint \<Rightarrow> int" where
  "success_status ep = (case ep of RegisterServer s \<Rightarrow> 201 | _ \<Rightarrow> 200)"

definition handle ::
  "('w, 'c, 's, 'k, 'd) api_env \<Rightarrow> request_env \<Rightarrow> http_request \<Rightarrow> 'd \<Rightarrow> endpoint \<Rightarrow> ('c, 's) app_state \<Rightarrow> 'w \<Rightarrow>
   ('w, 'c, 's, api_body) handled" where
  \<comment> \<open>the routers: \<open>api_router\<close> asks for the API key first\<close>
  "handle av qe req d ep app w =
     (if is_public ep then route av qe req d ep app w
      else case require_api_key (app_settings app) req of
             Inl e \<Rightarrow> (Inl e, app, w, [], [])
           | Inr _ \<Rightarrow> route av qe req d ep app w)"

definition serve_request ::
  "('w, 'c, 's, 'k, 'd) api_env \<Rightarrow> request_env \<Rightarrow> http_request \<Rightarrow> 'd \<Rightarrow> endpoint \<Rightarrow> ('c, 's) app_state \<Rightarrow> 'w \<Rightarrow>
   (unhandled + response) \<times> ('c, 's) app_state \<times> 'w \<times> metric list \<times> delivery list" where
  \<comment> \<open>\<open>RequestContextMiddleware.dispatch\<close>: the request id is a context variable of what runs inside\<close>
  "serve_request av qe req d ep app w =
     (let req_id = str_or (get_header req ''X-Request-Id'') (qe_uuid qe);
          inner = qe\<lparr> qe_call := (qe_call qe)\<lparr> cx_request_id := Some req_id \<rparr> \<rparr>;
          (r, app', w', ms, ds) = handle av inner req d ep app w;
          reply = (case r of
                     Inr body \<Rightarrow> Inr \<lparr> rs_status = success_status ep, rs_body = body, rs_request_id = req_id \<rparr>
                   | Inl (HTTPException code detail) \<Rightarrow>
                       Inr \<lparr> rs_status = code, rs_body = DetailBody detail, rs_request_id = req_id \<rparr>
                   | Inl (Unhandled x) \<Rightarrow> Inl x);
          status_code = (case reply of Inl x \<Rightarrow> 500 | Inr rs \<Rightarrow> rs_status rs);
          label_path = (case hr_route req of None \<Rightarrow> hr_path req | Some template \<Rightarrow> template)
      in (reply, app', w',
          ms @ [HttpRequestsTotal (hr_method req) label_path (show_int status_code),
                HttpRequestLatency (hr_method req) label_path (qe_end qe - qe_start qe)], ds))"

section \<open>The gateway as a machine\<close>

datatype gateway_event =
    Request request_env http_request endpoint
  | HealthSweep "string list"
  | FlushAudit
  | Hangup

definition flush_audit ::
  "(audit_entry list \<Rightarrow> 'd \<Rightarrow> (string + unit) \<times> 'd) \<Rightarrow> ('c, 's) app_state \<Rightarrow> 'd \<Rightarrow> ('c, 's) app_state \<times> 'd" where
  \<comment> \<open>one turn of the consumer task of the audit store\<close>
  "flush_audit commit app d =
     (case ox_audit (app_ox app) of
        None \<Rightarrow> (app, d)
      | Some s \<Rightarrow> (let (s', d') = flush commit s d
                   in (app\<lparr> app_ox := (app_ox app)\<lparr> ox_audit := Some s' \<rparr> \<rparr>, d')))"

fun gateway_step ::
  "('w, 'c, 's, 'k, 'd) api_env \<Rightarrow> (audit_entry list \<Rightarrow> 'd \<Rightarrow> (string + unit) \<times> 'd) \<Rightarrow>
   ('c, 's) app_state \<times> 'w \<times> 'd \<Rightarrow> gateway_event \<Rightarrow> ('c, 's) app_state \<times> 'w \<times> 'd" where
  "gateway_step av commit (app, w, d) (Request qe req ep) = (let (r, app', w', ms, ds) = serve_request av qe req d ep app w in (app', w', d))"
| "gateway_step av commit (app, w, d) (HealthSweep sids) = (let (app', w', ms) = health_sweep (av_app av) sids app w in (app', w', d))"
| "gateway_step av commit (app, w, d) FlushAudit = (let (app', d') = flush_audit commit app d in (app', w, d'))"
| "gateway_step av commit (app, w, d) Hangup = (let (app', w', ms) = sighup (av_app av) app w in (app', w', d))"

section \<open>What a call leaves of the state\<close>

lemma first_some_member: "first_some f xs = Some y \<Longrightarrow> \<exists>x \<in> set xs. f x = Some y"
  by (induction xs) (auto split: option.splits)

lemma found_tool_is_registered:
  assumes "find_by_qualified_tool rg name = Some (sid, raw)"
  shows "sid \<in> fst ` set (rg_entries rg)"
proof -
  let ?inner = "\<lambda>sid e. first_some (\<lambda>td. if td_qualified_name td = Some name then Some (sid, td_name td) else None) (re_tools e)"
  let ?exact = "first_some (\<lambda>(sid, e). ?inner sid e) (rg_entries rg)"
  let ?split = "if CHR ''.'' \<in> set name
      then first_some (\<lambda>(sid, e). if str_or (us_tool_prefix (re_server e)) (us_id (re_server e)) = takeWhile (\<lambda>c. c \<noteq> CHR ''.'') name
             then Some (sid, tl (dropWhile (\<lambda>c. c \<noteq> CHR ''.'') name)) else None) (rg_entries rg) else None"
  let ?matches = "concat (map (\<lambda>(sid, e). map (\<lambda>td. (sid, name)) (filter (\<lambda>td. td_name td = name) (re_tools e))) (rg_entries rg))"
  consider "?exact = Some (sid, raw)" | "?split = Some (sid, raw)" | "length ?matches = 1" "(sid, raw) = ?matches ! 0"
    using assms unfolding find_by_qualified_tool_def Let_def
    by (cases ?exact; cases ?split) (simp_all split: if_splits)
  then show ?thesis
  proof cases
    case 1
    then obtain s e where e: "(s, e) \<in> set (rg_entries rg)" "?inner s e = Some (sid, raw)"
      using first_some_member by fastforce
    then have "s = sid" using first_some_member [OF e(2)] by (auto split: if_splits)
    then show ?thesis using e(1) by force
  next
    case 2
    then show ?thesis by (auto split: if_splits dest!: first_some_member intro: rev_image_eqI)
  next
    case 3
    then have "(sid, raw) \<in> set ?matches" by (metis nth_mem zero_less_one)
    then show ?thesis by force
  qed
qed

lemma resolve_registered:
  assumes "resolve rg name server_id = Inr (sid, e, raw)"
  shows "dict_get (rg_entries rg) sid = Some e"
proof (cases server_id)
  case None
  then obtain s where s: "find_by_qualified_tool rg name = Some (sid, s)" "e = the (dict_get (rg_entries rg) sid)"
    using assms by (auto simp: resolve_def split: option.splits)
  then have "dict_get (rg_entries rg) sid \<noteq> None"
    using found_tool_is_registered [OF s(1)] by (simp add: map_of_eq_None_iff)
  then show ?thesis using s(2) by simp
next
  case (Some i)
  then show ?thesis using assms by (auto simp: resolve_def split: option.splits)
qed

definition audit_bounded :: "audit_store option \<Rightarrow> bool" where
  "audit_bounded a \<longleftrightarrow> (case a of None \<Rightarrow> True | Some st \<Rightarrow> length (as_queue st) \<le> QUEUE_MAX)"

definition gateway_ok :: "('c, 's) orchestrator \<Rightarrow> bool" where
  \<comment> \<open>the registry is well formed and the audit queue is within its bound\<close>
  "gateway_ok ox \<longleftrightarrow> registry_ok (ox_registry ox) \<and> audit_bounded (ox_audit ox)"

lemma audit_bounded_record: "audit_bounded (Some st) \<Longrightarrow> audit_bounded (Some (audit_record digest uuid now f st))"
  by (auto simp: audit_bounded_def audit_record_def put_nowait_def)

lemma audit_bounded_map: "audit_bounded a \<Longrightarrow> audit_bounded (map_option (audit_record digest uuid now f) a)"
  using audit_bounded_record by (cases a) auto

lemma build_manifest_frame:
  "build_manifest now now' g tag ox = (m, ox') \<Longrightarrow> ox_registry ox' = ox_registry ox \<and> ox_audit ox' = ox_audit ox"
  by (auto simp: build_manifest_def Let_def split: option.splits prod.splits if_splits)

definition keeps ::
  "(('c, 's) server_registry \<Rightarrow> ('c, 's) server_registry \<Rightarrow> bool) \<Rightarrow> ('c, 's) orchestrator \<Rightarrow> ('c, 's) orchestrator \<Rightarrow> bool" where
  \<comment> \<open>a step respects a relation of the registry and the bound of the audit queue\<close>
  "keeps R ox ox' \<longleftrightarrow> R (ox_registry ox) (ox_registry ox') \<and> (audit_bounded (ox_audit ox) \<longrightarrow> audit_bounded (ox_audit ox'))"

definition quiet_endpoint :: "endpoint \<Rightarrow> bool" where
  \<comment> \<open>its requests enter, remove and change no server\<close>
  "quiet_endpoint ep \<longleftrightarrow>
     (case ep of RegisterServer _ \<Rightarrow> False | DeregisterServer _ \<Rightarrow> False | EnableServer _ _ \<Rightarrow> False | ReloadConfig \<Rightarrow> False | _ \<Rightarrow> True)"

fun quiet :: "gateway_event \<Rightarrow> bool" where
  "quiet (Request qe req ep) \<longleftrightarrow> quiet_endpoint ep"
| "quiet Hangup \<longleftrightarrow> False"
| "quiet _ \<longleftrightarrow> True"

context registry_quiet begin

lemma keeps_same: "ox_registry ox' = ox_registry ox \<Longrightarrow> ox_audit ox' = ox_audit ox \<Longrightarrow> keeps R ox ox'"
  by (simp add: keeps_def same)

lemma forward_keeps:
  assumes "ge_outside env = os" and "dict_get (rg_entries (ox_registry ox)) (tg_sid tg) = Some (tg_entry tg)"
    and "forward env cx p tg arguments args rq ms ox w = (r, ox', w', ms', ds)"
  shows "keeps R ox ox'"
  using assms(3)
proof (cases rule: forward_cases)
  case (failed exc rg')
  then show ?thesis using assms(1) client_call_guarantee [OF assms(2)] by (auto simp: keeps_def audit_bounded_map)
next
  case (answered raw rg' clean cr ms3)
  then show ?thesis using assms(1) client_call_guarantee [OF assms(2)] by (auto simp: keeps_def audit_bounded_map)
qed

lemma tool_call_keeps:
  assumes "ge_outside env = os" and "tool_call env cx p name arguments server_id ox w = (r, ox', w', ms, ds)"
  shows "keeps R ox ox'"
  using assms(2)
proof (cases rule: tool_call_cases)
  case (early exc)
  then show ?thesis by (simp add: keeps_same)
next
  case (escaped tg exc ox1)
  then show ?thesis using admit_frame [OF escaped(3)] by (auto intro: keeps_same)
next
  case (refused tg rf ox1 ms1)
  then show ?thesis
    using admit_frame [OF refused(3)] refuse_frame [OF refused(4)] by (auto simp: keeps_def same audit_bounded_map)
next
  case (hit tg u ox1 ms1 ms2 args rq content)
  then show ?thesis using admit_frame [OF hit(3)] cache_lookup_frame [OF hit(5)] by (auto intro: keeps_same)
next
  case (forwarded tg u ox1 ms1 ms2 args rq ox2)
  have k: "ox_registry ox2 = ox_registry ox" "ox_audit ox2 = ox_audit ox"
    using admit_frame [OF forwarded(3)] cache_lookup_frame [OF forwarded(5)] by auto
  then have "keeps R ox2 ox'" using forward_keeps [OF assms(1) _ forwarded(6)] resolve_registered [OF forwarded(1)] by simp
  then show ?thesis using k by (simp add: keeps_def)
qed

lemma keeps_registry: "R (ox_registry (app_ox app)) rg \<Longrightarrow> keeps R (app_ox app) (app_ox (set_registry rg app))"
  by (simp add: keeps_def set_registry_def)

lemma quiet_route_keeps:
  assumes "ae_outside (av_app av) = os" and "quiet_endpoint ep" and "route av qe req d ep app w = (r, app', w', ms, ds)"
  shows "keeps R (app_ox app) (app_ox app')"
proof (cases ep)
  case (SyncServer sid)
  then show ?thesis using assms(3)
    by (auto simp: assms(1) sync_route_def split: prod.splits if_splits option.splits dest!: sync_one_guarantee intro: keeps_registry)
next
  case (ListTools tag)
  then show ?thesis
    using assms(3) by (auto simp: assms(1) list_tools_route_def split: prod.splits dest!: build_manifest_frame intro: keeps_same)
next
  case (CallToolOnce payload)
  then show ?thesis
    using assms(3) by (auto simp: assms(1) keeps_same call_tool_route_def split: prod.splits sum.splits dest!: tool_call_keeps [OF assms(1)])
qed (use assms(2,3) in \<open>simp_all add: keeps_same quiet_endpoint_def\<close>)

lemma handled_keeps:
  assumes "serve_request av qe req d ep app w = (r, app', w', ms, ds)"
    and route: "\<And>qe q rest. route av qe req d ep app w = (q, app', rest) \<Longrightarrow> keeps R (app_ox app) (app_ox app')"
  shows "keeps R (app_ox app) (app_ox app')"
proof -
  obtain q rest where h: "handle av (qe\<lparr> qe_call := (qe_call qe)\<lparr> cx_request_id :=
      Some (str_or (get_header req ''X-Request-Id'') (qe_uuid qe)) \<rparr> \<rparr>) req d ep app w = (q, app', rest)"
    using assms(1) by (auto simp: serve_request_def Let_def split: prod.splits)
  then show ?thesis by (auto simp: handle_def keeps_same split: if_splits sum.splits dest: route)
qed

lemma sweep_keeps:
  assumes "ae_outside ae = os" and "health_sweep ae sids app w = (app', w', ms)"
  shows "keeps R (app_ox app) (app_ox app')"
  using assms(2) by (auto simp: health_sweep_def keeps_def assms(1) split: prod.splits dest: sync_all_guarantee)

lemma flush_keeps:
  assumes "flush_audit commit app d = (app', d')"
  shows "keeps R (app_ox app) (app_ox app')"
proof (cases "ox_audit (app_ox app)")
  case None
  then show ?thesis using assms by (simp add: flush_audit_def keeps_same)
next
  case (Some s)
  have "length (as_queue (fst (flush commit s d))) \<le> length (as_queue s)" by (simp add: flush_queue)
  then show ?thesis using assms Some
    by (auto simp: flush_audit_def keeps_def same audit_bounded_def split: prod.splits)
qed

lemma quiet_step_keeps:
  assumes "ae_outside (av_app av) = os" and "quiet ev" and "gateway_step av commit (app, w, d) ev = (app', w', d')"
  shows "keeps R (app_ox app) (app_ox app')"
proof (cases ev)
  case (Request qe req ep)
  then obtain r ms ds where "serve_request av qe req d ep app w = (r, app', w', ms, ds)"
    using assms(3) by (auto split: prod.splits)
  then show ?thesis
    by (rule handled_keeps) (metis assms(1,2) Request prod_cases3 quiet.simps(1) quiet_route_keeps)
qed (use assms(2,3) in \<open>auto split: prod.splits dest: sweep_keeps [OF assms(1)] flush_keeps\<close>)

end

context registry_guarantee begin

lemma do_reload_keeps:
  assumes "ae_outside ae = os" and "do_reload ae app w = (r, app', w', ms)"
  shows "keeps R (app_ox app) (app_ox app')"
proof -
  have "ox_audit (app_ox app') = ox_audit (app_ox app)"
    using assms(2) by (auto simp: do_reload_def Let_def split: prod.splits sum.splits)
  then show ?thesis using do_reload_guarantee [OF assms] by (simp add: keeps_def)
qed

lemma route_keeps:
  assumes "ae_outside (av_app av) = os" and "route av qe req d ep app w = (r, app', w', ms, ds)"
  shows "keeps R (app_ox app) (app_ox app')"
proof (cases "quiet_endpoint ep")
  case True
  then show ?thesis using assms by (intro quiet_route_keeps)
next
  case False
  then show ?thesis
  proof (cases ep)
    case (RegisterServer server)
    then show ?thesis using assms(2)
      by (auto simp: assms(1) register_route_def Let_def split: prod.splits dest!: register_guarantee intro: keeps_registry)
  next
    case (DeregisterServer sid)
    then show ?thesis using assms(2)
      by (auto simp: assms(1) deregister_route_def split: prod.splits if_splits dest!: deregister_guarantee intro: keeps_registry)
  next
    case (EnableServer sid enabled)
    then show ?thesis using assms(2)
      by (auto simp: assms(1) set_enabled_route_def split: prod.splits if_splits dest!: set_enabled_guarantee intro: keeps_registry)
  next
    case ReloadConfig
    then show ?thesis using assms(2)
      by (auto simp: assms(1) reload_route_def split: prod.splits sum.splits dest!: do_reload_keeps [OF assms(1)])
  qed (simp_all add: quiet_endpoint_def)
qed

lemma serve_keeps:
  assumes "ae_outside (av_app av) = os" and "serve_request av qe req d ep app w = (r, app', w', ms, ds)"
  shows "keeps R (app_ox app) (app_ox app')"
  using assms(2) by (rule handled_keeps) (metis assms(1) prod_cases3 route_keeps)

lemma gateway_step_keeps:
  assumes "ae_outside (av_app av) = os" and "gateway_step av commit (app, w, d) ev = (app', w', d')"
  shows "keeps R (app_ox app) (app_ox app')"
  using assms(2)
  by (cases ev)
    (auto simp: sighup_def split: prod.splits
      dest: serve_keeps [OF assms(1)] sweep_keeps [OF assms(1)] flush_keeps do_reload_keeps [OF assms(1)])

end

section \<open>Runs of the gateway\<close>

definition started_as :: "('c, 's) server_registry \<Rightarrow> ('c, 's) app_state \<times> 'w \<times> 'd \<Rightarrow> bool" where
  "started_as rg st \<longleftrightarrow> gateway_ok (app_ox (fst st)) \<and> ox_registry (app_ox (fst st)) = rg"

definition well_run :: "('c, 's) server_registry \<Rightarrow> ('c, 's) app_state \<times> 'w \<times> 'd \<Rightarrow> bool" where
  "well_run rg st \<longleftrightarrow> gateway_ok (app_ox (fst st)) \<and> same_thresholds rg (ox_registry (app_ox (fst st)))"

interpretation gateway: det_machine "started_as rg" "gateway_step av commit" "well_run rg"
  for rg :: "('c, 's) server_registry" and av :: "('w, 'c, 's, 'k, 'd) api_env"
    and commit :: "audit_entry list \<Rightarrow> 'd \<Rightarrow> (string + unit) \<times> 'd"
proof unfold_locales
  fix st :: "('c, 's) app_state \<times> 'w \<times> 'd"
  assume "started_as rg st"
  then show "well_run rg st" by (auto simp: started_as_def well_run_def)
next
  fix st :: "('c, 's) app_state \<times> 'w \<times> 'd" and ev
  assume a: "well_run rg st"
  obtain app w d where st: "st = (app, w, d)" by (rule prod_cases3)
  obtain app' w' d' where st': "gateway_step av commit (app, w, d) ev = (app', w', d')" by (rule prod_cases3)
  show "well_run rg (gateway_step av commit st ev)"
    using a naming.gateway_step_keeps [OF refl st'] thresholds.gateway_step_keeps [OF refl st'] st st' same_thresholds_trans
    by (auto simp: well_run_def keeps_def gateway_ok_def)
qed

lemma startup_parts:
  fixes app :: "('c, 's) app_state"
  assumes "startup ae create_all st w d = (Inr app, w', d', ms)"
  obtains rg0 :: "('c, 's) server_registry" where
    "rg0 = new_server_registry (Some (gc_circuit_breaker (app_config app))) (Some (gc_naming (app_config app)))"
    "rg_cb rg0 = (let p = gc_circuit_breaker (app_config app)
       in new_cb_registry (cp_enabled p) (cp_failure_threshold p) (cp_recovery_timeout p) (cp_probe_successes p))"
    "register_all (ae_outside ae) (gc_upstreams (app_config app)) rg0 w = (ox_registry (app_ox app), w', ms)"
    "ox_audit (app_ox app) = Some (new_audit_store\<lparr> as_consumer := True \<rparr>)"
proof -
  obtain cfg where l: "load_config ae st w = Inr cfg"
    using assms by (cases "load_config ae st w") (auto simp: startup_def)
  then obtain sf where sf: "new_safety_filter (ae_compile ae) (gc_guardrails cfg) = Inr sf"
    using assms by (cases "new_safety_filter (ae_compile ae) (gc_guardrails cfg)") (auto simp: startup_def build_components_def)
  have "app_config app = cfg" "ox_audit (app_ox app) = Some (new_audit_store\<lparr> as_consumer := True \<rparr>)"
    "register_all (ae_outside ae) (gc_upstreams cfg) (new_server_registry (Some (gc_circuit_breaker cfg)) (Some (gc_naming cfg))) w =
       (ox_registry (app_ox app), w', ms)"
    using assms l sf by (auto simp: startup_def build_components_def start_store_def split: prod.splits)
  then show ?thesis
    by (intro that [OF refl]) (simp_all add: new_server_registry_def Let_def)
qed

lemma startup_ok:
  fixes app :: "('c, 's) app_state"
  assumes "startup ae create_all st w d = (Inr app, w', d', ms)"
  shows "gateway_ok (app_ox app) \<and> rg_naming (ox_registry (app_ox app)) = gc_naming (app_config app) \<and>
    cr_failure_threshold (rg_cb (ox_registry (app_ox app))) = cp_failure_threshold (gc_circuit_breaker (app_config app)) \<and>
    cr_recovery_timeout (rg_cb (ox_registry (app_ox app))) = cp_recovery_timeout (gc_circuit_breaker (app_config app))"
proof (rule startup_parts [OF assms])
  fix rg0 :: "('c, 's) server_registry"
  assume rg0: "rg0 = new_server_registry (Some (gc_circuit_breaker (app_config app))) (Some (gc_naming (app_config app)))"
    and r: "register_all (ae_outside ae) (gc_upstreams (app_config app)) rg0 w = (ox_registry (app_ox app), w', ms)"
    and a: "ox_audit (app_ox app) = Some (new_audit_store\<lparr> as_consumer := True \<rparr>)"
  have "registry_ok rg0" by (rule empty_ok) (simp add: rg0 new_server_registry_def Let_def)
  then have "registry_ok (ox_registry (app_ox app))"
    using naming.register_all_guarantee [OF r] by simp
  moreover have "same_thresholds rg0 (ox_registry (app_ox app))"
    by (rule thresholds.register_all_guarantee [OF r])
  ultimately show ?thesis
    using a by (simp add: rg0 gateway_ok_def audit_bounded_def new_audit_store_def same_thresholds_def same_policy_def
        new_server_registry_def new_cb_registry_def Let_def)
qed

section \<open>Properties\<close>

text \<open>From startup on, through any sequence of requests (tool calls, registrations, removals, reloads that
  succeed or fail), health sweeps and flushes, the registry stays well formed, which with a policy other than
  \<open>suffix\<close> means that no two tools share a qualified name; the audit queue stays within its bound; and the naming
  rule and the thresholds of the circuit breakers stay those of the configuration at startup.\<close>

theorem gateway_stays_well_formed:
  assumes "startup ae create_all st w0 d0 = (Inr app, w, d, ms)"
    and "run_events (gateway_step av commit) (app, w, d) evs = (app', w', d')"
  shows "registry_ok (ox_registry (app_ox app')) \<and>
    (nc_on_conflict (gc_naming (app_config app)) \<noteq> Suffix \<longrightarrow> names_unique (ox_registry (app_ox app'))) \<and>
    (\<forall>s. ox_audit (app_ox app') = Some s \<longrightarrow> length (as_queue s) \<le> 10000) \<and>
    rg_naming (ox_registry (app_ox app')) = gc_naming (app_config app) \<and>
    cr_failure_threshold (rg_cb (ox_registry (app_ox app'))) = cp_failure_threshold (gc_circuit_breaker (app_config app)) \<and>
    cr_recovery_timeout (rg_cb (ox_registry (app_ox app'))) = cp_recovery_timeout (gc_circuit_breaker (app_config app))"
proof -
  note s = startup_ok [OF assms(1)]
  have "well_run (ox_registry (app_ox app)) (run_events (gateway_step av commit) (app, w, d) evs)"
    by (rule gateway.run_from_init) (simp add: started_as_def s)
  then show ?thesis
    using s assms(2) by (auto simp: well_run_def gateway_ok_def same_thresholds_def same_policy_def audit_bounded_def QUEUE_MAX_def registry_ok_def)
qed

text \<open>A request to a protected route without the API key is answered 401 and changes nothing: not the
  registry, not the configuration, no limiter, cache or audit record, and no upstream server is called.\<close>

theorem missing_key_changes_nothing:
  assumes "st_api_key (app_settings app) = Some key" and "get_header req (st_api_key_header (app_settings app)) \<noteq> Some key"
    and "\<not> is_public ep" and "serve_request av qe req d ep app w = (reply, app', w', ms, ds)"
  shows "app' = app \<and> w' = w \<and> ds = [] \<and>
    (\<exists>rs. reply = Inr rs \<and> rs_status rs = 401 \<and> rs_body rs = DetailBody InvalidApiKey)"
  using assms by (auto simp: serve_request_def Let_def handle_def require_api_key_def split: prod.splits)


lemma tool_call_exceptions:
  assumes "tool_call env cx p name arguments sid ox w = (Inl exc, ox', w', ms, ds)"
  shows "(\<exists>m code. exc = OrchestrationError m code \<and> code \<in> {403, 404, 422, 429, 502, 503}) \<or>
    exc = EscapedZeroDivision \<or> (\<exists>m. exc = EscapedValidator m)"
  using assms
proof (cases rule: tool_call_cases)
  case (escaped tg exc1 ox1)
  then show ?thesis
    by (auto simp: admit_def split: prod.splits sum.splits limiter_error.splits schema_failure.splits)
next
  case (refused tg rf ox1 ms1)
  then show ?thesis using refuse_frame [OF refused(4)] by (cases rf) auto
next
  case (forwarded tg u ox1 ms1 ms2 args rq ox2)
  from forwarded(6) show ?thesis by (cases rule: forward_cases) auto
qed auto

lemma call_answers:
  "case fst (serve_request av qe req d (CallToolOnce payload) app w) of
     Inr rs \<Rightarrow> (rs_status rs = 200 \<and> (\<exists>res. rs_body rs = CallBody res)) \<or>
       (rs_status rs \<in> {401, 403, 404, 422, 429, 502, 503} \<and> (\<exists>detail. rs_body rs = DetailBody detail))
   | Inl x \<Rightarrow> (\<exists>m. x = FromIdentify m) \<or> x = FromCall EscapedZeroDivision \<or> (\<exists>m. x = FromCall (EscapedValidator m))"
proof -
  let ?qe = "qe\<lparr> qe_call := (qe_call qe)\<lparr> cx_request_id := Some (str_or (get_header req ''X-Request-Id'') (qe_uuid qe)) \<rparr> \<rparr>"
  obtain q ms2 az where g: "get_principal av ?qe req (app_settings app) (app_authorizer app) = (q, ms2, az)"
    by (rule prod_cases3)
  have q: "(\<exists>e. exc = HTTPException 401 (AuthMessage e)) \<or> (\<exists>x. exc = Unhandled (FromIdentify x))" if "q = Inl exc" for exc
    using g that by (auto simp: get_principal_def Let_def split: prod.splits sum.splits identify_exc.splits)
  show ?thesis
  proof (cases q)
    case (Inl exc)
    then show ?thesis using g q [OF Inl]
      by (auto simp: serve_request_def Let_def handle_def is_public_def require_api_key_def call_tool_route_def split: option.splits)
  next
    case (Inr p)
    obtain t ox w2 ms3 ds3 where t: "tool_call (ae_gateway (av_app av)) (qe_call ?qe) p (tq_name payload) (tq_arguments payload)
        (tq_server_id payload) (app_ox app) w = (t, ox, w2, ms3, ds3)" by (rule prod_cases5)
    show ?thesis
    proof (cases t)
      case (Inl exc)
      then show ?thesis using g Inr t tool_call_exceptions [OF t [unfolded Inl]]
        by (auto simp: serve_request_def Let_def handle_def is_public_def require_api_key_def call_tool_route_def call_exc_of_def
            split: option.splits)
    next
      case (Inr res)
      then show ?thesis using g \<open>q = Inr p\<close> t
        by (auto simp: serve_request_def Let_def handle_def is_public_def require_api_key_def call_tool_route_def success_status_def
            split: option.splits)
    qed
  qed
qed

text \<open>A tool call is answered 200 with its result, or with one of the codes 401, 403, 404, 422, 429, 502 and
  503 and the reason. Only a token check that fails for want of its key set, a rate of zero and a schema the
  validator cannot run end it with an unhandled exception.\<close>

theorem call_status_codes:
  "case fst (serve_request av qe req d (CallToolOnce payload) app w) of
     Inr rs \<Rightarrow> (rs_status rs = 200 \<and> (\<exists>res. rs_body rs = CallBody res)) \<or>
       (rs_status rs \<in> {401, 403, 404, 422, 429, 502, 503} \<and> (\<exists>detail. rs_body rs = DetailBody detail))
   | Inl x \<Rightarrow> (\<exists>m. x = FromIdentify m) \<or> x = FromCall EscapedZeroDivision \<or> (\<exists>m. x = FromCall (EscapedValidator m))"
  by (rule call_answers)

text \<open>C33. The stream of a call is that call: it leaves the same state behind, and its events are one start, a progress
  event for every wait, and one last event, the result where the plain route answers with it and the error with
  the same code, or 500, where the plain route fails.\<close>

theorem stream_reports_the_call:
  "case call_tool_route av qe req payload app w of (r, app', w', ms, ds) \<Rightarrow>
     (case fst (get_principal av qe req (app_settings app) (app_authorizer app)) of
        Inl exc \<Rightarrow> r = Inl exc \<and>
          call_tool_stream_route str_of dump waits av qe req payload app w = (Inl exc, app', w', ms, ds)
      | Inr p \<Rightarrow>
          (\<exists>evs. call_tool_stream_route str_of dump waits av qe req payload app w = (Inr evs, app', w', ms, ds) \<and>
             map sv_event evs = ''start'' # replicate waits ''progress'' @ [if isl r then ''error'' else ''result''] \<and>
             (case r of
                Inr res \<Rightarrow> sv_data (last evs) = dump res
              | Inl (HTTPException code detail) \<Rightarrow> (\<exists>m. sv_data (last evs) = JDict [(''code'', JInt code), (''message'', m)])
              | Inl (Unhandled x) \<Rightarrow> (\<exists>m. sv_data (last evs) = JDict [(''code'', JInt 500), (''message'', m)]))))"
  by (auto simp: call_tool_route_def call_tool_stream_route_def event_source_def call_exc_of_def call_error_data_def
      map_replicate_const split: prod.splits sum.splits orchestrator_exc.splits)

lemma fold_put_distinct:
  assumes "distinct (map fst es)" and "\<And>k e. (k, e) \<in> set es \<Longrightarrow> key e = k" and "fst ` set acc \<inter> fst ` set es = {}"
  shows "fold (\<lambda>(k, e) d. dict_put (key e) (f e) d) es acc = acc @ map (\<lambda>(k, e). (k, f e)) es"
  using assms
proof (induction es arbitrary: acc)
  case (Cons p es)
  obtain k e where p: "p = (k, e)" by fastforce
  have k: "key e = k" using Cons.prems(2) p by simp
  have "k \<notin> fst ` set acc" using Cons.prems(3) p by auto
  then have "dict_put k (f e) acc = acc @ [(k, f e)]" by (induction acc) auto
  then have "fold (\<lambda>(k, e) d. dict_put (key e) (f e) d) (p # es) acc =
      fold (\<lambda>(k, e) d. dict_put (key e) (f e) d) es (acc @ [(k, f e)])"
    by (simp add: p k)
  moreover have "fst ` set (acc @ [(k, f e)]) \<inter> fst ` set es = {}" using Cons.prems(1,3) p by auto
  ultimately show ?case using Cons.IH [of "acc @ [(k, f e)]"] Cons.prems(1,2) by (simp add: p)
qed simp

text \<open>The health check lists every registered server with its health, and its status is \<open>down\<close> exactly when
  there are servers and none is healthy, \<open>degraded\<close> when some but not all are healthy, and \<open>ok\<close> otherwise. A
  disabled server, which is never synchronised, counts like any other.\<close>

theorem health_reflects_registry:
  assumes "registry_ok rg"
  shows "hs_upstreams (healthz rg) = map (\<lambda>(sid, e). (sid, if re_healthy e then ''healthy'' else ''unhealthy'')) (rg_entries rg) \<and>
    hs_status (healthz rg) =
      (let healthy = map (re_healthy \<circ> snd) (rg_entries rg)
       in if False \<notin> set healthy then ''ok'' else if True \<in> set healthy then ''degraded'' else ''down'')"
proof -
  have ids: "us_id (re_server e) = sid" if "(sid, e) \<in> set (rg_entries rg)" for sid e
    using that assms by (auto simp: registry_ok_def)
  have "fold (\<lambda>(sid, e) d. dict_put (us_id (re_server e)) (if re_healthy e then ''healthy'' else ''unhealthy'') d) (rg_entries rg) [] =
      [] @ map (\<lambda>(sid, e). (sid, if re_healthy e then ''healthy'' else ''unhealthy'')) (rg_entries rg)"
    using assms ids by (intro fold_put_distinct) (auto simp: registry_ok_def)
  moreover define bs where "bs = map (re_healthy \<circ> snd) (rg_entries rg)"
  ultimately have h: "healthz rg = (let statuses = map (\<lambda>(sid, e). (sid, if re_healthy e then ''healthy'' else ''unhealthy'')) (rg_entries rg);
          values = map (\<lambda>b. if b then ''healthy'' else ''unhealthy'') bs
      in \<lparr> hs_status = (if bs \<noteq> [] \<and> list_all (\<lambda>v. v = ''unhealthy'') values then ''down''
                         else if list_ex (\<lambda>v. v = ''unhealthy'') values then ''degraded'' else ''ok''),
           hs_upstreams = statuses, hs_version = ''0.1.0'' \<rparr>)"
    by (simp add: healthz_def Let_def case_prod_unfold comp_def)
  have v: "list_all (\<lambda>v. v = ''unhealthy'') (map (\<lambda>b. if b then ''healthy'' else ''unhealthy'') bs) \<longleftrightarrow> True \<notin> set bs"
    "list_ex (\<lambda>v. v = ''unhealthy'') (map (\<lambda>b. if b then ''healthy'' else ''unhealthy'') bs) \<longleftrightarrow> False \<in> set bs" for bs
    by (induction bs) auto
  have "bs \<noteq> [] \<longrightarrow> True \<in> set bs \<or> False \<in> set bs" by (cases bs) auto
  then show ?thesis unfolding h Let_def v bs_def [symmetric] by (auto simp del: set_map)
qed

text \<open>The audit record of a call names the request as its response does: when a request for a call leaves a
  record and the queue has room, the record is the last of the queue, it carries the id of the \<open>X-Request-Id\<close>
  header of the response, and it is an error exactly when the response is not a 200.\<close>

theorem audit_record_names_the_response:
  assumes "serve_request av qe req d (CallToolOnce payload) app w = (Inr rs, app', w', ms, ds)"
    and "ox_audit (app_ox app) = Some st" and "length (as_queue st) < QUEUE_MAX"
    and "ox_audit (app_ox app') \<noteq> ox_audit (app_ox app)" and "qe_uuid qe \<noteq> []"
  shows "\<exists>e. ox_audit (app_ox app') = Some (st\<lparr> as_queue := as_queue st @ [e] \<rparr>) \<and>
    ad_request_id e = rs_request_id rs \<and> (ad_is_error e \<longleftrightarrow> rs_status rs \<noteq> 200)"
proof -
  let ?id = "str_or (get_header req ''X-Request-Id'') (qe_uuid qe)"
  let ?qe = "qe\<lparr> qe_call := (qe_call qe)\<lparr> cx_request_id := Some ?id \<rparr> \<rparr>"
  have id: "?id \<noteq> []" using assms(5) by (cases "get_header req ''X-Request-Id''") auto
  obtain r rest where h: "handle av ?qe req d (CallToolOnce payload) app w = (r, app', rest)"
    using assms(1) by (auto simp: serve_request_def Let_def split: prod.splits)
  have rs: "rs_request_id rs = ?id" "rs_status rs = (case r of Inr b \<Rightarrow> 200 | Inl (HTTPException code x) \<Rightarrow> code | Inl (Unhandled x) \<Rightarrow> 0)"
    using assms(1) h
    by (auto simp: serve_request_def Let_def success_status_def split: prod.splits sum.splits api_exc.splits)
  have key: "require_api_key (app_settings app) req = Inr ()"
    using h assms(4) by (cases "require_api_key (app_settings app) req") (auto simp: handle_def is_public_def)
  then have c: "apfst (map_sum id CallBody) (call_tool_route av ?qe req payload app w) = (r, app', rest)"
    using h by (simp add: handle_def is_public_def)
  obtain q ms2 az where g: "get_principal av ?qe req (app_settings app) (app_authorizer app) = (q, ms2, az)"
    by (rule prod_cases3)
  then obtain p where p: "q = Inr p" using c assms(4) by (cases q) (auto simp: call_tool_route_def)
  obtain t ox w2 ms3 ds3 where t: "tool_call (ae_gateway (av_app av)) (qe_call ?qe) p (tq_name payload) (tq_arguments payload)
      (tq_server_id payload) (app_ox app) w = (t, ox, w2, ms3, ds3)" by (rule prod_cases5)
  have out: "app_ox app' = ox" "r = map_sum call_exc_of CallBody t"
    using c g p t by (auto simp: call_tool_route_def split: sum.splits)
  obtain f where f: "ox_audit ox = Some (audit_record (ge_digest (ae_gateway (av_app av))) (cx_uuid (qe_call ?qe)) (cx_now (qe_call ?qe)) f st)"
    "af_request_id f = str_or (cx_request_id (qe_call ?qe)) ''unknown''" "af_is_error f \<longleftrightarrow> isl t"
    using audited_once [OF t assms(2)] assms(2,4) out(1) by auto
  have "rs_status rs \<noteq> 200 \<longleftrightarrow> isl t"
  proof (cases t)
    case (Inl exc)
    then show ?thesis using tool_call_exceptions [OF t [unfolded Inl]] rs(2) out(2) by (auto simp: call_exc_of_def)
  next
    case (Inr res)
    then show ?thesis using rs(2) out(2) by simp
  qed
  then show ?thesis using f assms(3) out(1) rs(1) id
    by (intro exI [of _ "make_entry (ge_digest (ae_gateway (av_app av))) (cx_uuid (qe_call ?qe)) (cx_now (qe_call ?qe)) f"])
      (simp add: audit_record_def put_nowait_def make_entry_def)
qed

text \<open>Registration over the API always answers 201 and always leaves the server registered under its id; when
  its tools could not be listed, or a tool name was refused by the policy \<open>error\<close>, the answer only says that it
  is not healthy, with the last error.\<close>

theorem registration_is_always_created:
  assumes "require_api_key (app_settings app) req = Inr ()"
    and "serve_request av qe req d (RegisterServer server) app w = (reply, app', w', ms, ds)"
  shows "\<exists>rs e. reply = Inr rs \<and> rs_status rs = 201 \<and>
    dict_get (rg_entries (ox_registry (app_ox app'))) (us_id server) = Some e \<and> re_server e = server \<and>
    rs_body rs = JsonBody [(''registered'', JStr (us_id server)), (''healthy'', JBool (re_healthy e)),
      (''tool_count'', JInt (int (length (re_tools e)))), (''last_error'', opt_error av (re_last_error e))]"
proof -
  obtain rg w1 ms1 where g: "register (ae_outside (av_app av)) server True (ox_registry (app_ox app)) w = (rg, w1, ms1)"
    by (rule prod_cases3)
  obtain e where e: "dict_get (rg_entries rg) (us_id server) = Some e" "re_server e = server"
    using register_frame [OF g] by auto
  have "reply = Inr \<lparr> rs_status = 201, rs_body = JsonBody [(''registered'', JStr (us_id server)), (''healthy'', JBool (re_healthy e)),
      (''tool_count'', JInt (int (length (re_tools e)))), (''last_error'', opt_error av (re_last_error e))],
      rs_request_id = str_or (get_header req ''X-Request-Id'') (qe_uuid qe) \<rparr>" "app' = set_registry rg app"
    using assms g e
    by (auto simp: serve_request_def Let_def handle_def is_public_def register_route_def success_status_def)
  then show ?thesis using e by (simp add: set_registry_def)
qed

section \<open>Requests to a running gateway\<close>

definition demo_api :: "(nat, nat, nat, jdict, unit) api_env" where
  "demo_api =
     \<lparr> av_app = app_env_for (with_servers [pg_server]), av_provider = rotated, av_repr = (\<lambda>v. ''repr''),
       av_show_sync = (\<lambda>e. ''failed''), av_isoformat = (\<lambda>t. ''then''), av_execute = (\<lambda>q d. []) \<rparr>"

definition demo_request_env :: request_env where
  "demo_request_env =
     \<lparr> qe_uuid = ''r1'', qe_start = 5, qe_end = 6, qe_identify = 5, qe_identify' = 5, qe_call = reading_at 5,
       qe_isoformat = ''now'' \<rparr>"

definition from_bot :: http_request where
  "from_bot = \<lparr> hr_method = ''POST'', hr_path = ''/v1/tools/call'', hr_route = None, hr_headers = [(''X-Agent-Id'', ''bot'')] \<rparr>"

definition query_payload :: tool_call_request where
  "query_payload = \<lparr> tq_name = ''query'', tq_arguments = contact, tq_server_id = Some ''pg'' \<rparr>"

lemma demo_served:
  obtains rs app' ms ds where
    "serve_request demo_api demo_request_env from_bot () (CallToolOnce query_payload) running 1 = (Inr rs, app', 2, ms, ds)"
    "rs_status rs = 200" "rs_request_id rs = ''r1''" "\<exists>res. rs_body rs = CallBody res"
    "ox_audit (app_ox app') \<noteq> ox_audit (app_ox running)"
proof -
  obtain r app' w' ms ds where o: "serve_request demo_api demo_request_env from_bot () (CallToolOnce query_payload) running 1 =
      (r, app', w', ms, ds)" by (rule prod_cases5)
  have "case serve_request demo_api demo_request_env from_bot () (CallToolOnce query_payload) running 1 of
      (Inr rs, app', w', ms, ds) \<Rightarrow> w' = 2 \<and> rs_status rs = 200 \<and> rs_request_id rs = ''r1'' \<and>
        (case rs_body rs of CallBody res \<Rightarrow> True | _ \<Rightarrow> False) \<and>
        map_option (length \<circ> as_queue) (ox_audit (app_ox app')) = Some 1
    | _ \<Rightarrow> False"
    by code_simp
  moreover have "map_option (length \<circ> as_queue) (ox_audit (app_ox running)) = Some 0" by code_simp
  ultimately have "ox_audit (app_ox app') \<noteq> ox_audit (app_ox running)" "w' = 2"
    "\<exists>rs. r = Inr rs \<and> rs_status rs = 200 \<and> rs_request_id rs = ''r1'' \<and> (\<exists>res. rs_body rs = CallBody res)"
    using o by (auto split: sum.splits api_body.splits)
  then show ?thesis using that o by blast
qed

theorem gateway_stays_well_formed_witness:
  "\<exists>app w d ms app' w' d'. startup (app_env_for (with_servers [pg_server])) id default_settings 0 () = (Inr app, w, d, ms) \<and>
     run_events (gateway_step demo_api (\<lambda>batch d. (Inr (), d))) (app, w, d)
       [Request demo_request_env from_bot (CallToolOnce query_payload), FlushAudit, Request demo_request_env from_bot ReloadConfig] =
       (app', w', d') \<and> names_unique (ox_registry (app_ox app'))"
proof -
  have l: "load_config (app_env_for (with_servers [pg_server])) default_settings 0 = Inr (with_servers [pg_server])"
    by (rule loads_config) simp
  obtain r w d ms where s: "startup (app_env_for (with_servers [pg_server])) id default_settings 0 () = (r, w, d, ms)"
    by (rule prod_cases4)
  then obtain app where r: "r = Inr app" "app_config app = with_servers [pg_server]"
    using l by (auto simp: startup_def build_components_def demo_ids start_store_def split: prod.splits)
  obtain app' w' d' where run: "run_events (gateway_step demo_api (\<lambda>batch d. (Inr (), d))) (app, w, d)
       [Request demo_request_env from_bot (CallToolOnce query_payload), FlushAudit, Request demo_request_env from_bot ReloadConfig] =
       (app', w', d')" by (rule prod_cases3)
  have "nc_on_conflict (gc_naming (app_config app)) \<noteq> Suffix"
    by (simp add: r(2) with_servers_def default_gateway_config_def default_naming_def)
  then show ?thesis using gateway_stays_well_formed [OF s [unfolded r(1)] run] s run r by blast
qed

theorem missing_key_changes_nothing_witness:
  "fst (snd (serve_request demo_api demo_request_env from_bot () ReloadConfig
     (running\<lparr> app_settings := default_settings\<lparr> st_api_key := Some ''k'' \<rparr> \<rparr>) 1)) =
   running\<lparr> app_settings := default_settings\<lparr> st_api_key := Some ''k'' \<rparr> \<rparr>"
proof -
  let ?app = "running\<lparr> app_settings := default_settings\<lparr> st_api_key := Some ''k'' \<rparr> \<rparr>"
  obtain reply app' w' ms ds where o: "serve_request demo_api demo_request_env from_bot () ReloadConfig ?app 1 = (reply, app', w', ms, ds)"
    by (rule prod_cases5)
  have "get_header from_bot ''X-API-Key'' \<noteq> Some ''k''" by code_simp
  then show ?thesis
    using missing_key_changes_nothing [OF _ _ _ o, of "''k''"] o by (simp add: default_settings_def is_public_def)
qed


theorem stream_reports_the_call_witness:
  "\<exists>evs. fst (call_tool_stream_route (\<lambda>e. ''error'') (\<lambda>r. JNull) 2 demo_api demo_request_env from_bot query_payload running 1) = Inr evs \<and>
     sv_event (hd evs) = ''start'' \<and> length evs = 4"
proof -
  have "isl (fst (get_principal demo_api demo_request_env from_bot (app_settings running) (app_authorizer running))) = False"
    by code_simp
  then obtain p where p: "fst (get_principal demo_api demo_request_env from_bot (app_settings running) (app_authorizer running)) = Inr p"
    by (cases "fst (get_principal demo_api demo_request_env from_bot (app_settings running) (app_authorizer running))") auto
  have "\<exists>evs q. call_tool_stream_route (\<lambda>e. ''error'') (\<lambda>r. JNull) 2 demo_api demo_request_env from_bot query_payload running 1 = (Inr evs, q) \<and>
      (\<exists>x. map sv_event evs = ''start'' # replicate 2 ''progress'' @ [x])"
    using stream_reports_the_call [where av = demo_api and qe = demo_request_env and req = from_bot and payload = query_payload
        and app = running and w = 1 and str_of = "\<lambda>e. ''error''" and dump = "\<lambda>r. JNull" and waits = 2] p
    by (auto split: prod.splits)
  then obtain evs q x where e: "call_tool_stream_route (\<lambda>e. ''error'') (\<lambda>r. JNull) 2 demo_api demo_request_env from_bot query_payload running 1 = (Inr evs, q)"
    "map sv_event evs = ''start'' # replicate 2 ''progress'' @ [x]" by (elim exE conjE) (rule that)
  have "length evs = 4" using arg_cong [OF e(2), of length] by simp
  moreover have "sv_event (hd evs) = ''start''" using e(2) by (cases evs) auto
  ultimately show ?thesis using e(1) by simp
qed

theorem health_reflects_registry_witness: "hs_status (healthz demo_registry) = ''ok''"
proof -
  have "registry_ok (fst (register (ge_outside demo_env) pg_server True (empty_registry Bare Warn) 0))"
    by (rule register_ok) (simp add: empty_ok empty_registry_def new_server_registry_def Let_def)
  moreover have "map (re_healthy \<circ> snd) (rg_entries demo_registry) = [True]" by code_simp
  ultimately show ?thesis using health_reflects_registry [of demo_registry] by (simp add: demo_registry_def [symmetric])
qed

theorem audit_record_names_the_response_witness:
  "\<exists>(app' :: (nat, nat) app_state) e. ox_audit (app_ox app') = Some (new_audit_store\<lparr> as_queue := [e] \<rparr>) \<and> ad_request_id e = ''r1'' \<and> \<not> ad_is_error e"
proof -
  obtain rs app' ms ds where s:
    "serve_request demo_api demo_request_env from_bot () (CallToolOnce query_payload) running 1 = (Inr rs, app', 2, ms, ds)"
    "rs_status rs = 200" "rs_request_id rs = ''r1''" "ox_audit (app_ox app') \<noteq> ox_audit (app_ox running)"
    by (rule demo_served)
  have st: "ox_audit (app_ox running) = Some new_audit_store" by (simp add: running_def demo_ox_def)
  show ?thesis
    using audit_record_names_the_response [OF s(1) st _ s(4)] s(2,3)
    by (auto simp: new_audit_store_def QUEUE_MAX_def demo_request_env_def)
qed

theorem registration_is_always_created_witness:
  "\<exists>rs. fst (serve_request demo_api demo_request_env from_bot () (RegisterServer pg_server) running 1) = Inr rs \<and> rs_status rs = 201"
proof -
  obtain reply app' w' ms ds where o:
    "serve_request demo_api demo_request_env from_bot () (RegisterServer pg_server) running 1 = (reply, app', w', ms, ds)"
    by (rule prod_cases5)
  have "require_api_key (app_settings running) from_bot = Inr ()"
    by (simp add: require_api_key_def running_def default_settings_def)
  from registration_is_always_created [OF this o] show ?thesis using o by auto
qed

end
