(* ===== verification/Overlap.thy ===== *)
theory Overlap
  imports Api
begin

text \<open>
  Calls that overlap. A tool call waits once, inside \<open>MCPClient.call_tool\<close>, between the gate of the circuit
  breaker and the report of its result: everything before runs without giving up the event loop, and so
  does everything after, apart from the closing of a dead session. Here the two halves are steps of
  their own, \<open>begin_call\<close> and \<open>finish_call\<close>, and between them come the answer of the upstream server, turns of
  the network, and any other event of the gateway. A reload is one event here; \<open>Tasks\<close> takes it apart.

  What the calls in flight do to the session they share is not followed: a turn of the network may leave any
  session and any outside behind. Answers are arbitrary too, so what is shown holds for every upstream
  server and every order of events.

  The lemmas show that the split call is the call of \<open>Orchestrator\<close> when nothing comes in between, that every
  interleaving keeps the gateway well formed, that only admitted calls are ever in flight, and that each
  call is answered once and audited once.
\<close>

section \<open>The two halves of a call\<close>

record ('c, 's) flight =
  fl_context :: call_context
  fl_principal :: principal
  fl_target :: "('c, 's) registry_entry target"
  fl_arguments :: jdict
  fl_args :: jdict                                      \<comment> \<open>redacted\<close>
  fl_redacted :: bool
  fl_reply :: "(upstream_error + json) option"          \<comment> \<open>once the upstream has answered\<close>

type_synonym call_result = "orchestrator_exc + tool_call_result"

datatype ('c, 's) begun =
    Ended call_result
  | InFlight "('c, 's) flight"

definition begin_call ::
  "('w, 'c, 's) gateway_env \<Rightarrow> call_context \<Rightarrow> principal \<Rightarrow> string \<Rightarrow> jdict \<Rightarrow> string option \<Rightarrow>
   ('c, 's) orchestrator \<Rightarrow> 'w \<Rightarrow> ('c, 's) begun \<times> ('c, 's) orchestrator \<times> 'w \<times> metric list \<times> delivery list" where
  \<comment> \<open>up to the gate of the server's circuit breaker; a call the gate refuses ends at once\<close>
  "begin_call env cx p name arguments server_id ox w =
     (case prepare env cx p name arguments server_id ox w of
        Finished (r, ox', w', ms, ds) \<Rightarrow> (Ended r, ox', w', ms, ds)
      | Ready tg args req_redacted ms ox1 \<Rightarrow>
          (let (g, lk) = gate (os_sdk (ge_outside env)) (link_of (ox_registry ox1) (tg_sid tg) (tg_entry tg) w);
               ox2 = ox1\<lparr> ox_registry := store_link (tg_sid tg) (tg_entry tg) lk (ox_registry ox1) \<rparr>
           in case g of
                Inl exc \<Rightarrow>
                  (let (r, ox', w', ms', ds) = complete env cx p tg arguments args req_redacted ms (Inl exc) ox2 (lk_world lk)
                   in (Ended r, ox', w', ms', ds))
              | Inr _ \<Rightarrow>
                  (InFlight \<lparr> fl_context = cx, fl_principal = p, fl_target = tg, fl_arguments = arguments, fl_args = args,
                              fl_redacted = req_redacted, fl_reply = None \<rparr>, ox2, lk_world lk, ms, [])))"

definition late_readings :: "call_context \<Rightarrow> call_context \<Rightarrow> call_context" where
  \<comment> \<open>the clocks and the fresh id as they are when the call ends; its start and request id are kept\<close>
  "late_readings cx late = late\<lparr> cx_request_id := cx_request_id cx, cx_start := cx_start cx \<rparr>"

definition finish_call ::
  "('w, 'c, 's) gateway_env \<Rightarrow> call_context \<Rightarrow> ('c, 's) flight \<Rightarrow> upstream_error + json \<Rightarrow>
   ('c, 's) orchestrator \<Rightarrow> 'w \<Rightarrow> ('w, 'c, 's) outcome" where
  \<comment> \<open>the policies, the cache, the audit store and the webhooks are those of the moment\<close>
  "finish_call env late fl reply ox w =
     complete env (late_readings (fl_context fl) late) (fl_principal fl) (fl_target fl) (fl_arguments fl) (fl_args fl)
       (fl_redacted fl) [] reply ox w"

section \<open>The gateway with calls in flight\<close>

record ('w, 'c, 's, 'd) overlap =
  ov_app :: "('c, 's) app_state"
  ov_world :: 'w
  ov_db :: 'd
  ov_flights :: "(nat, ('c, 's) flight) dict"
  ov_answers :: "(nat \<times> call_result) list"              \<comment> \<open>what callers have been answered, latest first\<close>
  ov_counted :: "metric list"

datatype ('w, 'c, 's) overlap_event =
    Gateway gateway_event
  | Begin nat call_context principal string jdict "string option"
  | Network string "('c, 's) mcp_client" 'w
  | Answer nat "upstream_error + json"
  | Finish nat call_context

definition set_ox :: "('c, 's) orchestrator \<Rightarrow> ('w, 'c, 's, 'd) overlap \<Rightarrow> ('w, 'c, 's, 'd) overlap" where
  "set_ox ox st = st\<lparr> ov_app := (ov_app st)\<lparr> app_ox := ox \<rparr> \<rparr>"

fun overlap_step ::
  "('w, 'c, 's, 'k, 'd) api_env \<Rightarrow> (audit_entry list \<Rightarrow> 'd \<Rightarrow> (string + unit) \<times> 'd) \<Rightarrow>
   ('w, 'c, 's, 'd) overlap \<Rightarrow> ('w, 'c, 's) overlap_event \<Rightarrow> ('w, 'c, 's, 'd) overlap" where
  "overlap_step av commit st (Gateway ev) =
     (let (app, w, d) = gateway_step av commit (ov_app st, ov_world st, ov_db st) ev
      in st\<lparr> ov_app := app, ov_world := w, ov_db := d \<rparr>)"
| "overlap_step av commit st (Begin i cx p name arguments server_id) =
     (if i \<in> set (dict_keys (ov_flights st)) then st
      else
        (let (b, ox, w, ms, ds) = begin_call (ae_gateway (av_app av)) cx p name arguments server_id (app_ox (ov_app st)) (ov_world st);
             st' = (set_ox ox st)\<lparr> ov_world := w, ov_counted := ov_counted st @ ms \<rparr>
         in case b of
              Ended r \<Rightarrow> st'\<lparr> ov_answers := (i, r) # ov_answers st \<rparr>
            | InFlight fl \<Rightarrow> st'\<lparr> ov_flights := dict_put i fl (ov_flights st) \<rparr>))"
| "overlap_step av commit st (Network sid c w) =
     (let ox = app_ox (ov_app st)
      in (set_ox (ox\<lparr> ox_registry := network_turn sid c (ox_registry ox) \<rparr>) st)\<lparr> ov_world := w \<rparr>)"
| "overlap_step av commit st (Answer i reply) =
     (case dict_get (ov_flights st) i of
        Some fl \<Rightarrow>
          if fl_reply fl \<noteq> None then st
          else (let ox = app_ox (ov_app st);
                    rg = report_reply (ae_outside (av_app av)) (tg_sid (fl_target fl)) (\<not> isl reply) (ov_world st) (ox_registry ox)
                in (set_ox (ox\<lparr> ox_registry := rg \<rparr>) st)
                     \<lparr> ov_flights := dict_put i (fl\<lparr> fl_reply := Some reply \<rparr>) (ov_flights st) \<rparr>)
      | None \<Rightarrow> st)"
| "overlap_step av commit st (Finish i late) =
     (case dict_get (ov_flights st) i of
        Some fl \<Rightarrow>
          (case fl_reply fl of
             Some reply \<Rightarrow>
               (let (r, ox, w, ms, ds) = finish_call (ae_gateway (av_app av)) late fl reply (app_ox (ov_app st)) (ov_world st)
                in (set_ox ox st)\<lparr> ov_world := w, ov_flights := dict_del i (ov_flights st),
                     ov_answers := (i, r) # ov_answers st, ov_counted := ov_counted st @ ms \<rparr>)
           | None \<Rightarrow> st)
      | None \<Rightarrow> st)"

definition idle_gateway :: "('c, 's) app_state \<Rightarrow> 'w \<Rightarrow> 'd \<Rightarrow> ('w, 'c, 's, 'd) overlap" where
  "idle_gateway app w d =
     \<lparr> ov_app = app, ov_world = w, ov_db = d, ov_flights = [], ov_answers = [], ov_counted = [] \<rparr>"

section \<open>What the steps keep\<close>

lemma begin_cases:
  assumes "begin_call env cx p name arguments server_id ox w = (b, ox', w', ms, ds)"
  obtains (ended) r where "prepare env cx p name arguments server_id ox w = Finished (r, ox', w', ms, ds)" "b = Ended r"
    | (rejected) tg args rq ms1 ox1 lk exc r where
      "prepare env cx p name arguments server_id ox w = Ready tg args rq ms1 ox1"
      "gate (os_sdk (ge_outside env)) (link_of (ox_registry ox1) (tg_sid tg) (tg_entry tg) w) = (Inl exc, lk)"
      "complete env cx p tg arguments args rq ms1 (Inl exc)
         (ox1\<lparr> ox_registry := store_link (tg_sid tg) (tg_entry tg) lk (ox_registry ox1) \<rparr>) (lk_world lk) = (r, ox', w', ms, ds)"
      "b = Ended r"
    | (sent) tg args rq ox1 lk where
      "prepare env cx p name arguments server_id ox w = Ready tg args rq ms ox1"
      "gate (os_sdk (ge_outside env)) (link_of (ox_registry ox1) (tg_sid tg) (tg_entry tg) w) = (Inr (), lk)"
      "ox' = ox1\<lparr> ox_registry := store_link (tg_sid tg) (tg_entry tg) lk (ox_registry ox1) \<rparr>" "w' = lk_world lk" "ds = []"
      "b = InFlight \<lparr> fl_context = cx, fl_principal = p, fl_target = tg, fl_arguments = arguments, fl_args = args,
         fl_redacted = rq, fl_reply = None \<rparr>"
proof (cases "prepare env cx p name arguments server_id ox w")
  case (Finished out)
  then show ?thesis using assms ended by (auto simp: begin_call_def split: prod.splits)
next
  case (Ready tg args rq ms1 ox1)
  obtain g lk where g: "gate (os_sdk (ge_outside env)) (link_of (ox_registry ox1) (tg_sid tg) (tg_entry tg) w) = (g, lk)"
    by fastforce
  show ?thesis
  proof (cases g)
    case (Inl exc)
    then obtain r where "complete env cx p tg arguments args rq ms1 (Inl exc)
         (ox1\<lparr> ox_registry := store_link (tg_sid tg) (tg_entry tg) lk (ox_registry ox1) \<rparr>) (lk_world lk) = (r, ox', w', ms, ds)"
      "b = Ended r"
      using assms Ready g by (auto simp: begin_call_def Let_def split: prod.splits)
    then show ?thesis using rejected [OF Ready] g Inl by simp
  next
    case (Inr u)
    then show ?thesis using assms Ready g by (intro sent [of tg args rq ox1 lk]) (auto simp: begin_call_def Let_def)
  qed
qed

lemma ready_cases:
  assumes "prepare env cx p name arguments server_id ox w = Ready tg args rq ms ox1"
  obtains u oxa ms1 ms2 where
    "resolve (ox_registry ox) name server_id = Inr (tg_sid tg, tg_entry tg, tg_raw tg)" "us_enabled (tg_server tg)"
    "admit env cx p tg arguments ox = (Inr u, oxa, ms1)" "redact_arguments (ox_redactor oxa) arguments = ((args, rq), ms2)"
    "cache_lookup env cx tg args oxa = (None, ox1)" "ms = ms1 @ ms2"
    "ox_registry ox1 = ox_registry ox" "ox_audit ox1 = ox_audit ox"
proof (cases rule: prepare_cases [of env cx p name arguments server_id ox w])
  case (ready tg' u oxa ms1 ms2 args' rq' ox2)
  then have "tg' = tg" "args' = args" "rq' = rq" "ox2 = ox1" "ms = ms1 @ ms2" using assms by simp_all
  moreover have "ox_registry ox2 = ox_registry ox" "ox_audit ox2 = ox_audit ox"
    using admit_frame [OF ready(3)] cache_lookup_frame [OF ready(5)] by auto
  ultimately show ?thesis using ready that by simp
qed (use assms in simp_all)

lemma finished_frame:
  assumes "prepare env cx p name arguments server_id ox w = Finished (r, ox', w', ms, ds)"
  shows "ox_registry ox' = ox_registry ox \<and> (audit_bounded (ox_audit ox) \<longrightarrow> audit_bounded (ox_audit ox'))"
proof (cases rule: prepare_cases [of env cx p name arguments server_id ox w])
  case (refused tg rf ox1 ms1)
  then have "refuse env cx p tg arguments 0 rf ms1 ox1 w = (r, ox', w', ms, ds)" using assms by simp
  from refuse_frame [OF this] show ?thesis
    using admit_frame [OF refused(3)] by (auto simp: audit_bounded_map)
next
  case (escaped tg exc ox1 ms1)
  then show ?thesis using assms admit_frame [OF escaped(3)] by auto
next
  case (hit tg u ox1 ms1 ms2 args rq content ox2)
  then show ?thesis using assms admit_frame [OF hit(3)] cache_lookup_frame [OF hit(5)] by auto
qed (use assms in simp_all)

fun quiet_overlap :: "('w, 'c, 's) overlap_event \<Rightarrow> bool" where
  "quiet_overlap (Gateway ev) \<longleftrightarrow> quiet ev"
| "quiet_overlap _ \<longleftrightarrow> True"

context registry_quiet begin

lemma complete_keeps:
  assumes "complete env cx p tg arguments args rq ms r ox w = (q, ox', w', ms', ds)"
  shows "keeps R ox ox'"
  using assms by (cases rule: complete_cases) (simp_all add: keeps_def same audit_bounded_map)

lemma begin_keeps:
  assumes os: "ge_outside env = os" and "begin_call env cx p name arguments server_id ox w = (b, ox', w', ms, ds)"
  shows "keeps R ox ox'"
proof -
  have linked: "keeps R ox (ox1\<lparr> ox_registry := store_link (tg_sid tg) (tg_entry tg) lk (ox_registry ox1) \<rparr>)"
    if "prepare env cx p name arguments server_id ox w = Ready tg args rq ms1 ox1"
      "gate (os_sdk (ge_outside env)) (link_of (ox_registry ox1) (tg_sid tg) (tg_entry tg) w) = (g, lk)" for tg args rq ms1 ox1 g lk
    using that(1)
  proof (cases rule: ready_cases)
    case (1 u oxa ms1 ms2)
    then show ?thesis
      using gated [OF resolve_registered [OF 1(1)], of w] that(2) os by (simp add: keeps_def)
  qed
  from assms(2) show ?thesis
  proof (cases rule: begin_cases)
    case (ended r)
    then show ?thesis using finished_frame [OF ended(1)] by (simp add: keeps_def same)
  next
    case (rejected tg args rq ms1 ox1 lk exc r)
    then show ?thesis using linked [OF rejected(1,2)] complete_keeps [OF rejected(3)] trans by (auto simp: keeps_def)
  next
    case (sent tg args rq ox1 lk)
    then show ?thesis using linked [OF sent(1,2)] by simp
  qed
qed

lemma quiet_overlap_keeps:
  assumes os: "ae_outside (av_app av) = os" and q: "quiet_overlap ev"
  shows "keeps R (app_ox (ov_app st)) (app_ox (ov_app (overlap_step av commit st ev)))"
proof (cases ev)
  case (Gateway e)
  then show ?thesis using q by (auto split: prod.splits dest: quiet_step_keeps [OF os])
next
  case (Begin i cx p name arguments server_id)
  then show ?thesis
    by (auto simp: set_ox_def Let_def keeps_same split: prod.splits begun.splits dest!: begin_keeps [OF os])
next
  case (Network sid c w)
  then show ?thesis by (simp add: set_ox_def Let_def keeps_def network_turn_guarantee)
next
  case (Answer i reply)
  then show ?thesis by (auto simp: set_ox_def Let_def keeps_def os answered same split: option.splits)
next
  case (Finish i late)
  then show ?thesis
    by (auto simp: set_ox_def finish_call_def Let_def keeps_same split: option.splits prod.splits dest!: complete_keeps)
qed

end

context registry_guarantee begin

lemma overlap_step_keeps:
  assumes os: "ae_outside (av_app av) = os"
  shows "keeps R (app_ox (ov_app st)) (app_ox (ov_app (overlap_step av commit st ev)))"
proof (cases ev)
  case (Gateway e)
  then show ?thesis by (auto split: prod.splits dest: gateway_step_keeps [OF os])
qed (rule quiet_overlap_keeps [OF os], simp)+

lemma overlap_run_keeps:
  assumes "ae_outside (av_app av) = os"
  shows "keeps R (app_ox (ov_app st)) (app_ox (ov_app (run_events (overlap_step av commit) st evs)))"
proof (induction evs arbitrary: st)
  case (Cons ev evs)
  then show ?case using overlap_step_keeps [OF assms, of st commit ev] trans by (fastforce simp: keeps_def)
qed (simp add: keeps_same)

end

definition overlap_started :: "('c, 's) server_registry \<Rightarrow> ('w, 'c, 's, 'd) overlap \<Rightarrow> bool" where
  "overlap_started rg st \<longleftrightarrow> gateway_ok (app_ox (ov_app st)) \<and> ox_registry (app_ox (ov_app st)) = rg"

definition overlap_ok :: "('c, 's) server_registry \<Rightarrow> ('w, 'c, 's, 'd) overlap \<Rightarrow> bool" where
  "overlap_ok rg st \<longleftrightarrow> gateway_ok (app_ox (ov_app st)) \<and> same_thresholds rg (ox_registry (app_ox (ov_app st)))"

interpretation overlapping: det_machine "overlap_started rg" "overlap_step av commit" "overlap_ok rg"
  for rg :: "('c, 's) server_registry" and av :: "('w, 'c, 's, 'k, 'd) api_env"
    and commit :: "audit_entry list \<Rightarrow> 'd \<Rightarrow> (string + unit) \<times> 'd"
proof unfold_locales
  fix st :: "('w, 'c, 's, 'd) overlap"
  show "overlap_ok rg st" if "overlap_started rg st"
    using that by (auto simp: overlap_started_def overlap_ok_def)
  show "overlap_ok rg (overlap_step av commit st ev)" if "overlap_ok rg st" for ev
    using that naming.overlap_step_keeps [OF refl, of st av commit ev] thresholds.overlap_step_keeps [OF refl, of st av commit ev]
      same_thresholds_trans by (auto simp: overlap_ok_def keeps_def gateway_ok_def)
qed

section \<open>What a call in flight has passed\<close>

definition began ::
  "('w, 'c, 's, 'k, 'd) api_env \<Rightarrow> (audit_entry list \<Rightarrow> 'd \<Rightarrow> (string + unit) \<times> 'd) \<Rightarrow> ('w, 'c, 's, 'd) overlap \<Rightarrow>
   ('w, 'c, 's) overlap_event list \<Rightarrow> nat \<Rightarrow> principal \<Rightarrow> ('c, 's) registry_entry target \<Rightarrow> jdict \<Rightarrow> bool" where
  \<comment> \<open>among the events a call of the id begins, for a tool of an enabled server, and passes every check in the
      state it begins in\<close>
  "began av commit st evs i p tg arguments \<longleftrightarrow>
     (\<exists>evs1 cx name server_id evs2. evs = evs1 @ Begin i cx p name arguments server_id # evs2 \<and>
        (let ox = app_ox (ov_app (run_events (overlap_step av commit) st evs1))
         in resolve (ox_registry ox) name server_id = Inr (tg_sid tg, tg_entry tg, tg_raw tg) \<and> us_enabled (tg_server tg) \<and>
            passes_checks (ae_gateway (av_app av)) cx p tg arguments ox))"

lemma began_snoc: "began av commit st evs i p tg arguments \<Longrightarrow> began av commit st (evs @ [ev]) i p tg arguments"
proof -
  assume "began av commit st evs i p tg arguments"
  then obtain evs1 cx name sid evs2 where e: "evs = evs1 @ Begin i cx p name arguments sid # evs2"
    "let ox = app_ox (ov_app (run_events (overlap_step av commit) st evs1))
     in resolve (ox_registry ox) name sid = Inr (tg_sid tg, tg_entry tg, tg_raw tg) \<and> us_enabled (tg_server tg) \<and>
        passes_checks (ae_gateway (av_app av)) cx p tg arguments ox"
    unfolding began_def by blast
  then have "evs @ [ev] = evs1 @ Begin i cx p name arguments sid # (evs2 @ [ev])" by simp
  then show ?thesis unfolding began_def using e(2) by blast
qed

lemma began_last:
  assumes "resolve (ox_registry ox) name sid = Inr (tg_sid tg, tg_entry tg, tg_raw tg)" and "us_enabled (tg_server tg)"
    and "passes_checks (ae_gateway (av_app av)) cx p tg arguments ox"
    and "ox = app_ox (ov_app (run_events (overlap_step av commit) st evs))"
  shows "began av commit st (evs @ [Begin i cx p name arguments sid]) i p tg arguments"
  unfolding began_def Let_def using assms by blast

lemma begin_call_passed:
  assumes "begin_call env cx p name arguments server_id ox w = (b, ox', w', ms, ds)"
  shows "b = InFlight fl \<Longrightarrow>
      fl_reply fl = None \<and> fl_principal fl = p \<and> fl_arguments fl = arguments \<and>
      resolve (ox_registry ox) name server_id = Inr (tg_sid (fl_target fl), tg_entry (fl_target fl), tg_raw (fl_target fl)) \<and>
      us_enabled (tg_server (fl_target fl)) \<and> passes_checks env cx p (fl_target fl) arguments ox"
    and "b = Ended (Inr res) \<Longrightarrow>
      \<exists>tg. resolve (ox_registry ox) name server_id = Inr (tg_sid tg, tg_entry tg, tg_raw tg) \<and>
        us_enabled (tg_server tg) \<and> passes_checks env cx p tg arguments ox \<and>
        cr_server_id res = us_id (tg_server tg) \<and> cr_tool res = tg_raw tg"
proof -
  show "fl_reply fl = None \<and> fl_principal fl = p \<and> fl_arguments fl = arguments \<and>
      resolve (ox_registry ox) name server_id = Inr (tg_sid (fl_target fl), tg_entry (fl_target fl), tg_raw (fl_target fl)) \<and>
      us_enabled (tg_server (fl_target fl)) \<and> passes_checks env cx p (fl_target fl) arguments ox" if "b = InFlight fl"
    using assms
  proof (cases rule: begin_cases)
    case (sent tg args rq ox1 lk)
    from sent(1) show ?thesis
      using sent(6) that by (cases rule: ready_cases) (auto dest: admit_Inr)
  qed (use that in simp_all)
  show "\<exists>tg. resolve (ox_registry ox) name server_id = Inr (tg_sid tg, tg_entry tg, tg_raw tg) \<and>
        us_enabled (tg_server tg) \<and> passes_checks env cx p tg arguments ox \<and>
        cr_server_id res = us_id (tg_server tg) \<and> cr_tool res = tg_raw tg" if b: "b = Ended (Inr res)"
    using assms
  proof (cases rule: begin_cases)
    case (ended r)
    show ?thesis
    proof (cases rule: prepare_cases [of env cx p name arguments server_id ox w])
      case (refused tg rf ox1 ms1)
      then have "refuse env cx p tg arguments 0 rf ms1 ox1 w = (Inr res, ox', w', ms, ds)" using ended b by simp
      then show ?thesis by (auto dest: refuse_frame)
    next
      case (hit tg u ox1 ms1 ms2 args rq content ox2)
      then show ?thesis using ended b by (intro exI [of _ tg]) (auto dest: admit_Inr)
    qed (use ended b in auto)
  next
    case (rejected tg args rq ms1 ox1 lk exc r)
    from rejected(3) show ?thesis by (cases rule: complete_cases) (use rejected(4) b in simp_all)
  qed (use b in simp_all)
qed

lemma finish_call_answers:
  assumes "finish_call env late fl reply ox w = (r, ox', w', ms, ds)"
  shows "(case r of Inr res \<Rightarrow> cr_server_id res = us_id (tg_server (fl_target fl)) \<and> cr_tool res = tg_raw (fl_target fl) \<and> \<not> cr_cached res
          | Inl exc \<Rightarrow> \<exists>e. exc = OrchestrationError (Because (FailedUpstream e)) 502)"
  using assms unfolding finish_call_def by (cases rule: complete_cases) simp_all

definition all_began ::
  "('w, 'c, 's, 'k, 'd) api_env \<Rightarrow> (audit_entry list \<Rightarrow> 'd \<Rightarrow> (string + unit) \<times> 'd) \<Rightarrow> ('w, 'c, 's, 'd) overlap \<Rightarrow>
   ('w, 'c, 's) overlap_event list \<Rightarrow> ('w, 'c, 's, 'd) overlap \<Rightarrow> bool" where
  "all_began av commit st evs st' \<longleftrightarrow>
     (\<forall>i fl. dict_get (ov_flights st') i = Some fl \<longrightarrow>
        began av commit st evs i (fl_principal fl) (fl_target fl) (fl_arguments fl)) \<and>
     (\<forall>i res. (i, Inr res) \<in> set (ov_answers st') \<longrightarrow>
        (\<exists>p tg arguments. began av commit st evs i p tg arguments \<and>
           cr_server_id res = us_id (tg_server tg) \<and> cr_tool res = tg_raw tg))"

lemma all_began_next:
  assumes "all_began av commit st evs st1"
    and "\<And>j fl. dict_get (ov_flights st2) j = Some fl \<Longrightarrow>
      (\<exists>fl1. dict_get (ov_flights st1) j = Some fl1 \<and> fl_principal fl = fl_principal fl1 \<and> fl_target fl = fl_target fl1 \<and>
         fl_arguments fl = fl_arguments fl1) \<or>
      began av commit st (evs @ [ev]) j (fl_principal fl) (fl_target fl) (fl_arguments fl)"
    and "\<And>j res. (j, Inr res) \<in> set (ov_answers st2) \<Longrightarrow>
      (j, Inr res) \<in> set (ov_answers st1) \<or>
      (\<exists>p tg arguments. began av commit st (evs @ [ev]) j p tg arguments \<and>
         cr_server_id res = us_id (tg_server tg) \<and> cr_tool res = tg_raw tg)"
  shows "all_began av commit st (evs @ [ev]) st2"
  unfolding all_began_def
proof (intro conjI allI impI)
  fix j fl
  assume "dict_get (ov_flights st2) j = Some fl"
  from assms(2) [OF this] show "began av commit st (evs @ [ev]) j (fl_principal fl) (fl_target fl) (fl_arguments fl)"
  proof
    assume "\<exists>fl1. dict_get (ov_flights st1) j = Some fl1 \<and> fl_principal fl = fl_principal fl1 \<and> fl_target fl = fl_target fl1 \<and>
         fl_arguments fl = fl_arguments fl1"
    then have "began av commit st evs j (fl_principal fl) (fl_target fl) (fl_arguments fl)"
      using assms(1) unfolding all_began_def by metis
    then show ?thesis by (rule began_snoc)
  qed
next
  fix j res
  assume "(j, Inr res) \<in> set (ov_answers st2)"
  from assms(3) [OF this] show "\<exists>p tg arguments. began av commit st (evs @ [ev]) j p tg arguments \<and>
         cr_server_id res = us_id (tg_server tg) \<and> cr_tool res = tg_raw tg"
  proof
    assume "(j, Inr res) \<in> set (ov_answers st1)"
    then have "\<exists>p tg arguments. began av commit st evs j p tg arguments \<and>
         cr_server_id res = us_id (tg_server tg) \<and> cr_tool res = tg_raw tg"
      using assms(1) unfolding all_began_def by metis
    then show ?thesis using began_snoc by blast
  qed
qed

lemma all_began_finish:
  assumes "all_began av commit st evs st1"
  shows "all_began av commit st (evs @ [Finish i late]) (overlap_step av commit st1 (Finish i late))"
proof (cases "\<exists>fl reply. dict_get (ov_flights st1) i = Some fl \<and> fl_reply fl = Some reply")
  case True
  then obtain fl reply where fl: "dict_get (ov_flights st1) i = Some fl" "fl_reply fl = Some reply" by blast
  obtain r ox w ms ds where r: "finish_call (ae_gateway (av_app av)) late fl reply (app_ox (ov_app st1)) (ov_world st1) =
      (r, ox, w, ms, ds)" by (rule prod_cases5)
  have "began av commit st (evs @ [Finish i late]) i (fl_principal fl) (fl_target fl) (fl_arguments fl)"
    using assms(1) fl(1) began_snoc unfolding all_began_def by blast
  moreover have "cr_server_id res = us_id (tg_server (fl_target fl)) \<and> cr_tool res = tg_raw (fl_target fl)" if "r = Inr res" for res
    using finish_call_answers [OF r] that by simp
  ultimately show ?thesis using fl r
    by (intro all_began_next [OF assms(1)]) (auto simp: set_ox_def Let_def dict.get_del split: if_splits)
next
  case False
  then show ?thesis by (intro all_began_next [OF assms(1)]) (auto split: option.splits)
qed

lemma all_began_step:
  assumes "all_began av commit st evs st1" and st1: "st1 = run_events (overlap_step av commit) st evs"
  shows "all_began av commit st (evs @ [ev]) (overlap_step av commit st1 ev)"
proof (cases ev)
  case (Gateway e)
  then show ?thesis by (intro all_began_next [OF assms(1)]) (auto split: prod.splits)
next
  case (Network sid c w)
  then show ?thesis by (intro all_began_next [OF assms(1)]) (auto simp: set_ox_def Let_def)
next
  case (Answer i reply)
  then show ?thesis
    by (intro all_began_next [OF assms(1)]) (auto simp: set_ox_def Let_def dict.get_put split: option.splits if_splits)
next
  case (Begin i cx p name arguments server_id)
  obtain b ox w ms ds where b: "begin_call (ae_gateway (av_app av)) cx p name arguments server_id (app_ox (ov_app st1)) (ov_world st1) =
      (b, ox, w, ms, ds)" by (rule prod_cases5)
  have last: "began av commit st (evs @ [ev]) i p tg arguments"
    if "resolve (ox_registry (app_ox (ov_app st1))) name server_id = Inr (tg_sid tg, tg_entry tg, tg_raw tg)"
      "us_enabled (tg_server tg)" "passes_checks (ae_gateway (av_app av)) cx p tg arguments (app_ox (ov_app st1))" for tg
    using began_last [OF that] st1 Begin by simp
  have res: "\<exists>p tg arguments. began av commit st (evs @ [ev]) i p tg arguments \<and>
      cr_server_id res = us_id (tg_server tg) \<and> cr_tool res = tg_raw tg" if "b = Ended (Inr res)" for res
    using begin_call_passed(2) [OF b that] last by blast
  have fl: "began av commit st (evs @ [ev]) i (fl_principal fl) (fl_target fl) (fl_arguments fl)" if "b = InFlight fl" for fl
    using begin_call_passed(1) [OF b that] last by auto
  show ?thesis using Begin b res fl
    by (intro all_began_next [OF assms(1)])
      (auto simp: set_ox_def Let_def dict.get_put split: if_splits begun.splits)
next
  case (Finish i late)
  show ?thesis unfolding Finish by (rule all_began_finish [OF assms(1)])
qed

lemma all_began_run:
  assumes "ov_flights st = []" and "ov_answers st = []"
  shows "all_began av commit st evs (run_events (overlap_step av commit) st evs)"
proof (induction evs rule: rev_induct)
  case Nil
  then show ?case using assms by (simp add: all_began_def)
next
  case (snoc ev evs)
  then show ?case using all_began_step by (fastforce simp: run_events_append)
qed

section \<open>Counting\<close>

fun leaves_record :: "call_result \<Rightarrow> bool" where
  \<comment> \<open>unresolved and disabled calls, escaping exceptions and answers from the cache leave no audit record\<close>
  "leaves_record (Inl (OrchestrationError m code)) = (code \<notin> {404, 503})"
| "leaves_record (Inl exc) = False"
| "leaves_record (Inr res) = (\<not> cr_cached res)"

definition records :: "audit_store option \<Rightarrow> nat \<Rightarrow> audit_store option \<Rightarrow> bool" where
  \<comment> \<open>a number of records has been offered to the queue\<close>
  "records a n a' \<longleftrightarrow>
     (case a of
        None \<Rightarrow> a' = None
      | Some s \<Rightarrow> (\<exists>s'. a' = Some s' \<and> length (as_queue s') = (if length (as_queue s) \<le> QUEUE_MAX
                     then min QUEUE_MAX (length (as_queue s) + n) else length (as_queue s))))"

lemma records_refl [simp]: "records a 0 a"
  by (simp add: records_def split: option.splits)

lemma records_one: "records a 1 (map_option (audit_record digest uuid now f) a)"
  by (auto simp: records_def audit_record_def put_nowait_def split: option.splits)

lemma records_trans: "records a m b \<Longrightarrow> records b n c \<Longrightarrow> records a (m + n) c"
  by (auto simp: records_def split: option.splits if_splits)

lemma complete_counts:
  assumes "complete env cx p tg arguments args rq ms r ox w = (q, ox', w', ms', ds)"
  shows "length (call_count ms') = Suc (length (call_count ms))" and "leaves_record q" and "records (ox_audit ox) 1 (ox_audit ox')"
  using assms by (cases rule: complete_cases; use records_one redact_count in simp)+

lemma begin_counts:
  assumes "begin_call env cx p name arguments server_id ox w = (b, ox', w', ms, ds)"
  shows "case b of
     Ended r \<Rightarrow> length (call_count ms) = of_bool (leaves_record r) \<and> records (ox_audit ox) (of_bool (leaves_record r)) (ox_audit ox')
   | InFlight fl \<Rightarrow> call_count ms = [] \<and> ox_audit ox' = ox_audit ox"
  using assms
proof (cases rule: begin_cases)
  case (ended r)
  show ?thesis
  proof (cases rule: prepare_cases [of env cx p name arguments server_id ox w])
    case (early exc)
    then show ?thesis using ended by auto
  next
    case (escaped tg exc ox1 ms1)
    have "exc = EscapedZeroDivision \<or> (\<exists>x. exc = EscapedValidator x)"
      using escaped(3) by (auto simp: admit_def split: prod.splits sum.splits limiter_error.splits schema_failure.splits)
    then show ?thesis using escaped ended admit_frame [OF escaped(3)] admit_count [OF escaped(3)] by auto
  next
    case (refused tg rf ox1 ms1)
    then have r: "refuse env cx p tg arguments 0 rf ms1 ox1 w = (r, ox', w', ms, ds)" using ended by simp
    have "refusal_code rf \<notin> {404, 503}" by (cases rf) simp_all
    then show ?thesis
      using refuse_frame [OF r] admit_frame [OF refused(3)] admit_count [OF refused(3)] ended records_one by auto
  next
    case (hit tg u ox1 ms1 ms2 args rq content ox2)
    then show ?thesis
      using ended admit_frame [OF hit(3)] admit_count [OF hit(3)] redact_arguments_count [OF hit(4)] cache_lookup_frame [OF hit(5)]
      by auto
  qed (use ended in simp)
next
  case (rejected tg args rq ms1 ox1 lk exc r)
  have "call_count ms1 = [] \<and> ox_audit ox1 = ox_audit ox"
    using rejected(1) by (cases rule: ready_cases) (simp add: admit_count redact_arguments_count)
  then show ?thesis using complete_counts [OF rejected(3)] rejected(4) by simp
next
  case (sent tg args rq ox1 lk)
  have "call_count ms = [] \<and> ox_audit ox1 = ox_audit ox"
    using sent(1) by (cases rule: ready_cases) (simp add: admit_count redact_arguments_count)
  then show ?thesis using sent by simp
qed

fun begins :: "('w, 'c, 's) overlap_event list \<Rightarrow> nat list" where
  \<comment> \<open>the ids of the calls that begin\<close>
  "begins [] = []"
| "begins (Begin i cx p name arguments server_id # evs) = i # begins evs"
| "begins (ev # evs) = begins evs"

lemma begins_append [simp]: "begins (xs @ ys) = begins xs @ begins ys"
  by (induction xs rule: begins.induct) simp_all

fun is_gateway :: "('w, 'c, 's) overlap_event \<Rightarrow> bool" where
  "is_gateway (Gateway ev) = True"
| "is_gateway _ = False"

lemma mset_remove_key: "distinct xs \<Longrightarrow> i \<in> set xs \<Longrightarrow> add_mset i (mset (removeAll i xs)) = mset xs"
  by (simp flip: distinct_remove1_removeAll)

definition balanced ::
  "('w, 'c, 's, 'd) overlap \<Rightarrow> ('w, 'c, 's) overlap_event list \<Rightarrow> ('w, 'c, 's, 'd) overlap \<Rightarrow> bool" where
  "balanced st evs st' \<longleftrightarrow>
     distinct (dict_keys (ov_flights st')) \<and>
     mset (map fst (ov_answers st')) + mset (dict_keys (ov_flights st')) = mset (begins evs) \<and>
     length (call_count (ov_counted st')) = length (filter (\<lambda>a. leaves_record (snd a)) (ov_answers st')) \<and>
     (list_ex is_gateway evs \<or>
      records (ox_audit (app_ox (ov_app st))) (length (call_count (ov_counted st'))) (ox_audit (app_ox (ov_app st'))))"

lemma balanced_begin:
  assumes b: "balanced st evs st1" and new: "i \<notin> set (dict_keys (ov_flights st1))"
  shows "balanced st (evs @ [Begin i cx p name arguments server_id])
    (overlap_step av commit st1 (Begin i cx p name arguments server_id))"
proof -
  obtain q ox w ms ds where q: "begin_call (ae_gateway (av_app av)) cx p name arguments server_id (app_ox (ov_app st1)) (ov_world st1) =
      (q, ox, w, ms, ds)" by (rule prod_cases5)
  show ?thesis
  proof (cases q)
    case (Ended r)
    then show ?thesis using b new q begin_counts [OF q] records_trans
      by (fastforce simp: balanced_def set_ox_def Let_def simp del: mset_map)
  next
    case (InFlight fl)
    then show ?thesis using b new q begin_counts [OF q]
      by (auto simp: balanced_def set_ox_def Let_def AList.update_keys distinct_update simp del: mset_map)
  qed
qed

lemma balanced_finish:
  assumes b: "balanced st evs st1" and fl: "dict_get (ov_flights st1) i = Some fl" "fl_reply fl = Some reply"
  shows "balanced st (evs @ [Finish i late]) (overlap_step av commit st1 (Finish i late))"
proof -
  obtain r ox w ms ds where r: "finish_call (ae_gateway (av_app av)) late fl reply (app_ox (ov_app st1)) (ov_world st1) =
      (r, ox, w, ms, ds)" by (rule prod_cases5)
  have i: "i \<in> set (dict_keys (ov_flights st1))" using fl(1) by (force dest: map_of_SomeD)
  have st2: "overlap_step av commit st1 (Finish i late) = (set_ox ox st1)\<lparr> ov_world := w, ov_flights := dict_del i (ov_flights st1),
      ov_answers := (i, r) # ov_answers st1, ov_counted := ov_counted st1 @ ms \<rparr>"
    using fl r by simp
  have "add_mset i (mset (dict_keys (dict_del i (ov_flights st1)))) = mset (dict_keys (ov_flights st1))"
    using mset_remove_key [OF _ i] b by (simp add: balanced_def AList.delete_keys del: mset_map)
  then have "mset (map fst ((i, r) # ov_answers st1)) + mset (dict_keys (dict_del i (ov_flights st1))) = mset (begins evs)"
    using b by (simp add: balanced_def) (metis union_mset_add_mset_right)
  moreover have "distinct (dict_keys (dict_del i (ov_flights st1)))"
    using b by (simp add: balanced_def distinct_delete)
  moreover have "length (call_count ms) = 1" "leaves_record r" "records (ox_audit (app_ox (ov_app st1))) 1 (ox_audit ox)"
    using complete_counts [OF r [unfolded finish_call_def]] by simp_all
  ultimately show ?thesis using b unfolding st2 balanced_def
    by (auto simp: set_ox_def dest: records_trans)
qed

lemma balanced_step:
  assumes b: "balanced st evs st1" and d: "distinct (begins (evs @ [ev]))"
  shows "balanced st (evs @ [ev]) (overlap_step av commit st1 ev)"
proof (cases ev)
  case (Gateway e)
  then show ?thesis using b by (auto simp: balanced_def split: prod.splits)
next
  case (Network sid c w)
  then show ?thesis using b by (auto simp: balanced_def set_ox_def Let_def)
next
  case (Answer i reply)
  then show ?thesis using b
    by (auto simp: balanced_def set_ox_def Let_def AList.update_keys distinct_update simp del: mset_map
        split: option.splits dest: map_of_SomeD intro: rev_image_eqI)
next
  case (Begin i cx p name arguments server_id)
  have "set (dict_keys (ov_flights st1)) \<subseteq> set (begins evs)"
    using b unfolding balanced_def by (metis set_mset_mset mset_subset_eq_add_right set_mset_mono)
  then have "i \<notin> set (dict_keys (ov_flights st1))" using d Begin by auto
  then show ?thesis using balanced_begin [OF b] Begin by simp
next
  case (Finish i late)
  show ?thesis
  proof (cases "\<exists>fl reply. dict_get (ov_flights st1) i = Some fl \<and> fl_reply fl = Some reply")
    case True
    then show ?thesis using balanced_finish [OF b] Finish by blast
  next
    case False
    then show ?thesis using b Finish by (auto simp: balanced_def split: option.splits)
  qed
qed

lemma balanced_run:
  assumes "ov_flights st = []" and "ov_answers st = []" and "ov_counted st = []" and "distinct (begins evs)"
  shows "balanced st evs (run_events (overlap_step av commit) st evs)"
  using assms(4)
proof (induction evs rule: rev_induct)
  case Nil
  then show ?case using assms(1-3) by (simp add: balanced_def)
next
  case (snoc ev evs)
  then show ?case using balanced_step by (fastforce simp: run_events_append)
qed

section \<open>A call that nothing interrupts\<close>

lemma late_readings_self [simp]: "late_readings cx cx = cx"
  by (simp add: late_readings_def)

lemma complete_prefix:
  assumes "complete env cx p tg arguments args rq ms r ox w = (q, ox', w', ms', ds)"
  shows "\<exists>ms2. complete env cx p tg arguments args rq [] r ox w = (q, ox', w', ms2, ds) \<and> ms' = ms @ ms2"
  using assms by (cases r) (auto simp: complete_def refuse_def Let_def split: prod.splits option.splits)

lemma client_call_turns:
  fixes os :: "('w, 'c, 's) outside"
  assumes re: "retries_as_documented (os_sdk os)" and e: "dict_get (rg_entries rg) sid = Some e"
    and g: "gate (os_sdk os) (link_of rg sid e w) = (Inr u, lk1)"
    and call: "client_call os sid e raw args agent rg w = (reply, rg', w')"
  obtains c2 w2 c3 where "network_turn sid c3 (report_reply os sid (\<not> isl reply) w2
      (network_turn sid c2 (store_link sid e lk1 rg))) = rg'"
proof -
  let ?body = "call_attempt (os_sdk os) raw args agent"
  obtain res and lk2 :: "('w, 'c, 's) link" where a: "attempts_from 2 retriable ?body 1 lk1 = (res, lk2)" by fastforce
  obtain rep and lk3 :: "('w, 'c, 's) link" where rp: "report (os_sdk os) res lk2 = (rep, lk3)" by fastforce
  have rg': "rg' = store_link sid e lk3 rg" and rep: "isl rep \<longleftrightarrow> isl reply"
    using call g a rp
    by (auto simp: client_call_def call_tool_def guarded_call_def three_attempts [OF re] split: sum.splits reply.splits)
  have "lk_cb lk3 = map_option (if isl rep then on_failure (sdk_now (os_sdk os) (lk_world lk2)) else on_success) (lk_cb lk1)"
    using report_result [OF rp] call_attempts_keep_cb [OF a] by simp
  then have "network_turn sid (lk_client lk3) (report_reply os sid (\<not> isl reply) (lk_world lk2)
      (network_turn sid (lk_client lk2) (store_link sid e lk1 rg))) = rg'"
    using gate_keeps [OF g] rep unfolding rg' by (intro turns_make_the_call [OF e]) (auto simp: link_of_def)
  then show ?thesis by (rule that)
qed

lemma tool_call_splits:
  fixes env :: "('w, 'c, 's) gateway_env"
  assumes re: "retries_as_documented (os_sdk (ge_outside env))"
    and call: "tool_call env cx p name arguments server_id ox w = (r, ox', w', ms, ds)"
  obtains (at_once) "begin_call env cx p name arguments server_id ox w = (Ended r, ox', w', ms, ds)"
    | (in_turns) fl ox1 w1 ms1 ms2 reply c2 w2 c3 where
      "begin_call env cx p name arguments server_id ox w = (InFlight fl, ox1, w1, ms1, [])" "fl_reply fl = None"
      "finish_call env cx (fl\<lparr> fl_reply := Some reply \<rparr>) reply
         (ox1\<lparr> ox_registry := network_turn (tg_sid (fl_target fl)) c3
            (report_reply (ge_outside env) (tg_sid (fl_target fl)) (\<not> isl reply) w2
              (network_turn (tg_sid (fl_target fl)) c2 (ox_registry ox1))) \<rparr>) w' = (r, ox', w', ms2, ds)"
      "ms = ms1 @ ms2"
proof (cases "prepare env cx p name arguments server_id ox w")
  case (Finished out)
  then show ?thesis using call at_once by (auto simp: tool_call_def begin_call_def split: prod.splits)
next
  case (Ready tg args rq ms1 ox1)
  let ?os = "ge_outside env" and ?sid = "tg_sid tg" and ?e = "tg_entry tg" and ?rg = "ox_registry ox1"
  have entry: "dict_get (rg_entries ?rg) ?sid = Some ?e"
    using Ready by (cases rule: ready_cases) (simp add: resolve_registered)
  obtain g lk1 where g: "gate (os_sdk ?os) (link_of ?rg ?sid ?e w) = (g, lk1)" by fastforce
  obtain reply rg' w1 where cl: "client_call ?os ?sid ?e (tg_raw tg) args (Some (pr_agent_id p)) ?rg w = (reply, rg', w1)"
    by (rule prod_cases3)
  have c: "complete env cx p tg arguments args rq ms1 reply (ox1\<lparr> ox_registry := rg' \<rparr>) w1 = (r, ox', w', ms, ds)"
    using call Ready cl by (simp add: tool_call_def forward_def)
  show ?thesis
  proof (cases g)
    case (Inl exc)
    then have "(reply, rg', w1) = (Inl exc, store_link ?sid ?e lk1 ?rg, lk_world lk1)"
      using g cl by (simp add: client_call_def call_tool_def guarded_call_def)
    then show ?thesis using c Ready g Inl by (intro at_once) (simp add: begin_call_def)
  next
    case (Inr u)
    obtain ms2 where c2: "complete env cx p tg arguments args rq [] reply (ox1\<lparr> ox_registry := rg' \<rparr>) w1 = (r, ox', w', ms2, ds)"
        "ms = ms1 @ ms2"
      using complete_prefix [OF c] by blast
    have w': "w' = w1" using c by (cases rule: complete_cases) simp_all
    obtain c2 w2 c3 where turns: "network_turn ?sid c3 (report_reply ?os ?sid (\<not> isl reply) w2
        (network_turn ?sid c2 (store_link ?sid ?e lk1 ?rg))) = rg'"
      by (rule client_call_turns [OF re entry g [unfolded Inr] cl])
    have b: "begin_call env cx p name arguments server_id ox w =
        (InFlight \<lparr> fl_context = cx, fl_principal = p, fl_target = tg, fl_arguments = arguments, fl_args = args,
           fl_redacted = rq, fl_reply = None \<rparr>, ox1\<lparr> ox_registry := store_link ?sid ?e lk1 ?rg \<rparr>, lk_world lk1, ms1, [])"
      using Ready g Inr by (simp add: begin_call_def)
    show ?thesis
      by (rule in_turns [OF b, where reply = reply and ?c3.0 = c3 and ?w2.0 = w2 and ?c2.0 = c2])
        (simp_all add: finish_call_def turns c2 w')
  qed
qed

section \<open>Properties\<close>

text \<open>C7. Overlapping calls refine the calls of the orchestrator: every call, whatever its outcome, is a schedule of
  the two halves with turns of the network and the answer of the upstream server in between. A schedule that runs
  without other events leaves the same state, outside, counters and answer as the call, and no call in flight.\<close>

theorem calls_run_in_turns:
  fixes st :: "('w, 'c, 's, 'd) overlap"
  assumes "retries_as_documented (os_sdk (ae_outside (av_app av)))"
    and call: "tool_call (ae_gateway (av_app av)) cx p name arguments server_id (app_ox (ov_app st)) (ov_world st) = (r, ox', w', ms, ds)"
    and "i \<notin> set (dict_keys (ov_flights st))"
  shows "\<exists>evs. begins evs = [i] \<and> \<not> list_ex is_gateway evs \<and>
    run_events (overlap_step av commit) st evs =
      (set_ox ox' st)\<lparr> ov_world := w', ov_answers := (i, r) # ov_answers st, ov_counted := ov_counted st @ ms \<rparr>"
  using assms(1) call
proof (cases rule: tool_call_splits)
  case at_once
  then show ?thesis using assms(3)
    by (intro exI [of _ "[Begin i cx p name arguments server_id]"]) (simp add: set_ox_def)
next
  case (in_turns fl ox1 w1 ms1 ms2 reply c2 w2 c3)
  let ?sid = "tg_sid (fl_target fl)"
  let ?evs = "[Begin i cx p name arguments server_id, Network ?sid c2 w2, Answer i reply, Network ?sid c3 w', Finish i cx]"
  have "dict_del i (dict_put i (fl\<lparr> fl_reply := Some reply \<rparr>) (dict_put i fl (ov_flights st))) = ov_flights st"
    using assms(3) by (simp add: AList.delete_update_same AList.delete_idem)
  then have "run_events (overlap_step av commit) st ?evs =
      (set_ox ox' st)\<lparr> ov_world := w', ov_answers := (i, r) # ov_answers st, ov_counted := ov_counted st @ ms \<rparr>"
    using in_turns assms(3) by (simp add: set_ox_def Let_def dict.get_put)
  then show ?thesis by (intro exI [of _ ?evs]) simp
qed

text \<open>From startup on, through any interleaving of calls in flight, answers of the upstream servers, turns of the
  network, requests, reloads that succeed or fail, health sweeps and flushes, the registry stays well formed, which with
  a policy other than \<open>suffix\<close> means that no two tools share a qualified name; the audit queue stays within its bound;
  and the naming rule and the thresholds of the circuit breakers stay those of the configuration at startup.\<close>

theorem overlapping_gateway_stays_well_formed:
  assumes "startup ae create_all st w0 d0 = (Inr app, w, d, ms)"
    and "st' = run_events (overlap_step av commit) (idle_gateway app w d) evs"
  shows "registry_ok (ox_registry (app_ox (ov_app st'))) \<and>
    (nc_on_conflict (gc_naming (app_config app)) \<noteq> Suffix \<longrightarrow> names_unique (ox_registry (app_ox (ov_app st')))) \<and>
    (\<forall>s. ox_audit (app_ox (ov_app st')) = Some s \<longrightarrow> length (as_queue s) \<le> 10000) \<and>
    rg_naming (ox_registry (app_ox (ov_app st'))) = gc_naming (app_config app) \<and>
    cr_failure_threshold (rg_cb (ox_registry (app_ox (ov_app st')))) = cp_failure_threshold (gc_circuit_breaker (app_config app)) \<and>
    cr_recovery_timeout (rg_cb (ox_registry (app_ox (ov_app st')))) = cp_recovery_timeout (gc_circuit_breaker (app_config app))"
proof -
  note s = startup_ok [OF assms(1)]
  have "overlap_ok (ox_registry (app_ox app)) st'"
    unfolding assms(2) by (rule overlapping.run_from_init) (simp add: overlap_started_def idle_gateway_def s)
  then show ?thesis
    using s by (auto simp: overlap_ok_def gateway_ok_def same_thresholds_def same_policy_def audit_bounded_def QUEUE_MAX_def registry_ok_def)
qed

text \<open>C8. Whatever is in flight or answered with a result was admitted: among the events there is the beginning of a
  call with its id, by its agent and with its arguments, for its tool of a server that was enabled, and the access
  rule, the rate limits, the guardrails and the schema in force at that moment let it pass, whatever has been
  reconfigured, registered or removed since.\<close>

theorem calls_in_flight_were_admitted:
  assumes "st' = run_events (overlap_step av commit) (idle_gateway app w d) evs"
  shows "(\<forall>i fl. dict_get (ov_flights st') i = Some fl \<longrightarrow>
      began av commit (idle_gateway app w d) evs i (fl_principal fl) (fl_target fl) (fl_arguments fl)) \<and>
    (\<forall>i res. (i, Inr res) \<in> set (ov_answers st') \<longrightarrow>
      (\<exists>p tg arguments. began av commit (idle_gateway app w d) evs i p tg arguments \<and>
         cr_server_id res = us_id (tg_server tg) \<and> cr_tool res = tg_raw tg))"
  using all_began_run [of "idle_gateway app w d" av commit evs] assms by (simp add: idle_gateway_def all_began_def)

text \<open>C9. No overlapping call is lost, answered twice or audited twice: however calls with different ids overlap, with
  each other and with the other events of the gateway, each of them is either in flight or has been answered exactly
  once, and the call counter has gone up once for every answer that is not a 404 or 503, an escaped exception or an answer from
  the cache. As long as only calls run, the audit queue has grown by as many records, up to its bound.\<close>

theorem overlapping_calls_are_answered_once:
  assumes "st' = run_events (overlap_step av commit) (idle_gateway app w d) evs" and "distinct (begins evs)"
  shows "mset (map fst (ov_answers st')) + mset (dict_keys (ov_flights st')) = mset (begins evs) \<and>
    length (call_count (ov_counted st')) = length (filter (\<lambda>a. leaves_record (snd a)) (ov_answers st')) \<and>
    (\<forall>s. \<not> list_ex is_gateway evs \<and> ox_audit (app_ox app) = Some s \<and> length (as_queue s) \<le> QUEUE_MAX \<longrightarrow>
      (\<exists>s'. ox_audit (app_ox (ov_app st')) = Some s' \<and>
         length (as_queue s') = min QUEUE_MAX (length (as_queue s) + length (call_count (ov_counted st')))))"
  using balanced_run [of "idle_gateway app w d" evs av commit] assms
  by (auto simp: idle_gateway_def balanced_def records_def simp del: mset_map)

section \<open>Calls of the same tool\<close>


lemma sent_call_missed:
  assumes "prepare env cx p name arguments server_id ox w = Ready tg args rq ms ox1"
    and "gate (os_sdk (ge_outside env)) (link_of (ox_registry ox1) (tg_sid tg) (tg_entry tg) w) = (g, lk)"
  shows "rg_entries (store_link (tg_sid tg) (tg_entry tg) lk (ox_registry ox1)) = rg_entries (ox_registry ox)" and
    "ox_redactor ox1 = ox_redactor ox" and "fst (cache_lookup env cx' tg args ox1) = None"
proof -
  from assms(1) obtain u oxa ms1 ms2 where r: "resolve (ox_registry ox) name server_id = Inr (tg_sid tg, tg_entry tg, tg_raw tg)"
    "admit env cx p tg arguments ox = (Inr u, oxa, ms1)" "cache_lookup env cx tg args oxa = (None, ox1)" "ox_registry ox1 = ox_registry ox"
    by (cases rule: ready_cases)
  then show "rg_entries (store_link (tg_sid tg) (tg_entry tg) lk (ox_registry ox1)) = rg_entries (ox_registry ox)"
    using gate_keeps [OF assms(2)] resolve_registered [OF r(1)]
    by (simp add: store_link_def put_entry_def link_of_def AList.update_triv)
  show "ox_redactor ox1 = ox_redactor ox" using admit_frame [OF r(2)] cache_lookup_frame [OF r(3)] by auto
  show "fst (cache_lookup env cx' tg args ox1) = None"
    using r(3)
    by (auto simp: cache_lookup_def get_result_def ttl_get_def dict.get_del split: option.splits if_splits prod.splits)
qed

lemma resolve_entries: "rg_entries rg' = rg_entries rg \<Longrightarrow> resolve rg' name server_id = resolve rg name server_id"
proof -
  assume e: "rg_entries rg' = rg_entries rg"
  then have "find_by_qualified_tool rg' name = find_by_qualified_tool rg name"
    by (simp only: find_by_qualified_tool_def)
  then show ?thesis by (simp only: resolve_def e)
qed

lemma cache_lookup_cong: "ox_cache ox' = ox_cache ox \<Longrightarrow> fst (cache_lookup env cx tg args ox') = fst (cache_lookup env cx tg args ox)"
  by (simp add: cache_lookup_def split: option.splits prod.splits)

lemma prepared_again:
  fixes env :: "('w, 'c, 's) gateway_env"
  assumes first: "begin_call env cx p name arguments server_id ox w = (InFlight fl, ox1, w1, ms, ds)"
    and t: "resolve (ox_registry ox1) name server_id = Inr (tg_sid tg', tg_entry tg', tg_raw tg')"
    and ad: "admit env cx' p' tg' arguments ox1 = (Inr u', oxb, ms3)"
    and re: "redact_arguments (ox_redactor oxb) arguments = ((args', rq'), ms4)"
  shows "tg' = fl_target fl \<and> args' = fl_args fl \<and> fst (cache_lookup env cx' tg' args' oxb) = None"
  using first
proof (cases rule: begin_cases)
  case (sent tg args rq oxp lk)
  note missed = sent_call_missed [OF sent(1,2)]
  have "rg_entries (ox_registry ox1) = rg_entries (ox_registry ox)" using sent(3) missed(1) by simp
  from resolve_entries [OF this]
  have same: "ox_redactor ox1 = ox_redactor ox" "ox_cache ox1 = ox_cache oxp"
    "resolve (ox_registry ox1) name server_id = resolve (ox_registry ox) name server_id"
    using sent(3) missed(2) by simp_all
  obtain u oxa ms1 ms2 where r: "resolve (ox_registry ox) name server_id = Inr (tg_sid tg, tg_entry tg, tg_raw tg)"
    "admit env cx p tg arguments ox = (Inr u, oxa, ms1)" "redact_arguments (ox_redactor oxa) arguments = ((args, rq), ms2)"
    using sent(1) by (cases rule: ready_cases)
  then have args: "fst (fst (redact_arguments (ox_redactor ox) arguments)) = args"
    using admit_frame [OF r(2)] by auto
  have "tg' = tg" using t same(3) r(1) by (intro target.equality) simp_all
  moreover obtain rl where "oxb = ox1\<lparr> ox_rate_limiter := rl \<rparr>" using admit_frame [OF ad] by blast
  ultimately have "tg' = tg \<and> args' = args \<and> ox_cache oxb = ox_cache oxp" using re same(1,2) args by simp
  then show ?thesis using missed(3) cache_lookup_cong sent(6) by (metis begun.inject(2) flight.select_convs(3,5))
qed simp_all

text \<open>Calls of one tool with the same arguments are not merged: while one is in flight, a second one, of whatever agent, is
  never answered from the cache; unless it is refused it goes to the upstream server as well, with the same redacted
  arguments.\<close>

theorem calls_in_flight_are_not_shared:
  fixes env :: "('w, 'c, 's) gateway_env"
  assumes first: "begin_call env cx p name arguments server_id ox w = (InFlight fl, ox1, w1, ms, ds)"
    and second: "begin_call env cx' p' name arguments server_id ox1 w1 = (b, ox2, w2, ms', ds')"
  shows "case b of Ended r \<Rightarrow> isl r | InFlight fl' \<Rightarrow> fl_args fl' = fl_args fl \<and> fl_target fl' = fl_target fl"
  using second
proof (cases rule: begin_cases)
  case (ended q)
  show ?thesis
  proof (cases rule: prepare_cases [of env cx' p' name arguments server_id ox1 w1])
    case (hit tg' u' oxb ms3 ms4 args' rq' content oxc)
    have "fst (cache_lookup env cx' tg' args' oxb) = None" using prepared_again [OF first hit(1,3,4)] by blast
    then show ?thesis using hit(5) by simp
  next
    case (refused tg' rf oxb ms3)
    then have "refuse env cx' p' tg' arguments 0 rf ms3 oxb w1 = (q, ox2, w2, ms', ds')" using ended(1) by simp
    then have "isl q" using refuse_frame by fastforce
    then show ?thesis using ended(2) by simp
  qed (use ended in auto)
next
  case (rejected tg' args' rq' ms3 oxb lk' exc q)
  have "isl q" using rejected(3) by (cases rule: complete_cases) simp_all
  then show ?thesis using rejected(4) by simp
next
  case third: (sent tg' args' rq' oxb lk')
  show ?thesis
    using third(1)
  proof (cases rule: ready_cases)
    case (1 u' oxc ms3 ms4)
    then show ?thesis using prepared_again [OF first 1(1,3,4)] third by simp
  qed
qed

section \<open>Two calls of a running gateway\<close>

definition bot :: principal where
  "bot = \<lparr> pr_agent_id = ''bot'', pr_permissions = [] \<rparr>"

definition begin_query :: "nat \<Rightarrow> seconds \<Rightarrow> (nat, nat, nat) overlap_event" where
  "begin_query i t = Begin i (reading_at t) bot ''query'' contact (Some ''pg'')"

definition two_queries :: "(nat, nat, nat) overlap_event list" where
  \<comment> \<open>the second is answered first and the first returns first\<close>
  "two_queries =
     [begin_query 0 5, begin_query 1 6, Answer 1 (Inr (JStr ''b'')), Answer 0 (Inr (JStr ''a'')), Finish 0 (reading_at 8)]"

abbreviation keep_rows :: "audit_entry list \<Rightarrow> unit \<Rightarrow> (string + unit) \<times> unit" where
  "keep_rows batch d \<equiv> (Inr (), d)"

lemma two_queries_run:
  "let st' = run_events (overlap_step demo_api keep_rows) (idle_gateway running 1 ()) two_queries
   in dict_keys (ov_flights st') = [1] \<and> map fst (ov_answers st') = [0] \<and>
      map (leaves_record \<circ> snd) (ov_answers st') = [True]"
  by code_simp

theorem calls_run_in_turns_witness:
  "\<exists>evs. begins evs = [7] \<and>
     ov_answers (run_events (overlap_step demo_api keep_rows) (idle_gateway running 1 ()) evs) =
       [(7, fst (demo_call 5 ''query'' contact demo_ox))]"
proof -
  obtain r ox' w' ms ds where o: "demo_call 5 ''query'' contact demo_ox = (r, ox', w', ms, ds)" by (rule prod_cases5)
  have re: "retries_as_documented (os_sdk (ae_outside (av_app demo_api)))"
    by (simp add: retries_as_documented_def demo_api_def app_env_for_def demo_env_def serving_def demo_sdk_def)
  have "tool_call (ae_gateway (av_app demo_api)) (reading_at 5) bot ''query'' contact (Some ''pg'')
      (app_ox (ov_app (idle_gateway running 1 ()))) (ov_world (idle_gateway running 1 ())) = (r, ox', w', ms, ds)"
    using o by (simp add: demo_call_def bot_def demo_api_def app_env_for_def idle_gateway_def running_def)
  from calls_run_in_turns [OF re this, of 7 keep_rows] obtain evs where e: "begins evs = [7]"
    "run_events (overlap_step demo_api keep_rows) (idle_gateway running 1 ()) evs =
       (set_ox ox' (idle_gateway running 1 ()))\<lparr> ov_world := w', ov_answers := [(7, r)], ov_counted := ms \<rparr>"
    by (auto simp: idle_gateway_def)
  then show ?thesis using o by (intro exI [of _ evs]) simp
qed

theorem overlapping_gateway_stays_well_formed_witness:
  "\<exists>app w d ms. startup (app_env_for (with_servers [pg_server])) id default_settings 0 () = (Inr app, w, d, ms) \<and>
     names_unique (ox_registry (app_ox (ov_app
       (run_events (overlap_step demo_api keep_rows) (idle_gateway app w d) (Gateway Hangup # two_queries)))))"
proof -
  have l: "load_config (app_env_for (with_servers [pg_server])) default_settings 0 = Inr (with_servers [pg_server])"
    by (rule loads_config) simp
  obtain r w d ms where s: "startup (app_env_for (with_servers [pg_server])) id default_settings 0 () = (r, w, d, ms)"
    by (rule prod_cases4)
  then obtain app where r: "r = Inr app" "app_config app = with_servers [pg_server]"
    using l by (auto simp: startup_def build_components_def demo_ids start_store_def split: prod.splits)
  have "nc_on_conflict (gc_naming (app_config app)) \<noteq> Suffix"
    by (simp add: r(2) with_servers_def default_gateway_config_def default_naming_def)
  then show ?thesis using overlapping_gateway_stays_well_formed [OF s [unfolded r(1)] refl] s r(1) by blast
qed

theorem calls_in_flight_were_admitted_witness:
  "\<exists>p tg arguments. began demo_api keep_rows (idle_gateway running 1 ()) two_queries 1 p tg arguments"
proof -
  let ?st = "run_events (overlap_step demo_api keep_rows) (idle_gateway running 1 ()) two_queries"
  obtain fl where "dict_get (ov_flights ?st) 1 = Some fl"
    using two_queries_run by (cases "ov_flights ?st") (auto simp: Let_def)
  then show ?thesis using calls_in_flight_were_admitted [OF refl, of demo_api keep_rows running 1 "()" two_queries] by blast
qed

theorem overlapping_calls_are_answered_once_witness:
  "\<exists>s'. ox_audit (app_ox (ov_app (run_events (overlap_step demo_api keep_rows) (idle_gateway running 1 ()) two_queries))) = Some s' \<and>
     length (as_queue s') = 1"
proof -
  have ids: "distinct (begins two_queries)" "\<not> list_ex is_gateway two_queries"
    by (simp_all add: two_queries_def begin_query_def)
  have st: "ox_audit (app_ox running) = Some new_audit_store" by (simp add: running_def demo_ox_def)
  show ?thesis
    using overlapping_calls_are_answered_once [OF refl ids(1), of demo_api keep_rows running 1 "()"] ids(2) st two_queries_run
    by (auto simp: Let_def new_audit_store_def QUEUE_MAX_def)
qed

lemma started_with_breaker:
  "case startup (av_app demo_api) id default_settings 0 () of
     (Inr app, w, d, ms) \<Rightarrow> map fst (cr_breakers (rg_cb (ox_registry (app_ox app)))) = [''pg'']
   | _ \<Rightarrow> False"
  by code_simp


end
