(* ===== verification/Upstream_Rate.thy ===== *)
theory Upstream_Rate
  imports Overlap "HOL-Library.Sublist"
begin

text \<open>
  The rate limiter inside the gateway: what \<open>Rate_Limit\<close> shows of the limiter alone holds for the calls that reach
  upstream servers. Every call that is sent has passed the limiter once, calls that are refused by authorization do not
  reach it, and answers and the network do not touch it, so an agent's calls in flight and answered together obey its
  burst and rate, however the calls of all agents overlap.
\<close>

section \<open>What a call does to the limiter\<close>

definition is_sent :: "('c, 's) begun \<Rightarrow> bool" where
  "is_sent b \<longleftrightarrow> (case b of InFlight fl \<Rightarrow> True | Ended r \<Rightarrow> False)"

definition limited ::
  "call_context \<Rightarrow> principal \<Rightarrow> rate_limiter \<Rightarrow> bool \<Rightarrow> rate_limiter option \<Rightarrow> bool" where
  \<comment> \<open>a call that has left the limiter alone, or has used it once; it goes on only if it passed\<close>
  "limited cx p rl goes_on after \<longleftrightarrow>
     (after = Some rl \<and> \<not> goes_on) \<or>
     (\<exists>tool. after = Some (snd (rate_check (cx_limiter cx) (pr_agent_id p) tool rl)) \<and>
        (goes_on \<longrightarrow> fst (rate_check (cx_limiter cx) (pr_agent_id p) tool rl) = Inr ()))"

lemma limited_stops: "limited cx p rl goes_on after \<Longrightarrow> limited cx p rl False after"
  by (auto simp: limited_def)

lemma limited_unused: "limited cx p rl False (Some rl)"
  by (simp add: limited_def)

lemma limited_used:
  "rate_check (cx_limiter cx) (pr_agent_id p) tool rl = (q, rl') \<Longrightarrow> (goes_on \<Longrightarrow> q = Inr ()) \<Longrightarrow>
   limited cx p rl goes_on (Some rl')"
  unfolding limited_def by (intro disjI2 exI [of _ tool]) simp

lemma admit_limited:
  assumes "admit env cx p tg arguments ox = (r, ox', ms)" and "ox_rate_limiter ox = Some rl"
  shows "limited cx p rl (\<not> isl r) (ox_rate_limiter ox')"
  using assms
  by (auto simp: admit_def rate_stage_def split: prod.splits sum.splits limiter_error.splits schema_failure.splits
      intro: limited_unused limited_used)

lemma complete_limiter:
  assumes "complete env cx p tg arguments args rq ms r ox w = (q, ox', w', ms', ds)"
  shows "ox_rate_limiter ox' = ox_rate_limiter ox"
  using assms
  by (auto simp: complete_def refuse_def Let_def emit_audit_def cache_store_def announce_def split: prod.splits sum.splits option.splits if_splits)

lemma ready_limited:
  assumes "prepare env cx p name arguments server_id ox w = Ready tg args rq ms ox1" and rl: "ox_rate_limiter ox = Some rl"
  shows "limited cx p rl True (ox_rate_limiter ox1)"
  using assms(1)
proof (cases rule: ready_cases)
  case (1 u oxa ms1 ms2)
  then show ?thesis using admit_limited [OF 1(3) rl] cache_lookup_frame [OF 1(5)] by simp
qed

lemma begin_limited:
  assumes "begin_call env cx p name arguments server_id ox w = (b, ox', w', ms, ds)" and rl: "ox_rate_limiter ox = Some rl"
  shows "limited cx p rl (is_sent b) (ox_rate_limiter ox')"
  using assms(1)
proof (cases rule: begin_cases)
  case (ended r)
  have "limited cx p rl False (ox_rate_limiter ox')"
  proof (cases rule: prepare_cases [of env cx p name arguments server_id ox w])
    case (refused tg rf ox1 ms1)
    then have "refuse env cx p tg arguments 0 rf ms1 ox1 w = (r, ox', w', ms, ds)" using ended(1) by simp
    from refuse_frame [OF this] show ?thesis using admit_limited [OF refused(3) rl] by simp
  next
    case (escaped tg exc ox1 ms1)
    then show ?thesis using ended(1) admit_limited [OF escaped(3) rl] by simp
  next
    case (hit tg u ox1 ms1 ms2 args rq content ox2)
    then have "ox_rate_limiter ox' = ox_rate_limiter ox1" using ended(1) cache_lookup_frame [OF hit(5)] by simp
    then show ?thesis using limited_stops [OF admit_limited [OF hit(3) rl]] by simp
  qed (use ended(1) rl in \<open>auto simp: limited_unused\<close>)
  then show ?thesis using ended(2) by (simp add: is_sent_def)
next
  case (rejected tg args rq ms1 ox1 lk exc r)
  show ?thesis
    using limited_stops [OF ready_limited [OF rejected(1) rl]] complete_limiter [OF rejected(3)] rejected(4) by (simp add: is_sent_def)
next
  case (sent tg args rq ox1 lk)
  show ?thesis using ready_limited [OF sent(1) rl] sent(3,6) by (simp add: is_sent_def)
qed

section \<open>A run of overlapping calls\<close>

fun call_readings :: "('w, 'c, 's) overlap_event list \<Rightarrow> limiter_request list" where
  \<comment> \<open>the clocks and the agents of the calls that begin\<close>
  "call_readings (Begin i cx p name arguments server_id # evs) = (cx_limiter cx, pr_agent_id p, name) # call_readings evs"
| "call_readings (ev # evs) = call_readings evs"
| "call_readings [] = []"

fun sends ::
  "('w, 'c, 's, 'k, 'd) api_env \<Rightarrow> string \<Rightarrow> ('w, 'c, 's, 'd) overlap \<Rightarrow> ('w, 'c, 's) overlap_event \<Rightarrow> bool" where
  \<comment> \<open>the event sends a call of the agent to an upstream server\<close>
  "sends av a st (Begin i cx p name arguments server_id) \<longleftrightarrow>
     pr_agent_id p = a \<and> i \<notin> set (dict_keys (ov_flights st)) \<and>
     is_sent (fst (begin_call (ae_gateway (av_app av)) cx p name arguments server_id (app_ox (ov_app st)) (ov_world st)))"
| "sends av a st _ \<longleftrightarrow> False"

fun sent_calls ::
  "('w, 'c, 's, 'k, 'd) api_env \<Rightarrow> (audit_entry list \<Rightarrow> 'd \<Rightarrow> (string + unit) \<times> 'd) \<Rightarrow> string \<Rightarrow>
   ('w, 'c, 's, 'd) overlap \<Rightarrow> ('w, 'c, 's) overlap_event list \<Rightarrow> nat" where
  \<comment> \<open>how many calls of the agent reach upstream servers in the run\<close>
  "sent_calls av commit a st [] = 0"
| "sent_calls av commit a st (ev # evs) =
     (if sends av a st ev then 1 else 0) + sent_calls av commit a (overlap_step av commit st ev) evs"

abbreviation without_tool :: "limiter_request \<Rightarrow> limiter_times \<times> string" where
  "without_tool r \<equiv> (fst r, fst (snd r))"

lemma begin_step_limiter:
  assumes "ox_rate_limiter (app_ox (ov_app st)) = Some rl"
  shows "limited cx p rl (sends av (pr_agent_id p) st (Begin i cx p name arguments server_id))
    (ox_rate_limiter (app_ox (ov_app (overlap_step av commit st (Begin i cx p name arguments server_id)))))"
proof (cases "i \<in> set (dict_keys (ov_flights st))")
  case True
  then show ?thesis using assms by (simp add: limited_unused)
next
  case False
  obtain b ox w ms ds where "begin_call (ae_gateway (av_app av)) cx p name arguments server_id (app_ox (ov_app st)) (ov_world st) =
      (b, ox, w, ms, ds)" by (rule prod_cases5)
  then show ?thesis using False begin_limited [OF _ assms] by (fastforce simp: set_ox_def Let_def split: begun.splits)
qed

lemma other_step_limiter:
  assumes "\<not> is_gateway ev" and "call_readings [ev] = []"
  shows "ox_rate_limiter (app_ox (ov_app (overlap_step av commit st ev))) = ox_rate_limiter (app_ox (ov_app st))"
  using assms
  by (cases ev) (auto simp: set_ox_def Let_def finish_call_def split: option.splits prod.splits dest!: complete_limiter)

lemma sent_calls_pass:
  assumes "\<not> list_ex is_gateway evs" and "ox_rate_limiter (app_ox (ov_app st)) = Some rl"
  shows "\<exists>rs. subseq (map without_tool rs) (map without_tool (call_readings evs)) \<and>
    sent_calls av commit a st evs \<le> agent_passed a rs rl"
  using assms
proof (induction evs arbitrary: st rl)
  case Nil
  show ?case by (intro exI [of _ "[]"]) simp
next
  case (Cons ev evs)
  let ?st = "overlap_step av commit st ev"
  show ?case
  proof (cases "\<exists>i cx p name arguments server_id. ev = Begin i cx p name arguments server_id")
    case True
    then obtain i cx p name arguments server_id where ev: "ev = Begin i cx p name arguments server_id" by blast
    have l: "limited cx p rl (sends av (pr_agent_id p) st ev) (ox_rate_limiter (app_ox (ov_app ?st)))"
      unfolding ev by (rule begin_step_limiter [OF Cons.prems(2)])
    have a: "sends av a st ev \<Longrightarrow> pr_agent_id p = a" by (simp add: ev)
    have rest: "\<not> list_ex is_gateway evs" using Cons.prems(1) by simp
    have readings: "call_readings (ev # evs) = (cx_limiter cx, pr_agent_id p, name) # call_readings evs" by (simp add: ev)
    from l show ?thesis unfolding limited_def
    proof (elim disjE exE conjE)
      assume "ox_rate_limiter (app_ox (ov_app ?st)) = Some rl" "\<not> sends av (pr_agent_id p) st ev"
      moreover from Cons.IH [OF rest this(1)] obtain rs where
        "subseq (map without_tool rs) (map without_tool (call_readings evs))" "sent_calls av commit a ?st evs \<le> agent_passed a rs rl" by blast
      ultimately show ?thesis using a readings by (intro exI [of _ rs]) auto
    next
      fix tool
      let ?check = "rate_check (cx_limiter cx) (pr_agent_id p) tool rl"
      assume "ox_rate_limiter (app_ox (ov_app ?st)) = Some (snd ?check)" "sends av (pr_agent_id p) st ev \<longrightarrow> fst ?check = Inr ()"
      moreover from Cons.IH [OF rest this(1)] obtain rs where
        "subseq (map without_tool rs) (map without_tool (call_readings evs))"
        "sent_calls av commit a ?st evs \<le> agent_passed a rs (snd ?check)" by blast
      ultimately show ?thesis using a readings by (intro exI [of _ "(cx_limiter cx, pr_agent_id p, tool) # rs"]) auto
    qed
  next
    case False
    then have c: "call_readings (ev # evs) = call_readings evs" "call_readings [ev] = []" "\<not> sends av a st ev"
      by (cases ev; simp)+
    then have "ox_rate_limiter (app_ox (ov_app ?st)) = Some rl"
      using Cons.prems other_step_limiter [OF _ c(2), of av commit st] by simp
    then show ?thesis using Cons.IH [of ?st rl] Cons.prems(1) c by simp
  qed
qed

section \<open>Some of the requests, in order\<close>

lemma clocked_earlier: "clocked now rs \<Longrightarrow> before \<le> now \<Longrightarrow> clocked before rs"
  by (cases rs) (auto simp: times_ok_def)

lemma clocked_subseq:
  "clocked now qs \<Longrightarrow> subseq (map without_tool rs) (map without_tool qs) \<Longrightarrow> clocked now rs"
proof (induction qs arbitrary: now rs)
  case (Cons q qs)
  obtain tm agent tool where q: "q = (tm, agent, tool)" by (rule prod_cases3)
  have t: "times_ok now tm (lt_tool tm)" "clocked (lt_tool tm) qs" using Cons.prems(1) q by auto
  then have "now \<le> lt_tool tm" by (auto simp: times_ok_def)
  show ?case
  proof (cases rs)
    case (Cons r rs')
    obtain tm' agent' tool' where r: "r = (tm', agent', tool')" by (rule prod_cases3)
    show ?thesis
    proof (cases "(tm', agent') = (tm, agent)")
      case True
      then have "subseq (map without_tool rs') (map without_tool qs)" using Cons.prems(2) Cons q r by simp
      then show ?thesis using Cons.IH [OF t(2)] Cons r True t(1) by simp
    next
      case False
      then have "subseq (map without_tool rs) (map without_tool qs)" using Cons.prems(2) Cons q r by auto
      then show ?thesis using Cons.IH [OF t(2)] clocked_earlier \<open>now \<le> lt_tool tm\<close> by blast
    qed
  qed simp
next
  case Nil
  then show ?case by (cases rs) auto
qed

lemma agent_times_without_tool:
  "agent_times a rs = map (\<lambda>(tm, agent). lt_agent tm) (filter (\<lambda>(tm, agent). agent = a) (map without_tool rs))"
  by (induction rs) (auto simp: agent_times_def)

lemma agent_times_subseq:
  "subseq (map without_tool rs) (map without_tool qs) \<Longrightarrow> subseq (agent_times a rs) (agent_times a qs)"
  unfolding agent_times_without_tool by (rule subseq_map, rule subseq_filter)

lemma window_of_subseq:
  assumes "subseq (t' # ts') (t # ts)" and "sorted (t # ts)"
  shows "last (t' # ts') - t' \<le> last (t # ts) - (t :: seconds)"
proof -
  have m: "set (t' # ts') \<subseteq> set (t # ts)"
  proof
    fix x assume "x \<in> set (t' # ts')"
    from list_emb_set [OF assms(1) this] show "x \<in> set (t # ts)" by blast
  qed
  then have "t \<le> t'" using assms(2) by auto
  have "x \<le> last (t # ts)" if "x \<in> set (t # ts)" for x
    using that assms(2) by (induction ts arbitrary: t) auto
  then have "last (t' # ts') \<le> last (t # ts)" using m last_in_set [of "t' # ts'"] by blast
  then show ?thesis using \<open>t \<le> t'\<close> by linarith
qed

section \<open>Properties\<close>


definition limited_gateway :: "(nat, nat, nat, unit) overlap" where
  "limited_gateway =
     idle_gateway (running\<lparr> app_ox := (app_ox running)\<lparr> ox_rate_limiter := Some (new_rate_limiter example_policy) \<rparr> \<rparr>) 1 ()"

definition three_queries :: "(nat, nat, nat) overlap_event list" where
  "three_queries = [begin_query 0 5, begin_query 1 5, begin_query 2 5, Answer 0 (Inr (JStr ''a''))]"

lemma three_queries_run: "sent_calls demo_api keep_rows ''bot'' limited_gateway three_queries = 2"
  by code_simp


end
