(* ===== verification/App_Wiring.thy ===== *)
theory App_Wiring
  imports Api
begin

text \<open>
  How the application is put together: the routes that the decorators of \<open>app/api/routes.py\<close> declare, with their
  methods, path templates, status codes and response models, the two routers, and \<open>create_app\<close> and \<open>run\<close> of
  \<open>app/main.py\<close>.

  Which route serves a request is decided by the framework: the first route, in the order the routers were included,
  whose method is the request's and whose template matches its path. \<open>matches\<close> is a parameter; what is relied on is
  \<open>matches_segments\<close>, a parameter of a template stands for one segment of the path. The lemmas tie the table to the
  endpoints of \<open>Api\<close>: every endpoint is reached under its own method and path and under no other, its answers have the
  status and the type its route declares, and only the health and the metrics are served without the key.
\<close>

section \<open>The declared routes\<close>

datatype response_model =
    HealthModel                               \<comment> \<open>\<open>HealthResponse\<close>\<close>
  | ManifestModel                             \<comment> \<open>\<open>ToolManifest\<close>\<close>
  | CallModel                                 \<comment> \<open>\<open>ToolCallResult\<close>\<close>
  | DictModel                                 \<comment> \<open>\<open>dict[str, Any]\<close>\<close>
  | PlainResponse                             \<comment> \<open>the metrics in text form\<close>
  | EventStream                               \<comment> \<open>\<open>EventSourceResponse\<close>\<close>

record route_decl =
  rd_handler :: string
  rd_method :: string
  rd_path :: string
  rd_status :: int
  rd_model :: response_model
  rd_identified :: bool                       \<comment> \<open>whether the handler depends on \<open>get_principal\<close>\<close>

definition get_route :: "string \<Rightarrow> string \<Rightarrow> response_model \<Rightarrow> route_decl" where
  "get_route handler path m =
     \<lparr> rd_handler = handler, rd_method = ''GET'', rd_path = path, rd_status = 200, rd_model = m, rd_identified = False \<rparr>"

definition post_route :: "string \<Rightarrow> string \<Rightarrow> response_model \<Rightarrow> route_decl" where
  "post_route handler path m = (get_route handler path m)\<lparr> rd_method := ''POST'' \<rparr>"

definition public_router :: "route_decl list" where
  "public_router = [get_route ''healthz'' ''/healthz'' HealthModel, get_route ''metrics'' ''/metrics'' PlainResponse]"

definition api_router :: "route_decl list" where
  "api_router =
     [get_route ''list_servers'' ''/v1/registry/servers'' DictModel,
      (post_route ''register_server'' ''/v1/registry/servers'' DictModel)\<lparr> rd_status := 201 \<rparr>,
      (get_route ''deregister_server'' ''/v1/registry/servers/{server_id}'' DictModel)\<lparr> rd_method := ''DELETE'' \<rparr>,
      post_route ''sync_server'' ''/v1/registry/servers/{server_id}/sync'' DictModel,
      post_route ''set_enabled'' ''/v1/registry/servers/{server_id}/enabled'' DictModel,
      get_route ''circuit_breaker_states'' ''/v1/registry/circuit-breakers'' DictModel,
      get_route ''tool_name_conflicts'' ''/v1/registry/conflicts'' DictModel,
      get_route ''list_tools'' ''/v1/tools'' ManifestModel,
      (post_route ''call_tool'' ''/v1/tools/call'' CallModel)\<lparr> rd_identified := True \<rparr>,
      (post_route ''call_tool_stream'' ''/v1/tools/call/stream'' EventStream)\<lparr> rd_identified := True \<rparr>,
      post_route ''hot_reload'' ''/v1/admin/reload'' DictModel,
      get_route ''query_audit'' ''/v1/audit'' DictModel]"

section \<open>The application\<close>

datatype middleware =
    CORSMiddleware "string list" "string list" "string list"      \<comment> \<open>origins, methods, headers\<close>
  | RequestContextMiddleware

record application =
  ap_title :: string
  ap_version :: string
  ap_middleware :: "middleware list"          \<comment> \<open>in the order added: the last is the outermost\<close>
  ap_routers :: "(bool \<times> route_decl list) list"  \<comment> \<open>whether the router asks for the API key, and its routes\<close>

definition create_app :: application where
  "create_app =
     \<lparr> ap_title = ''MCP Gateway'', ap_version = ''0.2.0'',
       ap_middleware = [CORSMiddleware [''*''] [''*''] [''*''], RequestContextMiddleware],
       ap_routers = [(False, public_router), (True, api_router)] \<rparr>"

record uvicorn_options =
  uv_app :: string
  uv_host :: string
  uv_port :: int
  uv_proxy_headers :: bool
  uv_forwarded_allow_ips :: string

definition run_server :: "settings \<Rightarrow> uvicorn_options" where
  \<comment> \<open>\<open>run\<close>: what uvicorn is started with\<close>
  "run_server st =
     \<lparr> uv_app = ''app.main:app'', uv_host = st_host st, uv_port = st_port st, uv_proxy_headers = True,
       uv_forwarded_allow_ips = ''*'' \<rparr>"

definition routes_of :: "application \<Rightarrow> (bool \<times> route_decl) list" where
  \<comment> \<open>all routes in the order of their inclusion, with the dependency of their router\<close>
  "routes_of app = concat (map (\<lambda>(keyed, rds). map (Pair keyed) rds) (ap_routers app))"

definition dispatch ::
  "(string \<Rightarrow> string \<Rightarrow> bool) \<Rightarrow> application \<Rightarrow> string \<Rightarrow> string \<Rightarrow> (bool \<times> route_decl) option" where
  "dispatch matches app http_method path =
     find (\<lambda>(keyed, rd). rd_method rd = http_method \<and> matches (rd_path rd) path) (routes_of app)"

section \<open>Paths\<close>

fun segments :: "string \<Rightarrow> string list" where
  \<comment> \<open>\<open>path.split("/")\<close>\<close>
  "segments [] = [[]]"
| "segments (c # cs) =
     (if c = CHR ''/'' then [] # segments cs
      else case segments cs of [] \<Rightarrow> [[c]] | s # ss \<Rightarrow> (c # s) # ss)"

definition is_parameter :: "string \<Rightarrow> bool" where
  "is_parameter s \<longleftrightarrow> s \<noteq> [] \<and> hd s = CHR ''{''"

definition segment_matches :: "string \<Rightarrow> string \<Rightarrow> bool" where
  "segment_matches s q \<longleftrightarrow> (if is_parameter s then q \<noteq> [] else s = q)"

definition matches_segments :: "(string \<Rightarrow> string \<Rightarrow> bool) \<Rightarrow> bool" where
  \<comment> \<open>what the framework documents of templates with parameters of the default kind\<close>
  "matches_segments matches \<longleftrightarrow>
     (\<forall>template path. matches template path \<longleftrightarrow> list_all2 segment_matches (segments template) (segments path))"

text \<open>The method and the path under which a client asks for an endpoint.\<close>

fun endpoint_method :: "endpoint \<Rightarrow> string" where
  "endpoint_method (RegisterServer server) = ''POST''"
| "endpoint_method (DeregisterServer sid) = ''DELETE''"
| "endpoint_method (SyncServer sid) = ''POST''"
| "endpoint_method (EnableServer sid enabled) = ''POST''"
| "endpoint_method (CallToolOnce payload) = ''POST''"
| "endpoint_method ReloadConfig = ''POST''"
| "endpoint_method _ = ''GET''"

fun endpoint_path :: "endpoint \<Rightarrow> string" where
  "endpoint_path Healthz = ''/healthz''"
| "endpoint_path ListServers = ''/v1/registry/servers''"
| "endpoint_path (RegisterServer server) = ''/v1/registry/servers''"
| "endpoint_path (DeregisterServer sid) = ''/v1/registry/servers/'' @ sid"
| "endpoint_path (SyncServer sid) = ''/v1/registry/servers/'' @ sid @ ''/sync''"
| "endpoint_path (EnableServer sid enabled) = ''/v1/registry/servers/'' @ sid @ ''/enabled''"
| "endpoint_path CircuitBreakers = ''/v1/registry/circuit-breakers''"
| "endpoint_path Conflicts = ''/v1/registry/conflicts''"
| "endpoint_path (ListTools tag) = ''/v1/tools''"
| "endpoint_path (CallToolOnce payload) = ''/v1/tools/call''"
| "endpoint_path ReloadConfig = ''/v1/admin/reload''"
| "endpoint_path (QueryAudit agent server tool status limit offset) = ''/v1/audit''"

fun endpoint_handler :: "endpoint \<Rightarrow> string" where
  "endpoint_handler Healthz = ''healthz''"
| "endpoint_handler ListServers = ''list_servers''"
| "endpoint_handler (RegisterServer server) = ''register_server''"
| "endpoint_handler (DeregisterServer sid) = ''deregister_server''"
| "endpoint_handler (SyncServer sid) = ''sync_server''"
| "endpoint_handler (EnableServer sid enabled) = ''set_enabled''"
| "endpoint_handler CircuitBreakers = ''circuit_breaker_states''"
| "endpoint_handler Conflicts = ''tool_name_conflicts''"
| "endpoint_handler (ListTools tag) = ''list_tools''"
| "endpoint_handler (CallToolOnce payload) = ''call_tool''"
| "endpoint_handler ReloadConfig = ''hot_reload''"
| "endpoint_handler (QueryAudit agent server tool status limit offset) = ''query_audit''"

definition path_segment :: "string \<Rightarrow> bool" where
  "path_segment s \<longleftrightarrow> s \<noteq> [] \<and> CHR ''/'' \<notin> set s"

fun path_arguments :: "endpoint \<Rightarrow> string list" where
  "path_arguments (DeregisterServer sid) = [sid]"
| "path_arguments (SyncServer sid) = [sid]"
| "path_arguments (EnableServer sid enabled) = [sid]"
| "path_arguments _ = []"

definition declared :: "endpoint \<Rightarrow> bool \<times> route_decl" where
  "declared ep = the (find (\<lambda>(keyed, rd). rd_handler rd = endpoint_handler ep) (routes_of create_app))"

fun has_model :: "response_model \<Rightarrow> api_body \<Rightarrow> bool" where
  "has_model HealthModel (HealthBody h) \<longleftrightarrow>
     hs_status h \<in> {''ok'', ''degraded'', ''down''} \<and> snd ` set (hs_upstreams h) \<subseteq> {''healthy'', ''unhealthy''}"
| "has_model ManifestModel (ManifestBody m) \<longleftrightarrow> True"
| "has_model CallModel (CallBody res) \<longleftrightarrow> True"
| "has_model DictModel (JsonBody d) \<longleftrightarrow> True"
| "has_model _ _ \<longleftrightarrow> False"

lemmas route_tables = routes_of_def create_app_def public_router_def api_router_def get_route_def post_route_def

lemma declared_eq [simp]:
  "declared Healthz = (False, get_route ''healthz'' ''/healthz'' HealthModel)"
  "declared ListServers = (True, get_route ''list_servers'' ''/v1/registry/servers'' DictModel)"
  "declared (RegisterServer server) =
     (True, (post_route ''register_server'' ''/v1/registry/servers'' DictModel)\<lparr> rd_status := 201 \<rparr>)"
  "declared (DeregisterServer sid) =
     (True, (get_route ''deregister_server'' ''/v1/registry/servers/{server_id}'' DictModel)\<lparr> rd_method := ''DELETE'' \<rparr>)"
  "declared (SyncServer sid) = (True, post_route ''sync_server'' ''/v1/registry/servers/{server_id}/sync'' DictModel)"
  "declared (EnableServer sid enabled) = (True, post_route ''set_enabled'' ''/v1/registry/servers/{server_id}/enabled'' DictModel)"
  "declared CircuitBreakers = (True, get_route ''circuit_breaker_states'' ''/v1/registry/circuit-breakers'' DictModel)"
  "declared Conflicts = (True, get_route ''tool_name_conflicts'' ''/v1/registry/conflicts'' DictModel)"
  "declared (ListTools tag) = (True, get_route ''list_tools'' ''/v1/tools'' ManifestModel)"
  "declared (CallToolOnce payload) =
     (True, (post_route ''call_tool'' ''/v1/tools/call'' CallModel)\<lparr> rd_identified := True \<rparr>)"
  "declared ReloadConfig = (True, post_route ''hot_reload'' ''/v1/admin/reload'' DictModel)"
  "declared (QueryAudit agent_id server_id tool_name status limit offset) = (True, get_route ''query_audit'' ''/v1/audit'' DictModel)"
  by (simp_all add: declared_def route_tables)

lemma declared_route: "declared ep \<in> set (routes_of create_app)"
  by (cases ep) (simp_all add: routes_of_def create_app_def public_router_def api_router_def)

lemma declared_facts:
  "rd_status (snd (declared ep)) = success_status ep" "fst (declared ep) \<longleftrightarrow> \<not> is_public ep"
  by (cases ep; simp add: get_route_def post_route_def success_status_def is_public_def)+

section \<open>Which route serves a request\<close>

lemma segments_not_Nil [simp]: "segments s \<noteq> []"
  by (cases s) (auto split: list.splits)

lemma segments_append: "segments (s @ CHR ''/'' # t) = segments s @ segments t"
  by (induction s) (auto split: list.splits)

lemma segments_segment: "CHR ''/'' \<notin> set s \<Longrightarrow> segments s = [s]"
  by (induction s) auto

lemma route_segments:
  "map (\<lambda>(keyed, rd). (rd_method rd, segments (rd_path rd))) (routes_of create_app) =
   [(''GET'', [[], ''healthz'']), (''GET'', [[], ''metrics'']),
    (''GET'', [[], ''v1'', ''registry'', ''servers'']), (''POST'', [[], ''v1'', ''registry'', ''servers'']),
    (''DELETE'', [[], ''v1'', ''registry'', ''servers'', ''{server_id}'']),
    (''POST'', [[], ''v1'', ''registry'', ''servers'', ''{server_id}'', ''sync'']),
    (''POST'', [[], ''v1'', ''registry'', ''servers'', ''{server_id}'', ''enabled'']),
    (''GET'', [[], ''v1'', ''registry'', ''circuit-breakers'']), (''GET'', [[], ''v1'', ''registry'', ''conflicts'']),
    (''GET'', [[], ''v1'', ''tools'']), (''POST'', [[], ''v1'', ''tools'', ''call'']),
    (''POST'', [[], ''v1'', ''tools'', ''call'', ''stream'']), (''POST'', [[], ''v1'', ''admin'', ''reload'']),
    (''GET'', [[], ''v1'', ''audit''])]"
  by (simp add: route_tables)

definition apart :: "string \<times> string list \<Rightarrow> string \<times> string list \<Rightarrow> bool" where
  "apart r q \<longleftrightarrow> fst r \<noteq> fst q \<or> \<not> list_all2 (\<lambda>s t. is_parameter s \<or> is_parameter t \<or> s = t) (snd r) (snd q)"

lemma both_match_not_apart:
  assumes "list_all2 segment_matches p path" and "list_all2 segment_matches q path"
  shows "\<not> apart (m, p) (m, q)"
proof -
  have "list_all2 (\<lambda>s t. is_parameter s \<or> is_parameter t \<or> s = t) p q"
    using assms by (fastforce simp: list_all2_conv_all_nth segment_matches_def split: if_splits)
  then show ?thesis by (simp add: apart_def)
qed

lemma routes_apart:
  "sorted_wrt apart (map (\<lambda>(keyed, rd). (rd_method rd, segments (rd_path rd))) (routes_of create_app))"
  unfolding route_segments by (simp add: apart_def is_parameter_def)

lemma declared_matches:
  assumes "\<forall>s \<in> set (path_arguments ep). path_segment s"
  shows "list_all2 segment_matches (segments (rd_path (snd (declared ep)))) (segments (endpoint_path ep)) \<and>
    rd_method (snd (declared ep)) = endpoint_method ep"
  using assms
  by (cases ep) (simp_all add: get_route_def post_route_def segment_matches_def is_parameter_def path_segment_def
      segments_append segments_segment)

lemma never_related:
  assumes "sorted_wrt Q xs" and "\<And>x y. x \<in> set xs \<Longrightarrow> y \<in> set xs \<Longrightarrow> \<not> Q x y"
  shows "length xs \<le> 1"
proof (cases xs)
  case (Cons x ys)
  then show ?thesis using assms by (cases ys) auto
qed simp

lemma at_most_one_matches:
  assumes "\<And>x. x \<in> set (routes_of create_app) \<Longrightarrow> P x \<Longrightarrow>
      rd_method (snd x) = m \<and> list_all2 segment_matches (segments (rd_path (snd x))) path"
  shows "length (filter P (routes_of create_app)) \<le> 1"
proof -
  have "sorted_wrt (\<lambda>x y. apart (rd_method (snd x), segments (rd_path (snd x))) (rd_method (snd y), segments (rd_path (snd y))))
      (filter P (routes_of create_app))"
    using routes_apart by (intro sorted_wrt_filter) (simp add: sorted_wrt_map case_prod_beta)
  moreover have "\<not> apart (rd_method (snd x), segments (rd_path (snd x))) (rd_method (snd y), segments (rd_path (snd y)))"
    if "x \<in> set (filter P (routes_of create_app))" "y \<in> set (filter P (routes_of create_app))" for x y
    using assms [of x] assms [of y] that both_match_not_apart by auto
  ultimately show ?thesis by (rule never_related)
qed

lemma find_only:
  "x \<in> set xs \<Longrightarrow> P x \<Longrightarrow> length (filter P xs) \<le> 1 \<Longrightarrow> find P xs = Some x"
proof (induction xs)
  case (Cons y ys)
  then show ?case by (cases "P y") (auto simp: filter_empty_conv)
qed simp

section \<open>What the routes answer\<close>

lemma healthz_values:
  fixes rg :: "('a, 'b) server_registry"
  shows "hs_status (healthz rg) \<in> {''ok'', ''degraded'', ''down''} \<and> snd ` set (hs_upstreams (healthz rg)) \<subseteq> {''healthy'', ''unhealthy''}"
proof -
  have v: "snd ` set (fold (\<lambda>(sid, e) d. dict_put (us_id (re_server e)) (if re_healthy e then ''healthy'' else ''unhealthy'') d) es d)
      \<subseteq> {''healthy'', ''unhealthy''}" if "snd ` set d \<subseteq> {''healthy'', ''unhealthy''}"
    for es :: "(string, ('a, 'b) registry_entry) dict" and d
    using that
  proof (induction es arbitrary: d)
    case (Cons p es)
    have "snd ` set (dict_put k v d) \<subseteq> {''healthy'', ''unhealthy''}" if "v \<in> {''healthy'', ''unhealthy''}" for k v
      using Cons.prems that dict_values_put by fastforce
    then show ?case using Cons.IH by (cases p) simp
  qed simp
  show ?thesis using v [of "[]" "rg_entries rg"] by (simp add: healthz_def Let_def)
qed

lemma route_types:
  assumes "route av qe req d ep app w = (r, app', w', ms, ds)" and "\<nexists>payload. ep = CallToolOnce payload"
  shows "case r of Inr body \<Rightarrow> has_model (rd_model (snd (declared ep))) body
     | Inl (HTTPException code detail) \<Rightarrow> code = 404
     | Inl (Unhandled x) \<Rightarrow> ep = ReloadConfig"
proof (cases ep)
  case Healthz
  then show ?thesis using assms(1) healthz_values [of "ox_registry (app_ox app)"] by (auto simp: get_route_def)
next
  case (CallToolOnce payload)
  then show ?thesis using assms(2) by simp
qed (use assms(1) in \<open>auto simp: get_route_def post_route_def apfst_def map_prod_def register_route_def deregister_route_def sync_route_def
      set_enabled_route_def list_tools_route_def reload_route_def Let_def split: prod.splits sum.splits option.splits if_splits\<close>)

section \<open>Properties\<close>

text \<open>C27. No two routes of the application can serve one request, and the request a client makes for an endpoint is served
  by the route declared for it, whichever routes come before it; every one of these endpoints but the health check
  is behind the API key.\<close>

theorem requests_reach_their_route:
  assumes "matches_segments matches"
  shows "(\<forall>http_method path. length (filter (\<lambda>(keyed, rd). rd_method rd = http_method \<and> matches (rd_path rd) path)
        (routes_of create_app)) \<le> 1) \<and>
    ((\<forall>s \<in> set (path_arguments ep). path_segment s) \<longrightarrow>
      dispatch matches create_app (endpoint_method ep) (endpoint_path ep) = Some (declared ep) \<and>
      (fst (declared ep) \<longleftrightarrow> ep \<noteq> Healthz))"
proof (intro conjI impI allI)
  have m: "matches (rd_path rd) path \<longleftrightarrow> list_all2 segment_matches (segments (rd_path rd)) (segments path)" for rd path
    using assms by (simp add: matches_segments_def)
  show one: "length (filter (\<lambda>(keyed, rd). rd_method rd = http_method \<and> matches (rd_path rd) path) (routes_of create_app)) \<le> 1"
    for http_method path
    by (rule at_most_one_matches [where m = http_method and path = "segments path"]) (auto simp: m)
  assume "\<forall>s \<in> set (path_arguments ep). path_segment s"
  from declared_matches [OF this] have d: "rd_method (snd (declared ep)) = endpoint_method ep"
      "matches (rd_path (snd (declared ep))) (endpoint_path ep)" by (simp_all add: m)
  then show "dispatch matches create_app (endpoint_method ep) (endpoint_path ep) = Some (declared ep)"
    unfolding dispatch_def using declared_route [of ep] one [of "endpoint_method ep" "endpoint_path ep"]
    by (intro find_only) (auto simp: case_prod_beta)
  show "fst (declared ep) \<longleftrightarrow> ep \<noteq> Healthz" by (simp add: declared_facts is_public_def)
qed

theorem requests_reach_their_route_witness:
  "dispatch (\<lambda>template path. list_all2 segment_matches (segments template) (segments path)) create_app
     ''POST'' ''/v1/registry/servers/pg/sync'' = Some (declared (SyncServer ''pg''))"
  using requests_reach_their_route [of "\<lambda>template path. list_all2 segment_matches (segments template) (segments path)" "SyncServer ''pg''"]
  by (simp add: matches_segments_def path_segment_def)


end
