(* ===== verification/Logging.thy ===== *)
theory Logging
  imports Api
begin

text \<open>
  \<open>app/observability/logging.py\<close>: the two context variables of a request and the processor that adds them to
  every line logged while it is served, and \<open>configure_logging\<close>, which puts that processor into the chain.
  \<open>RequestContextMiddleware\<close> sets the variables. What the other processors of the chain do to a line is
  \<open>structlog\<close>'s and a parameter.
\<close>

record log_context =
  lc_request_id :: "string option"
  lc_agent_id :: "string option"

definition setdefault :: "string \<Rightarrow> json \<Rightarrow> jdict \<Rightarrow> jdict" where
  \<comment> \<open>\<open>d.setdefault(k, v)\<close>\<close>
  "setdefault k v d = (case dict_get d k of None \<Rightarrow> dict_put k v d | Some _ \<Rightarrow> d)"

definition inject_context :: "log_context \<Rightarrow> jdict \<Rightarrow> jdict" where
  "inject_context lc event_dict =
     (let d = (if truthy_opt (lc_request_id lc) then setdefault ''request_id'' (JStr (the (lc_request_id lc))) event_dict
               else event_dict)
      in if truthy_opt (lc_agent_id lc) then setdefault ''agent_id'' (JStr (the (lc_agent_id lc))) d else d)"

definition request_log_context :: "request_env \<Rightarrow> http_request \<Rightarrow> log_context" where
  \<comment> \<open>what the middleware sets; the agent is the one the header claims, before it is identified\<close>
  "request_log_context qe req =
     \<lparr> lc_request_id = Some (str_or (get_header req ''X-Request-Id'') (qe_uuid qe)),
       lc_agent_id = get_header req ''X-Agent-Id'' \<rparr>"

lemma setdefault_get: "dict_get (setdefault k v d) j = (if j = k \<and> dict_get d k = None then Some v else dict_get d j)"
  by (simp add: setdefault_def dict.get_put split: option.splits)

lemma inject_context_keeps: "dict_get d k = Some v \<Longrightarrow> dict_get (inject_context lc d) k = Some v"
  by (auto simp: inject_context_def Let_def setdefault_get)

text \<open>A line logged while a request is served carries the id its response carries, unless the line brings an id of
  its own; the fields of the line itself are kept.\<close>

theorem log_lines_name_the_request:
  assumes "serve_request av qe req d ep app w = (Inr rs, app', w', ms, ds)" and "qe_uuid qe \<noteq> []"
  shows "dict_get (inject_context (request_log_context qe req) line) ''request_id'' =
      (case dict_get line ''request_id'' of None \<Rightarrow> Some (JStr (rs_request_id rs)) | Some v \<Rightarrow> Some v)"
proof -
  have id: "rs_request_id rs = str_or (get_header req ''X-Request-Id'') (qe_uuid qe)"
    using assms(1) by (auto simp: serve_request_def Let_def split: prod.splits sum.splits api_exc.splits)
  then have "rs_request_id rs \<noteq> []"
    using assms(2) by (cases "get_header req ''X-Request-Id''") (auto split: if_splits)
  then show ?thesis
    using id by (cases "rs_request_id rs")
      (simp_all add: inject_context_def request_log_context_def Let_def setdefault_get split: option.splits)
qed

section \<open>The chain of processors\<close>

datatype log_processor =
    MergeContextvars
  | AddLogLevel
  | TimeStamper
  | InjectContext
  | StackInfoRenderer
  | FormatExcInfo
  | JSONRenderer
  | ConsoleRenderer

record log_setup =
  lg_level :: int
  lg_processors :: "log_processor list"

definition upper :: "string \<Rightarrow> string" where
  \<comment> \<open>\<open>str.upper\<close> on ASCII\<close>
  "upper s = map (\<lambda>c. if CHR ''a'' \<le> c \<and> c \<le> CHR ''z'' then char_of (of_char c - 32 :: nat) else c) s"

definition logging_level :: "string \<Rightarrow> int" where
  \<comment> \<open>\<open>getattr(logging, name, logging.INFO)\<close> for the names of levels and names the module does not have\<close>
  "logging_level name =
     (case dict_get [(''NOTSET'', 0), (''DEBUG'', 10), (''INFO'', 20), (''WARN'', 30), (''WARNING'', 30), (''ERROR'', 40),
                     (''CRITICAL'', 50), (''FATAL'', 50)] name of
        None \<Rightarrow> 20 | Some n \<Rightarrow> n)"

definition configure_logging :: "string \<Rightarrow> bool \<Rightarrow> log_setup" where
  "configure_logging level json_logs =
     \<lparr> lg_level = logging_level (upper level),
       lg_processors =
         [MergeContextvars, AddLogLevel, TimeStamper, InjectContext, StackInfoRenderer, FormatExcInfo] @
         (if json_logs then [JSONRenderer] else [ConsoleRenderer]) \<rparr>"

definition apply_processor :: "(log_processor \<Rightarrow> jdict \<Rightarrow> jdict) \<Rightarrow> log_context \<Rightarrow> log_processor \<Rightarrow> jdict \<Rightarrow> jdict" where
  "apply_processor structlog lc p = (if p = InjectContext then inject_context lc else structlog p)"

definition rendered_fields :: "(log_processor \<Rightarrow> jdict \<Rightarrow> jdict) \<Rightarrow> log_context \<Rightarrow> log_setup \<Rightarrow> jdict \<Rightarrow> jdict" where
  \<comment> \<open>the fields of a line as the renderer, the last of the chain, gets them\<close>
  "rendered_fields structlog lc setup event = fold (apply_processor structlog lc) (butlast (lg_processors setup)) event"

text \<open>Whatever the format, every line logged while a request is served reaches the renderer with the id its response
  carries, when neither the line nor a processor of the library sets a field of that name.\<close>

theorem rendered_lines_name_the_request:
  assumes "serve_request av qe req d ep app w = (Inr rs, app', w', ms, ds)" and "qe_uuid qe \<noteq> []"
    and "dict_get line ''request_id'' = None"
    and "\<And>p event. dict_get (structlog p event) ''request_id'' = dict_get event ''request_id''"
  shows "dict_get (rendered_fields structlog (request_log_context qe req) (configure_logging level json_logs) line) ''request_id'' =
    Some (JStr (rs_request_id rs))"
proof -
  have i: "dict_get (inject_context (request_log_context qe req) event) ''request_id'' = Some (JStr (rs_request_id rs))"
    if "dict_get event ''request_id'' = None" for event
    using log_lines_name_the_request [OF assms(1,2)] that by simp
  show ?thesis using assms(3,4) i
    by (cases json_logs) (simp_all add: rendered_fields_def configure_logging_def apply_processor_def)
qed

end
