(* ===== verification/Tasks.thy ===== *)
theory Tasks
  imports Overlap
begin

text \<open>
  Reloads, registrations, removals and synchronisations that overlap with calls and with one another. Each is a
  task that gives up the event loop wherever it waits: a reload closes the sessions of servers, registers servers and
  waits for their tools, swaps the policies, closes the old webhook client and commits the configuration. A task is
  what is left of its code, a list of actions, and a listing it may be waiting for; an action runs without a pause.
  The machine interleaves the actions of all tasks, the answers of the servers and the events of \<open>Overlap\<close>.

  An entry that an action removes or replaces while a task waits for its tools is an orphan, as in \<open>Registry_Turns\<close>.

  The lemmas show that a task on its own does what the operation does, that every interleaving keeps the gateway well
  formed, and what the calls and synchronisations that come in between can see of a reload.
\<close>

section \<open>Actions\<close>

datatype task_action =
    Drop string                               \<comment> \<open>\<open>await registry.deregister(sid)\<close>\<close>
  | Enter upstream_server                     \<comment> \<open>\<open>await registry.register(server, sync=True)\<close>\<close>
  | Sync string                               \<comment> \<open>\<open>await registry.sync_one(sid)\<close>\<close>
  | Replace upstream_server                   \<comment> \<open>\<open>entry.server = server\<close>\<close>
  | Policies gateway_config                   \<comment> \<open>up to the closing of the old webhook client\<close>
  | Commit gateway_config reload_result       \<comment> \<open>the rest of \<open>_do_reload\<close>\<close>

definition server_plan :: "upstream_server list \<Rightarrow> upstream_server \<Rightarrow> task_action list" where
  \<comment> \<open>one turn of the loop over the new servers\<close>
  "server_plan olds server =
     (case find (\<lambda>s. us_id s = us_id server) olds of
        None \<Rightarrow> [Enter server]
      | Some old \<Rightarrow>
          if us_base_url old \<noteq> us_base_url server \<or> us_transport old \<noteq> us_transport server
          then [Drop (us_id server), Enter server] else [Replace server])"

definition reload_plan :: "(string set \<Rightarrow> string list) \<Rightarrow> upstream_server list \<Rightarrow> gateway_config \<Rightarrow> task_action list" where
  \<comment> \<open>\<open>_do_reload\<close> after the new configuration has been read; the differences are taken once, here\<close>
  "reload_plan iter olds cfg =
     (let old_ids = set (map us_id olds);
          new_ids = set (map us_id (gc_upstreams cfg))
      in map Drop (iter (old_ids - new_ids)) @ concat (map (server_plan olds) (gc_upstreams cfg)) @
         [Policies cfg,
          Commit cfg \<lparr> rr_reloaded_at = [], rr_added = iter (new_ids - old_ids), rr_removed = iter (old_ids - new_ids),
                       rr_updated = iter (old_ids \<inter> new_ids) \<rparr>])"

datatype task_request =
    Reload
  | Registration upstream_server
  | Removal string
  | Synchronisation string

fun plan_of ::
  "('w, 'c, 's) app_env \<Rightarrow> task_request \<Rightarrow> ('c, 's) app_state \<Rightarrow> 'w \<Rightarrow> config_failure + task_action list" where
  "plan_of ae Reload app w =
     (case load_config ae (app_settings app) w of
        Inl e \<Rightarrow> Inl (LoadFailed e)
      | Inr cfg \<Rightarrow> Inr (reload_plan (ae_iter ae) (gc_upstreams (app_config app)) cfg))"
| "plan_of ae (Registration server) app w = Inr [Enter server]"
| "plan_of ae (Removal sid) app w = Inr [Drop sid]"
| "plan_of ae (Synchronisation sid) app w = Inr [Sync sid]"

datatype acted =
    GoesOn
  | Waits string                              \<comment> \<open>for the tools of the server\<close>
  | Fails config_failure
  | Completes reload_result

definition begin_listing ::
  "('w, 'c, 's) outside \<Rightarrow> string \<Rightarrow> ('c, 's) server_registry \<Rightarrow> 'w \<Rightarrow> acted \<times> ('c, 's) server_registry" where
  \<comment> \<open>\<open>sync_one\<close> up to where it waits, or to its end\<close>
  "begin_listing os sid rg w =
     (case begin_sync os sid rg w of
        (NotSynced, rg') \<Rightarrow> (GoesOn, rg')
      | (GateRefused exc, rg') \<Rightarrow> (GoesOn, snd (finish_sync os sid None (Inl exc) w rg'))
      | (Listing, rg') \<Rightarrow> (Waits sid, rg'))"

definition install_policies ::
  "('w, 'c, 's) app_env \<Rightarrow> gateway_config \<Rightarrow> ('c, 's) app_state \<Rightarrow> acted \<times> ('c, 's) app_state" where
  "install_policies ae cfg app =
     (let ox1 = (app_ox app)\<lparr> ox_authorizer := new_authorizer (gc_auth cfg),
                              ox_redactor := new_redactor (ae_analyzer ae) (gc_redaction cfg) \<rparr>
      in case new_safety_filter (ae_compile ae) (gc_guardrails cfg) of
           Inl e \<Rightarrow> (Fails (FilterFailed e), app\<lparr> app_ox := ox1 \<rparr>)
         | Inr safety \<Rightarrow>
             (GoesOn, app\<lparr> app_ox := ox1\<lparr> ox_safety := safety, ox_schema := Some (gc_schema_validation cfg),
                ox_rate_limiter := Some (new_rate_limiter (gc_rate_limiting cfg)),
                ox_cache := Some (invalidate_manifest (new_tool_cache (gc_cache cfg))) \<rparr> \<rparr>))"

fun act :: "('w, 'c, 's) app_env \<Rightarrow> task_action \<Rightarrow> ('c, 's) app_state \<Rightarrow> 'w \<Rightarrow> acted \<times> ('c, 's) app_state \<times> 'w" where
  "act ae (Drop sid) app w =
     (let (b, rg, w', ms) = deregister (ae_outside ae) sid (ox_registry (app_ox app)) w in (GoesOn, set_registry rg app, w'))"
| "act ae (Enter server) app w =
     (let (rg, w') = register_entry (ae_outside ae) server (ox_registry (app_ox app)) w;
          (a, rg') = (if us_enabled server then begin_listing (ae_outside ae) (us_id server) rg w' else (GoesOn, rg))
      in (a, set_registry rg' app, w'))"
| "act ae (Sync sid) app w =
     (let (a, rg) = begin_listing (ae_outside ae) sid (ox_registry (app_ox app)) w in (a, set_registry rg app, w))"
| "act ae (Replace server) app w =
     (case dict_get (rg_entries (ox_registry (app_ox app))) (us_id server) of
        None \<Rightarrow> (GoesOn, app, w)
      | Some entry \<Rightarrow>
          (GoesOn, set_registry (put_entry (us_id server) (entry\<lparr> re_server := server \<rparr>) (ox_registry (app_ox app))) app, w))"
| "act ae (Policies cfg) app w = (let (a, app') = install_policies ae cfg app in (a, app', w))"
| "act ae (Commit cfg res) app w =
     (let ox = (app_ox app)\<lparr> ox_webhooks := Some (new_dispatcher (gc_webhooks cfg)) \<rparr>
      in (Completes (res\<lparr> rr_reloaded_at := ae_isoformat ae w \<rparr>),
          app\<lparr> app_ox := ox, app_config := cfg, app_authorizer := ox_authorizer ox \<rparr>, w))"

section \<open>The gateway with tasks\<close>

record ('c, 's) task =
  tk_todo :: "task_action list"
  tk_sync :: "('c, 's) pending_sync option"          \<comment> \<open>the listing it waits for\<close>

record ('w, 'c, 's, 'd) tasks =
  ts_gateway :: "('w, 'c, 's, 'd) overlap"
  ts_tasks :: "(nat, ('c, 's) task) dict"
  ts_ended :: "(nat \<times> (config_failure + reload_result)) list"   \<comment> \<open>the reloads that have ended, latest first\<close>

datatype ('w, 'c, 's) task_event =
    Calls "('w, 'c, 's) overlap_event"
  | Started nat task_request
  | Stepped nat
  | Listed nat "upstream_error + raw_tool list"

fun removes :: "task_action \<Rightarrow> string \<Rightarrow> bool" where
  \<comment> \<open>the entry under the id is not the same object afterwards\<close>
  "removes (Drop sid') sid \<longleftrightarrow> sid' = sid"
| "removes (Enter server) sid \<longleftrightarrow> us_id server = sid"
| "removes _ sid \<longleftrightarrow> False"

definition orphan_task :: "task_action \<Rightarrow> ('c, 's) server_registry \<Rightarrow> ('c, 's) task \<Rightarrow> ('c, 's) task" where
  "orphan_task a rg tk =
     tk\<lparr> tk_sync := map_option (\<lambda>py. if py_orphan py = None \<and> removes a (py_sid py)
            then py\<lparr> py_orphan := dict_get (rg_entries rg) (py_sid py) \<rparr> else py) (tk_sync tk) \<rparr>"

fun as_tasks :: "('w, 'c, 's) overlap_event \<Rightarrow> bool" where
  \<comment> \<open>operations that remove or replace entries, which are tasks here\<close>
  "as_tasks (Gateway (Request qe req ep)) \<longleftrightarrow>
     (case ep of RegisterServer _ \<Rightarrow> True | DeregisterServer _ \<Rightarrow> True | ReloadConfig \<Rightarrow> True | _ \<Rightarrow> False)"
| "as_tasks (Gateway Hangup) \<longleftrightarrow> True"
| "as_tasks _ \<longleftrightarrow> False"

definition set_app :: "('c, 's) app_state \<Rightarrow> 'w \<Rightarrow> ('w, 'c, 's, 'd) tasks \<Rightarrow> ('w, 'c, 's, 'd) tasks" where
  "set_app app w st = st\<lparr> ts_gateway := (ts_gateway st)\<lparr> ov_app := app, ov_world := w \<rparr> \<rparr>"

definition perform ::
  "('w, 'c, 's) app_env \<Rightarrow> nat \<Rightarrow> task_action \<Rightarrow> task_action list \<Rightarrow> ('w, 'c, 's, 'd) tasks \<Rightarrow> ('w, 'c, 's, 'd) tasks" where
  \<comment> \<open>one action of a task, with what it leaves of the task\<close>
  "perform ae n a todo st =
     (let g = ts_gateway st;
          (r, app, w) = act ae a (ov_app g) (ov_world g);
          others = map (\<lambda>(m, tk). (m, orphan_task a (ox_registry (app_ox (ov_app g))) tk)) (ts_tasks st);
          st' = set_app app w st
      in case r of
           GoesOn \<Rightarrow> st'\<lparr> ts_tasks := dict_put n \<lparr> tk_todo = todo, tk_sync = None \<rparr> others \<rparr>
         | Waits sid \<Rightarrow>
             st'\<lparr> ts_tasks := dict_put n \<lparr> tk_todo = todo,
                   tk_sync = Some \<lparr> py_sid = sid, py_listing = None, py_orphan = None \<rparr> \<rparr> others \<rparr>
         | Fails e \<Rightarrow> st'\<lparr> ts_tasks := dict_del n others, ts_ended := (n, Inl e) # ts_ended st \<rparr>
         | Completes res \<Rightarrow> st'\<lparr> ts_tasks := dict_del n others, ts_ended := (n, Inr res) # ts_ended st \<rparr>)"

fun task_step ::
  "('w, 'c, 's, 'k, 'd) api_env \<Rightarrow> (audit_entry list \<Rightarrow> 'd \<Rightarrow> (string + unit) \<times> 'd) \<Rightarrow>
   ('w, 'c, 's, 'd) tasks \<Rightarrow> ('w, 'c, 's) task_event \<Rightarrow> ('w, 'c, 's, 'd) tasks" where
  "task_step av commit st (Calls ev) =
     (if as_tasks ev then st else st\<lparr> ts_gateway := overlap_step av commit (ts_gateway st) ev \<rparr>)"
| "task_step av commit st (Started n rq) =
     (if n \<in> set (dict_keys (ts_tasks st)) then st
      else case plan_of (av_app av) rq (ov_app (ts_gateway st)) (ov_world (ts_gateway st)) of
             Inl e \<Rightarrow> st\<lparr> ts_ended := (n, Inl e) # ts_ended st \<rparr>
           | Inr todo \<Rightarrow> st\<lparr> ts_tasks := dict_put n \<lparr> tk_todo = todo, tk_sync = None \<rparr> (ts_tasks st) \<rparr>)"
| "task_step av commit st (Stepped n) =
     (case dict_get (ts_tasks st) n of
        None \<Rightarrow> st
      | Some tk \<Rightarrow>
          (case tk_sync tk of
             None \<Rightarrow>
               (case tk_todo tk of
                  [] \<Rightarrow> st\<lparr> ts_tasks := dict_del n (ts_tasks st) \<rparr>
                | a # todo \<Rightarrow> perform (av_app av) n a todo st)
           | Some py \<Rightarrow>
               (case py_listing py of
                  None \<Rightarrow> st
                | Some listing \<Rightarrow>
                    (let app = ov_app (ts_gateway st); w = ov_world (ts_gateway st);
                         (ok, rg) = finish_sync (ae_outside (av_app av)) (py_sid py) (py_orphan py) listing w (ox_registry (app_ox app))
                     in (set_app (set_registry rg app) w st)
                          \<lparr> ts_tasks := dict_put n (tk\<lparr> tk_sync := None \<rparr>) (ts_tasks st) \<rparr>))))"
| "task_step av commit st (Listed n listing) =
     (case dict_get (ts_tasks st) n of
        None \<Rightarrow> st
      | Some tk \<Rightarrow>
          (case tk_sync tk of
             None \<Rightarrow> st
           | Some py \<Rightarrow>
               if py_listing py \<noteq> None then st
               else (let app = ov_app (ts_gateway st); w = ov_world (ts_gateway st);
                         rg = report_reply (ae_outside (av_app av)) (py_sid py) (\<not> isl listing) w (ox_registry (app_ox app))
                     in (set_app (set_registry rg app) w st)
                          \<lparr> ts_tasks := dict_put n (tk\<lparr> tk_sync := Some (py\<lparr> py_listing := Some listing \<rparr>) \<rparr>) (ts_tasks st) \<rparr>)))"

definition no_tasks :: "('w, 'c, 's, 'd) overlap \<Rightarrow> ('w, 'c, 's, 'd) tasks" where
  "no_tasks g = \<lparr> ts_gateway = g, ts_tasks = [], ts_ended = [] \<rparr>"

section \<open>What every step keeps\<close>

lemma set_app_simps [simp]:
  "ov_app (ts_gateway (set_app app w st)) = app" "ov_world (ts_gateway (set_app app w st)) = w"
  "ts_tasks (set_app app w st) = ts_tasks st" "ts_ended (set_app app w st) = ts_ended st"
  by (simp_all add: set_app_def)

lemma set_registry_simps [simp]:
  "ox_registry (app_ox (set_registry rg app)) = rg" "ox_audit (app_ox (set_registry rg app)) = ox_audit (app_ox app)"
  by (simp_all add: set_registry_def)

lemma perform_gateway:
  assumes "act ae a (ov_app (ts_gateway st)) (ov_world (ts_gateway st)) = (r, app, w)"
  shows "ts_gateway (perform ae n a todo st) = (ts_gateway st)\<lparr> ov_app := app, ov_world := w \<rparr>"
  using assms by (simp add: perform_def set_app_def Let_def split: acted.splits)

context registry_quiet begin

lemma begin_listing_guarantee: "begin_listing os sid rg w = (a, rg') \<Longrightarrow> R rg rg'"
  by (auto simp: begin_listing_def split: prod.splits sync_begun.splits
      dest: begin_sync_guarantee intro: trans finish_sync_guarantee [OF prod.collapse [symmetric]])

lemma listed_keeps: "keeps R (app_ox app) (app_ox (set_registry (report_reply os sid ok w (ox_registry (app_ox app))) app))"
  by (rule keeps_registry) (rule answered)

lemma finished_keeps:
  "finish_sync os sid orphan listing w (ox_registry (app_ox app)) = (ok, rg) \<Longrightarrow> keeps R (app_ox app) (app_ox (set_registry rg app))"
  by (rule keeps_registry) (rule finish_sync_guarantee)

end

context registry_guarantee begin

lemma act_keeps:
  assumes os: "ae_outside ae = os" and "act ae a app w = (r, app', w')"
  shows "keeps R (app_ox app) (app_ox app')"
proof (cases a)
  case (Drop sid)
  then show ?thesis using assms(2) by (auto simp: os split: prod.splits dest: deregister_guarantee intro!: keeps_registry)
next
  case (Enter server)
  obtain rg w1 where e: "register_entry os server (ox_registry (app_ox app)) w = (rg, w1)" by fastforce
  then have "R (ox_registry (app_ox app)) rg" using enter [of "ox_registry (app_ox app)" server w] by simp
  then show ?thesis using assms(2) Enter e
    by (auto simp: os split: prod.splits if_splits dest!: begin_listing_guarantee intro!: keeps_registry intro: trans)
next
  case (Sync sid)
  then show ?thesis using assms(2) by (auto simp: os split: prod.splits dest: begin_listing_guarantee intro!: keeps_registry)
next
  case (Replace server)
  then show ?thesis using assms(2)
    by (auto simp: keeps_same entry_names_def split: option.splits intro!: keeps_registry change)
next
  case (Policies cfg)
  then show ?thesis using assms(2)
    by (auto simp: install_policies_def Let_def split: prod.splits sum.splits intro!: keeps_same)
next
  case (Commit cfg res)
  then show ?thesis using assms(2) by (auto simp: Let_def intro!: keeps_same)
qed

lemma perform_keeps:
  assumes "ae_outside ae = os"
  shows "keeps R (app_ox (ov_app (ts_gateway st))) (app_ox (ov_app (ts_gateway (perform ae n a todo st))))"
proof -
  obtain r app w where a: "act ae a (ov_app (ts_gateway st)) (ov_world (ts_gateway st)) = (r, app, w)" by (rule prod_cases3)
  then show ?thesis using act_keeps [OF assms a] by (simp add: perform_gateway)
qed

lemma task_step_keeps:
  assumes os: "ae_outside (av_app av) = os"
  shows "keeps R (app_ox (ov_app (ts_gateway st))) (app_ox (ov_app (ts_gateway (task_step av commit st ev))))"
proof (cases ev)
  case (Calls e)
  then show ?thesis by (simp add: keeps_same overlap_step_keeps [OF os])
next
  case (Started n rq)
  then show ?thesis by (simp add: keeps_same split: sum.splits)
next
  case (Stepped n)
  then show ?thesis
    by (auto simp: keeps_same os Let_def perform_keeps [OF os] split: option.splits list.splits prod.splits dest!: finished_keeps)
next
  case (Listed n listing)
  then show ?thesis by (simp add: keeps_same os listed_keeps Let_def split: option.splits)
qed

lemma task_run_keeps:
  assumes "ae_outside (av_app av) = os"
  shows "keeps R (app_ox (ov_app (ts_gateway st))) (app_ox (ov_app (ts_gateway (run_events (task_step av commit) st evs))))"
proof (induction evs arbitrary: st)
  case (Cons ev evs)
  then show ?case using task_step_keeps [OF assms, of st commit ev] trans by (fastforce simp: keeps_def)
qed (simp add: keeps_same)

end

definition tasks_started :: "('c, 's) server_registry \<Rightarrow> ('w, 'c, 's, 'd) tasks \<Rightarrow> bool" where
  "tasks_started rg st \<longleftrightarrow> overlap_started rg (ts_gateway st)"

definition tasks_ok :: "('c, 's) server_registry \<Rightarrow> ('w, 'c, 's, 'd) tasks \<Rightarrow> bool" where
  "tasks_ok rg st \<longleftrightarrow> overlap_ok rg (ts_gateway st)"

interpretation tasking: det_machine "tasks_started rg" "task_step av commit" "tasks_ok rg"
  for rg :: "('c, 's) server_registry" and av :: "('w, 'c, 's, 'k, 'd) api_env"
    and commit :: "audit_entry list \<Rightarrow> 'd \<Rightarrow> (string + unit) \<times> 'd"
proof unfold_locales
  fix st :: "('w, 'c, 's, 'd) tasks"
  show "tasks_ok rg st" if "tasks_started rg st"
    using that overlapping.start by (auto simp: tasks_started_def tasks_ok_def)
  show "tasks_ok rg (task_step av commit st ev)" if "tasks_ok rg st" for ev
    using that naming.task_step_keeps [OF refl, of st av commit ev] thresholds.task_step_keeps [OF refl, of st av commit ev]
      same_thresholds_trans by (auto simp: tasks_ok_def overlap_ok_def keeps_def gateway_ok_def)
qed

section \<open>What the actions do to the configured servers\<close>

type_synonym servers = "string \<rightharpoonup> upstream_server"

definition servers_of :: "('c, 's) server_registry \<Rightarrow> servers" where
  "servers_of rg = (\<lambda>sid. map_option re_server (dict_get (rg_entries rg) sid))"

abbreviation servers_in :: "('w, 'c, 's, 'd) tasks \<Rightarrow> servers" where
  "servers_in st \<equiv> servers_of (ox_registry (app_ox (ov_app (ts_gateway st))))"

fun on_servers :: "task_action \<Rightarrow> servers \<Rightarrow> servers" where
  \<comment> \<open>what an action means for the servers, whatever becomes of clients, tools and breakers\<close>
  "on_servers (Drop sid) m = m(sid := None)"
| "on_servers (Enter server) m = m(us_id server \<mapsto> server)"
| "on_servers (Replace server) m = (if m (us_id server) = None then m else m(us_id server \<mapsto> server))"
| "on_servers _ m = m"

lemma servers_of_simps [simp]:
  "servers_of (put_entry sid e rg) = (servers_of rg)(sid \<mapsto> re_server e)"
  "servers_of (report_reply os sid ok w rg) = servers_of rg"
  "servers_of (rg\<lparr> rg_cb := cr \<rparr>) = servers_of rg"
  by (auto simp: servers_of_def dict.get_put)

lemma servers_of_link [simp]:
  "dict_get (rg_entries rg) sid = Some e \<Longrightarrow> servers_of (store_link sid e lk rg) = servers_of rg"
  by (auto simp: servers_of_def dict.get_put)

interpretation servers: registry_quiet os "\<lambda>rg rg'. servers_of rg' = servers_of rg" for os :: "('w, 'c, 's) outside"
  by unfold_locales (auto simp: servers_of_def fun_eq_iff dict.get_put)

lemma act_servers:
  assumes "act ae a app w = (r, app', w')"
  shows "servers_of (ox_registry (app_ox app')) = on_servers a (servers_of (ox_registry (app_ox app)))"
proof (cases a)
  case (Drop sid)
  then show ?thesis using assms deregister_frame by (fastforce simp: servers_of_def fun_eq_iff split: prod.splits)
next
  case (Enter server)
  obtain rg w1 where e: "register_entry (ae_outside ae) server (ox_registry (app_ox app)) w = (rg, w1)" by fastforce
  then have "servers_of rg = (servers_of (ox_registry (app_ox app)))(us_id server \<mapsto> server)"
    by (auto simp: register_entry_def Let_def new_entry_def)
  then show ?thesis using assms Enter e
    by (auto split: prod.splits if_splits dest!: servers.begin_listing_guarantee)
next
  case (Sync sid)
  then show ?thesis using assms by (auto split: prod.splits dest: servers.begin_listing_guarantee)
next
  case (Replace server)
  then show ?thesis using assms by (auto simp: servers_of_def fun_eq_iff dict.get_put split: option.splits)
qed (use assms in \<open>auto simp: install_policies_def Let_def split: prod.splits sum.splits\<close>)

lemma quiet_servers:
  "quiet_overlap ev \<Longrightarrow> servers_of (ox_registry (app_ox (ov_app (overlap_step av commit g ev)))) = servers_of (ox_registry (app_ox (ov_app g)))"
  using servers.quiet_overlap_keeps [OF refl, of ev g av commit] by (simp add: keeps_def)

section \<open>A reload while nothing else changes the servers\<close>

fun undisturbed :: "('w, 'c, 's) task_event \<Rightarrow> bool" where
  \<comment> \<open>calls, sweeps, answers and synchronisations, but no registration, removal or second reload\<close>
  "undisturbed (Calls ev) \<longleftrightarrow> quiet_overlap ev"
| "undisturbed (Started n rq) \<longleftrightarrow> (case rq of Synchronisation sid \<Rightarrow> True | _ \<Rightarrow> False)"
| "undisturbed _ \<longleftrightarrow> True"

definition todos :: "('w, 'c, 's, 'd) tasks \<Rightarrow> nat \<rightharpoonup> task_action list" where
  "todos st = (\<lambda>n. map_option tk_todo (dict_get (ts_tasks st) n))"

fun touches :: "task_action \<Rightarrow> bool" where
  \<comment> \<open>an action on the registry: it ends no task\<close>
  "touches (Policies cfg) \<longleftrightarrow> False"
| "touches (Commit cfg res) \<longleftrightarrow> False"
| "touches _ \<longleftrightarrow> True"

lemma untouched: "list_all (\<lambda>a. \<not> touches a) as \<Longrightarrow> fold on_servers as m = m"
proof (induction as arbitrary: m)
  case (Cons a as)
  then show ?case by (cases a) simp_all
qed simp

lemma act_ends: "act ae a app w = (r, app', w') \<Longrightarrow> touches a \<Longrightarrow> \<exists>sid. r \<in> {GoesOn, Waits sid}"
  by (cases a) (auto simp: begin_listing_def split: prod.splits option.splits if_splits sync_begun.splits)

lemma map_second: "dict_get (map (\<lambda>(m, tk). (m, f tk)) d) n = map_option f (dict_get d n)"
  by (simp add: map_of_map)

lemma orphan_task_todo [simp]: "tk_todo (orphan_task a rg tk) = tk_todo tk"
  by (simp add: orphan_task_def)

lemma perform_todos:
  assumes "dict_get (ts_tasks st) n = Some tk"
  shows "todos (perform ae n a todo st) = (todos st)(n \<mapsto> todo) \<or>
    (\<not> touches a \<and> todos (perform ae n a todo st) = (todos st)(n := None))"
proof -
  obtain r app w where a: "act ae a (ov_app (ts_gateway st)) (ov_world (ts_gateway st)) = (r, app, w)" by (rule prod_cases3)
  show ?thesis using a act_ends [OF a]
    by (cases r) (auto simp: perform_def todos_def fun_eq_iff dict.get_put dict.get_del map_second option.map_comp comp_def)
qed

lemma perform_servers: "servers_in (perform ae n a todo st) = on_servers a (servers_in st)"
proof -
  obtain r app w where a: "act ae a (ov_app (ts_gateway st)) (ov_world (ts_gateway st)) = (r, app, w)" by (rule prod_cases3)
  then show ?thesis using act_servers [OF a] by (simp add: perform_gateway)
qed

lemma undisturbed_cases:
  assumes "undisturbed ev"
  obtains (idle) "servers_in (task_step av commit st ev) = servers_in st" "todos (task_step av commit st ev) = todos st"
    | (begun) n sid where "servers_in (task_step av commit st ev) = servers_in st" "todos st n = None"
        "todos (task_step av commit st ev) = (todos st)(n \<mapsto> [Sync sid])"
    | (ended) n where "servers_in (task_step av commit st ev) = servers_in st" "todos st n = Some []"
        "todos (task_step av commit st ev) = (todos st)(n := None)"
    | (acted) n a todo where "todos st n = Some (a # todo)" "servers_in (task_step av commit st ev) = on_servers a (servers_in st)"
        "todos (task_step av commit st ev) = (todos st)(n \<mapsto> todo)"
    | (stopped) n a todo where "todos st n = Some (a # todo)" "servers_in (task_step av commit st ev) = on_servers a (servers_in st)"
        "\<not> touches a" "todos (task_step av commit st ev) = (todos st)(n := None)"
proof (cases ev)
  case (Calls e)
  then have "servers_in (task_step av commit st ev) = servers_in st" "todos (task_step av commit st ev) = todos st"
    using assms by (simp_all add: todos_def quiet_servers)
  then show ?thesis by (rule idle)
next
  case (Started n rq)
  then obtain sid where "rq = Synchronisation sid" using assms by (cases rq) auto
  note ev = Started this
  show ?thesis
  proof (cases "n \<in> set (dict_keys (ts_tasks st))")
    case True
    then have "task_step av commit st ev = st" using ev by simp
    then show ?thesis using idle by simp
  next
    case False
    then show ?thesis using ev by (intro begun [of n sid]) (auto simp: todos_def fun_eq_iff dict.get_put map_of_eq_None_iff)
  qed
next
  case (Stepped n)
  show ?thesis
  proof (cases "dict_get (ts_tasks st) n")
    case None
    then show ?thesis using Stepped idle by simp
  next
    case (Some tk)
    show ?thesis
    proof (cases "tk_sync tk")
      case None
      show ?thesis
      proof (cases "tk_todo tk")
        case Nil
        then show ?thesis using Stepped Some None by (intro ended [of n]) (auto simp: todos_def fun_eq_iff dict.get_del)
      next
        case (Cons a todo)
        then have t: "todos st n = Some (a # todo)" using Some by (simp add: todos_def)
        show ?thesis using perform_todos [OF Some, of "av_app av" a todo] acted [OF t] stopped [OF t]
          by (auto simp: Stepped Some None Cons perform_servers)
      qed
    next
      case (Some py)
      then show ?thesis using Stepped \<open>dict_get (ts_tasks st) n = Some tk\<close>
        by (intro idle)
          (auto simp: todos_def Let_def fun_eq_iff dict.get_put split: option.splits prod.splits dest!: servers.finish_sync_guarantee)
    qed
  qed
next
  case (Listed n listing)
  then show ?thesis
    by (intro idle) (auto simp: todos_def Let_def fun_eq_iff dict.get_put split: option.splits)
qed

fun settles :: "task_action list \<Rightarrow> bool" where
  \<comment> \<open>nothing touches the registry after an action that can end the task\<close>
  "settles [] \<longleftrightarrow> True"
| "settles (a # as) \<longleftrightarrow> (if touches a then settles as else list_all (\<lambda>a. \<not> touches a) as)"

lemma settles_untouched: "list_all (\<lambda>a. \<not> touches a) as \<Longrightarrow> settles as"
  by (induction as) auto

lemma settles_append: "list_all touches as \<Longrightarrow> settles (as @ bs) \<longleftrightarrow> settles bs"
  by (induction as) auto

abbreviation only_syncs :: "task_action list \<Rightarrow> bool" where
  "only_syncs \<equiv> list_all (\<lambda>a. \<exists>sid. a = Sync sid)"

definition reloading :: "nat \<Rightarrow> task_action list \<Rightarrow> servers \<Rightarrow> ('w, 'c, 's, 'd) tasks \<Rightarrow> bool" where
  \<comment> \<open>the servers are what the actions done so far make of those at the start\<close>
  "reloading n plan m0 st \<longleftrightarrow>
     (\<exists>done todo. plan = done @ todo \<and> settles todo \<and> todos st n = Some todo \<and> servers_in st = fold on_servers done m0) \<and>
     (\<forall>m todo. m \<noteq> n \<longrightarrow> todos st m = Some todo \<longrightarrow> only_syncs todo)"

definition reloaded :: "task_action list \<Rightarrow> servers \<Rightarrow> ('w, 'c, 's, 'd) tasks \<Rightarrow> bool" where
  "reloaded plan m0 st \<longleftrightarrow>
     servers_in st = fold on_servers plan m0 \<and> (\<forall>m todo. todos st m = Some todo \<longrightarrow> only_syncs todo)"

lemma reloaded_step:
  assumes "reloaded plan m0 st" and "undisturbed ev"
  shows "reloaded plan m0 (task_step av commit st ev)"
  using assms(2)
proof (cases rule: undisturbed_cases [where av = av and commit = commit and st = st])
  case (acted n a todo)
  then have "only_syncs (a # todo)" using assms(1) unfolding reloaded_def by blast
  then show ?thesis using assms(1) acted(2,3) by (auto simp: reloaded_def)
next
  case (stopped n a todo)
  then have "only_syncs (a # todo)" using assms(1) unfolding reloaded_def by blast
  then show ?thesis using stopped(3) by auto
qed (use assms(1) in \<open>auto simp: reloaded_def\<close>)

lemma reloading_step:
  assumes r: "reloading n plan m0 st" and "undisturbed ev"
  shows "reloading n plan m0 (task_step av commit st ev) \<or> reloaded plan m0 (task_step av commit st ev)"
proof -
  obtain "done" todo where d: "plan = done @ todo" "settles todo" "todos st n = Some todo" "servers_in st = fold on_servers done m0"
    using r unfolding reloading_def by blast
  have o: "only_syncs as" if "m \<noteq> n" "todos st m = Some as" for m as using r that unfolding reloading_def by blast
  show ?thesis
    using assms(2)
  proof (cases rule: undisturbed_cases [where av = av and commit = commit and st = st])
    case idle
    then show ?thesis using r by (simp add: reloading_def)
  next
    case (begun m sid)
    then show ?thesis using r d(3) by (auto simp: reloading_def)
  next
    case (ended m)
    then show ?thesis using d o by (cases "m = n") (auto simp: reloading_def reloaded_def)
  next
    case (acted m a as)
    show ?thesis
    proof (cases "m = n")
      case True
      then have "plan = (done @ [a]) @ as" "settles as" "servers_in (task_step av commit st ev) = fold on_servers (done @ [a]) m0"
        using acted d by (auto simp: settles_untouched split: if_splits)
      moreover have "todos (task_step av commit st ev) n = Some as" using acted True by simp
      ultimately have "\<exists>done todo. plan = done @ todo \<and> settles todo \<and> todos (task_step av commit st ev) n = Some todo \<and>
          servers_in (task_step av commit st ev) = fold on_servers done m0" by blast
      then show ?thesis using o acted(3) True by (auto simp: reloading_def)
    next
      case False
      then have "only_syncs (a # as)" using o acted(1) by blast
      then show ?thesis using r acted(2,3) False by (auto simp: reloading_def)
    qed
  next
    case (stopped m a as)
    have "m = n"
    proof (rule ccontr)
      assume "m \<noteq> n"
      then have "only_syncs (a # as)" using stopped(1) by (rule o)
      then show False using stopped(3) by auto
    qed
    then have "servers_in (task_step av commit st ev) = fold on_servers plan m0"
      using stopped d by (simp add: untouched)
    then show ?thesis using stopped(4) \<open>m = n\<close> o by (auto simp: reloaded_def)
  qed
qed

lemma reloading_run:
  assumes "reloading n plan m0 st \<or> reloaded plan m0 st" and "list_all undisturbed evs"
  shows "reloading n plan m0 (run_events (task_step av commit) st evs) \<or> reloaded plan m0 (run_events (task_step av commit) st evs)"
  using assms
proof (induction evs arbitrary: st)
  case (Cons ev evs)
  have ev: "undisturbed ev" using Cons.prems(2) by simp
  have "reloading n plan m0 (task_step av commit st ev) \<or> reloaded plan m0 (task_step av commit st ev)"
    using Cons.prems(1) by (rule disjE) (rule reloading_step [OF _ ev], assumption, rule disjI2, rule reloaded_step [OF _ ev])
  then show ?case using Cons.IH Cons.prems(2) by simp
qed simp

section \<open>What the plan of a reload does to one server\<close>

fun concerns :: "string \<Rightarrow> task_action \<Rightarrow> bool" where
  "concerns sid (Drop sid') \<longleftrightarrow> sid' = sid"
| "concerns sid (Enter server) \<longleftrightarrow> us_id server = sid"
| "concerns sid (Replace server) \<longleftrightarrow> us_id server = sid"
| "concerns sid _ \<longleftrightarrow> False"

lemma on_servers_local: "m sid = m' sid \<Longrightarrow> on_servers a m sid = on_servers a m' sid"
  by (cases a) (simp_all split: if_split, metis)

lemma fold_local: "m sid = m' sid \<Longrightarrow> fold on_servers as m sid = fold on_servers as m' sid"
proof (induction as arbitrary: m m')
  case (Cons a as)
  then have "on_servers a m sid = on_servers a m' sid" by (intro on_servers_local)
  then have "fold on_servers as (on_servers a m) sid = fold on_servers as (on_servers a m') sid" by (rule Cons.IH)
  then show ?case by simp
qed simp

lemma fold_concerning: "fold on_servers as m sid = fold on_servers (filter (concerns sid) as) m sid"
proof (induction as arbitrary: m)
  case (Cons a as)
  have "on_servers a m sid = m sid" if "\<not> concerns sid a" using that by (cases a) auto
  then show ?case using Cons.IH [of m] Cons.IH [of "on_servers a m"] fold_local [of "on_servers a m" sid m as] by (cases "concerns sid a") simp_all
qed simp

lemma drops_concerning:
  "distinct sids \<Longrightarrow> filter (concerns sid) (map Drop sids) = (if sid \<in> set sids then [Drop sid] else [])"
  by (induction sids) auto

lemma server_plan_concerns: "a \<in> set (server_plan olds s) \<Longrightarrow> concerns sid a \<longleftrightarrow> us_id s = sid"
  by (auto simp: server_plan_def split: option.splits if_splits)

lemma server_plans_concerning:
  "distinct (map us_id servers) \<Longrightarrow> filter (concerns sid) (concat (map (server_plan olds) servers)) =
     (case find (\<lambda>s. us_id s = sid) servers of None \<Rightarrow> [] | Some s \<Rightarrow> server_plan olds s)"
proof (induction servers)
  case (Cons s servers)
  have "find (\<lambda>x. us_id x = us_id s) servers = None" using Cons.prems by (simp add: find_key_None)
  moreover have "filter (concerns sid) (server_plan olds s) = (if us_id s = sid then server_plan olds s else [])"
    using server_plan_concerns [of _ olds s sid] by (auto simp: filter_id_conv filter_empty_conv)
  ultimately show ?case using Cons by auto
qed simp

lemma reload_plan_concerning:
  assumes "iterates_sets iter" and "distinct (map us_id (gc_upstreams cfg))"
  shows "filter (concerns sid) (reload_plan iter olds cfg) =
    (case find (\<lambda>s. us_id s = sid) (gc_upstreams cfg) of
       None \<Rightarrow> if sid \<in> us_id ` set olds then [Drop sid] else []
     | Some s \<Rightarrow> server_plan olds s)"
proof -
  let ?gone = "us_id ` set olds - us_id ` set (gc_upstreams cfg)"
  have "set (iter ?gone) = ?gone" "distinct (iter ?gone)" using assms(1) by (simp_all add: iterates_sets_def)
  moreover have "find (\<lambda>s. us_id s = sid) (gc_upstreams cfg) = None \<longleftrightarrow> sid \<notin> us_id ` set (gc_upstreams cfg)"
    by (simp add: find_key_None)
  ultimately show ?thesis
    by (auto simp: reload_plan_def Let_def drops_concerning server_plans_concerning [OF assms(2)] split: option.splits)
qed

lemma reload_plan_settles: "settles (reload_plan iter olds cfg)"
proof -
  have "list_all touches (server_plan olds s)" for s
    by (auto simp: server_plan_def split: option.splits)
  then have "list_all touches (concat (map (server_plan olds) servers))" for servers
    by (induction servers) auto
  moreover have "list_all touches (map Drop sids)" for sids by (induction sids) auto
  ultimately show ?thesis by (simp add: reload_plan_def Let_def settles_append)
qed

definition reload_target :: "upstream_server list \<Rightarrow> gateway_config \<Rightarrow> string \<Rightarrow> upstream_server option \<Rightarrow> upstream_server option" where
  \<comment> \<open>what the new configuration makes of the server registered under an id\<close>
  "reload_target olds cfg sid before =
     (case find (\<lambda>s. us_id s = sid) (gc_upstreams cfg) of
        None \<Rightarrow> if sid \<in> us_id ` set olds then None else before
      | Some s \<Rightarrow> if kept olds s \<and> before = None then None else Some s)"

definition moved :: "upstream_server list \<Rightarrow> gateway_config \<Rightarrow> string \<Rightarrow> bool" where
  \<comment> \<open>configured before and now, with another URL or transport\<close>
  "moved olds cfg sid \<longleftrightarrow>
     (\<exists>s \<in> set (gc_upstreams cfg). us_id s = sid \<and> sid \<in> us_id ` set olds \<and> \<not> kept olds s)"

lemma found_server: "find (\<lambda>s. us_id s = sid) servers = Some s \<Longrightarrow> s \<in> set servers \<and> us_id s = sid"
  by (induction servers) (auto split: if_splits)

lemma server_plan_cases:
  obtains (keep) "kept olds s" "server_plan olds s = [Replace s]"
    | (move) "\<not> kept olds s" "us_id s \<in> us_id ` set olds" "server_plan olds s = [Drop (us_id s), Enter s]"
    | (add) "\<not> kept olds s" "server_plan olds s = [Enter s]"
proof (cases "find (\<lambda>x. us_id x = us_id s) olds")
  case None
  then show ?thesis by (intro add) (simp_all add: kept_def server_plan_def)
next
  case (Some old)
  then have "us_id s \<in> us_id ` set olds" using found_server [OF Some] by (auto intro: rev_image_eqI)
  then show ?thesis using Some keep move by (cases "kept olds s") (auto simp: kept_def server_plan_def)
qed

lemma append_eq_short:
  "xs @ ys = [] \<longleftrightarrow> xs = [] \<and> ys = []" "xs @ ys = [a] \<longleftrightarrow> (xs = [] \<and> ys = [a]) \<or> (xs = [a] \<and> ys = [])"
  "xs @ ys = [a, b] \<longleftrightarrow> (xs = [] \<and> ys = [a, b]) \<or> (xs = [a] \<and> ys = [b]) \<or> (xs = [a, b] \<and> ys = [])"
  by (auto simp: append_eq_Cons_conv)

lemma plan_on_server:
  assumes "iterates_sets iter" and "distinct (map us_id (gc_upstreams cfg))" and p: "reload_plan iter olds cfg = done @ todo"
  shows "fold on_servers done m sid \<in> {m sid, reload_target olds cfg sid (m sid)} \<or>
      (fold on_servers done m sid = None \<and> moved olds cfg sid)"
    and "todo = [] \<Longrightarrow> fold on_servers done m sid = reload_target olds cfg sid (m sid)"
proof -
  let ?xs = "filter (concerns sid) done" and ?ys = "filter (concerns sid) todo"
  have c: "?xs @ ?ys =
      (case find (\<lambda>s. us_id s = sid) (gc_upstreams cfg) of
         None \<Rightarrow> if sid \<in> us_id ` set olds then [Drop sid] else []
       | Some s \<Rightarrow> server_plan olds s)"
    using reload_plan_concerning [OF assms(1,2), of sid olds] by (simp add: p)
  have "(fold on_servers ?xs m sid \<in> {m sid, reload_target olds cfg sid (m sid)} \<or>
        (fold on_servers ?xs m sid = None \<and> moved olds cfg sid)) \<and>
      (?ys = [] \<longrightarrow> fold on_servers ?xs m sid = reload_target olds cfg sid (m sid))"
  proof (cases "find (\<lambda>s. us_id s = sid) (gc_upstreams cfg)")
    case None
    then show ?thesis using c by (auto simp: reload_target_def append_eq_short split: if_splits)
  next
    case (Some s)
    then have s: "s \<in> set (gc_upstreams cfg)" "us_id s = sid" using found_server by blast+
    have c: "?xs @ ?ys = server_plan olds s" using c Some by simp
    show ?thesis
    proof (cases rule: server_plan_cases [of olds s])
      case keep
      then show ?thesis using c s Some by (auto simp: reload_target_def append_eq_short)
    next
      case move
      then have "moved olds cfg sid" using s unfolding moved_def by blast
      then show ?thesis using c s Some move by (auto simp: reload_target_def append_eq_short)
    next
      case add
      then show ?thesis using c s Some by (auto simp: reload_target_def append_eq_short)
    qed
  qed
  then show "fold on_servers done m sid \<in> {m sid, reload_target olds cfg sid (m sid)} \<or>
      (fold on_servers done m sid = None \<and> moved olds cfg sid)"
    and "todo = [] \<Longrightarrow> fold on_servers done m sid = reload_target olds cfg sid (m sid)"
    unfolding fold_concerning [of "done"] by simp_all
qed

section \<open>A task on its own\<close>

fun own :: "nat \<Rightarrow> ('w, 'c, 's) task_event \<Rightarrow> bool" where
  \<comment> \<open>a step of the task, an answer to it, or a turn of the network\<close>
  "own n (Stepped m) \<longleftrightarrow> m = n"
| "own n (Listed m listing) \<longleftrightarrow> m = n"
| "own n (Calls (Network sid c w)) \<longleftrightarrow> True"
| "own n _ \<longleftrightarrow> False"

definition own_steps ::
  "('w, 'c, 's, 'k, 'd) api_env \<Rightarrow> (audit_entry list \<Rightarrow> 'd \<Rightarrow> (string + unit) \<times> 'd) \<Rightarrow> nat \<Rightarrow>
   ('w, 'c, 's, 'd) tasks \<Rightarrow> ('w, 'c, 's, 'd) tasks \<Rightarrow> bool" where
  "own_steps av commit n st st' \<longleftrightarrow> (\<exists>evs. list_all (own n) evs \<and> st' = run_events (task_step av commit) st evs)"

lemma own_steps_trans: "own_steps av commit n a b \<Longrightarrow> own_steps av commit n b c \<Longrightarrow> own_steps av commit n a c"
  unfolding own_steps_def by (metis list_all_append run_events_append)

lemma own_steps_event: "own n ev \<Longrightarrow> own_steps av commit n st (task_step av commit st ev)"
  unfolding own_steps_def by (rule exI [of _ "[ev]"]) simp

lemma own_steps_refl [simp]: "own_steps av commit n st st"
  unfolding own_steps_def by (rule exI [of _ "[]"]) simp

definition solo ::
  "('w, 'c, 's, 'd) overlap \<Rightarrow> (nat \<times> (config_failure + reload_result)) list \<Rightarrow> nat \<Rightarrow> task_action list \<Rightarrow>
   ('c, 's) pending_sync option \<Rightarrow> ('c, 's) app_state \<Rightarrow> 'w \<Rightarrow> ('w, 'c, 's, 'd) tasks" where
  \<comment> \<open>a single task, with this much to do\<close>
  "solo g ended n todo py app w =
     \<lparr> ts_gateway = g\<lparr> ov_app := app, ov_world := w \<rparr>, ts_tasks = [(n, \<lparr> tk_todo = todo, tk_sync = py \<rparr>)], ts_ended = ended \<rparr>"

lemma solo_steps:
  "task_step av commit (solo g ended n todo py app w) (Calls (Network sid c w')) =
     solo g ended n todo py (set_registry (network_turn sid c (ox_registry (app_ox app))) app) w'"
  "task_step av commit (solo g ended n todo (Some \<lparr> py_sid = sid, py_listing = None, py_orphan = None \<rparr>) app w) (Listed n listing) =
     solo g ended n todo (Some \<lparr> py_sid = sid, py_listing = Some listing, py_orphan = None \<rparr>)
       (set_registry (report_reply (ae_outside (av_app av)) sid (\<not> isl listing) w (ox_registry (app_ox app))) app) w"
  "task_step av commit (solo g ended n todo (Some \<lparr> py_sid = sid, py_listing = Some listing, py_orphan = None \<rparr>) app w) (Stepped n) =
     solo g ended n todo None
       (set_registry (snd (finish_sync (ae_outside (av_app av)) sid None listing w (ox_registry (app_ox app)))) app) w"
  by (simp_all add: solo_def set_app_def set_ox_def set_registry_def Let_def split: prod.splits)

lemma solo_act:
  assumes "act (av_app av) a app w = (r, app', w')"
  shows "task_step av commit (solo g ended n (a # todo) None app w) (Stepped n) =
    (case r of
       GoesOn \<Rightarrow> solo g ended n todo None app' w'
     | Waits sid \<Rightarrow> solo g ended n todo (Some \<lparr> py_sid = sid, py_listing = None, py_orphan = None \<rparr>) app' w'
     | Fails e \<Rightarrow> \<lparr> ts_gateway = g\<lparr> ov_app := app', ov_world := w' \<rparr>, ts_tasks = [], ts_ended = (n, Inl e) # ended \<rparr>
     | Completes res \<Rightarrow> \<lparr> ts_gateway = g\<lparr> ov_app := app', ov_world := w' \<rparr>, ts_tasks = [], ts_ended = (n, Inr res) # ended \<rparr>)"
  using assms by (auto simp: solo_def perform_def set_app_def orphan_task_def Let_def split: acted.splits)

definition waiting :: "acted \<Rightarrow> ('c, 's) pending_sync option" where
  "waiting a = (case a of Waits sid \<Rightarrow> Some \<lparr> py_sid = sid, py_listing = None, py_orphan = None \<rparr> | _ \<Rightarrow> None)"

lemma set_registry_set [simp]:
  "set_registry rg (set_registry rg' app) = set_registry rg app" "set_registry (ox_registry (app_ox app)) app = app"
  by (simp_all add: set_registry_def)

lemma listing_turns:
  assumes re: "retries_as_documented (os_sdk (ae_outside (av_app av)))"
    and s: "sync_one (ae_outside (av_app av)) sid rg w = (ok, rg', w', ms)"
    and b: "begin_listing (ae_outside (av_app av)) sid rg w = (a, rg1)"
  shows "own_steps av commit n (solo g ended n todo (waiting a) (set_registry rg1 app) w)
    (solo g ended n todo None (set_registry rg' app) w')"
proof (cases "\<exists>e. dict_get (rg_entries rg) sid = Some e \<and> us_enabled (re_server e)")
  case False
  then have "rg' = rg" "w' = w" "rg1 = rg" "a = GoesOn"
    using s b by (auto simp: sync_one_def begin_listing_def begin_sync_def split: option.splits)
  then show ?thesis by (simp add: waiting_def)
next
  case True
  let ?os = "ae_outside (av_app av)"
  obtain e where e: "dict_get (rg_entries rg) sid = Some e" "us_enabled (re_server e)" using True by blast
  obtain listing lk3 where l: "list_tools (os_sdk ?os) (link_of rg sid e w) = (listing, lk3)" by fastforce
  obtain q lk1 where q: "gate (os_sdk ?os) (link_of rg sid e w) = (q, lk1)" by fastforce
  have f: "snd (finish_sync ?os sid None listing w' (store_link sid e lk3 rg)) = rg'" "w' = lk_world lk3"
    using s e l by (auto simp: sync_one_def finish_sync_def Let_def dict.get_put)
  show ?thesis
  proof (cases q)
    case (Inl exc)
    then have "listing = Inl exc" "lk3 = lk1" using l q by (auto simp: list_tools_def guarded_call_def)
    moreover have "lk_world lk1 = w" using gate_keeps [OF q] by (simp add: link_of_def)
    ultimately have "rg1 = rg'" "w' = w" "a = GoesOn"
      using f e q Inl b by (auto simp: begin_listing_def begin_sync_def)
    then show ?thesis by (simp add: waiting_def)
  next
    case (Inr u)
    obtain c2 w2 where t: "network_turn sid (lk_client lk3) (report_reply ?os sid (\<not> isl listing) w2
        (network_turn sid c2 (store_link sid e lk1 rg))) = store_link sid e lk3 rg"
      using sync_one_turns [OF re e q [unfolded Inr] l] by blast
    have b': "rg1 = store_link sid e lk1 rg" "a = Waits sid"
      using b e q Inr by (auto simp: begin_listing_def begin_sync_def)
    let ?evs = "[Calls (Network sid c2 w2), Listed n listing, Calls (Network sid (lk_client lk3) w'), Stepped n]"
    have "run_events (task_step av commit) (solo g ended n todo (waiting a) (set_registry rg1 app) w) ?evs =
        solo g ended n todo None (set_registry rg' app) w'"
      by (simp add: solo_steps b' waiting_def t f(1) del: task_step.simps)
    then show ?thesis unfolding own_steps_def by (intro exI [of _ ?evs]) simp
  qed
qed

lemma drop_turns:
  assumes "deregister (ae_outside (av_app av)) sid (ox_registry (app_ox app)) w = (b, rg', w', ms)"
  shows "own_steps av commit n (solo g ended n (Drop sid # todo) None app w) (solo g ended n todo None (set_registry rg' app) w')"
  using own_steps_event [of n "Stepped n" av commit "solo g ended n (Drop sid # todo) None app w"] assms
  by (simp add: solo_act del: task_step.simps)

lemma enter_turns:
  assumes re: "retries_as_documented (os_sdk (ae_outside (av_app av)))"
    and r: "register (ae_outside (av_app av)) server True (ox_registry (app_ox app)) w = (rg', w', ms)"
  shows "own_steps av commit n (solo g ended n (Enter server # todo) None app w) (solo g ended n todo None (set_registry rg' app) w')"
proof -
  let ?os = "ae_outside (av_app av)"
  obtain rg1 w1 where e: "register_entry ?os server (ox_registry (app_ox app)) w = (rg1, w1)" by fastforce
  have step: "own_steps av commit n (solo g ended n (Enter server # todo) None app w)
      (task_step av commit (solo g ended n (Enter server # todo) None app w) (Stepped n))"
    by (rule own_steps_event) simp
  show ?thesis
  proof (cases "us_enabled server")
    case False
    then show ?thesis using step r e by (auto simp: register_def solo_act simp del: task_step.simps)
  next
    case True
    obtain ok rg2 w2 ms2 where s: "sync_one ?os (us_id server) rg1 w1 = (ok, rg2, w2, ms2)" by (rule prod_cases4)
    then have rg': "rg' = rg2" "w' = w2" using r e True by (auto simp: register_def)
    obtain a rg3 where b: "begin_listing ?os (us_id server) rg1 w1 = (a, rg3)" by fastforce
    then have "a = GoesOn \<or> (\<exists>sid. a = Waits sid)"
      by (auto simp: begin_listing_def split: prod.splits sync_begun.splits)
    then have "task_step av commit (solo g ended n (Enter server # todo) None app w) (Stepped n) =
        solo g ended n todo (waiting a) (set_registry rg3 app) w1"
      using e b True by (auto simp: solo_act waiting_def simp del: task_step.simps)
    then show ?thesis
      using own_steps_trans [OF step] listing_turns [OF re s b] unfolding rg' by metis
  qed
qed

lemma drops_turns:
  assumes "deregister_all (ae_outside (av_app av)) sids (ox_registry (app_ox app)) w = (rg', w', ms)"
  shows "own_steps av commit n (solo g ended n (map Drop sids @ todo) None app w) (solo g ended n todo None (set_registry rg' app) w')"
  using assms
proof (induction sids arbitrary: app w ms)
  case Nil
  then show ?case by auto
next
  case (Cons sid sids)
  obtain b rg1 w1 ms1 where d: "deregister (ae_outside (av_app av)) sid (ox_registry (app_ox app)) w = (b, rg1, w1, ms1)"
    by (rule prod_cases4)
  obtain ms2 where "deregister_all (ae_outside (av_app av)) sids (ox_registry (app_ox (set_registry rg1 app))) w1 = (rg', w', ms2)"
    using Cons.prems d by (auto split: prod.splits)
  from Cons.IH [OF this] show ?case using own_steps_trans [OF drop_turns [OF d]] by simp
qed

lemma server_turns:
  assumes re: "retries_as_documented (os_sdk (ae_outside (av_app av)))"
    and r: "reload_upstream (ae_outside (av_app av)) olds added changed s (ox_registry (app_ox app)) w = (rg', w', ms)"
    and c: "us_id s \<in> added \<longleftrightarrow> us_id s \<notin> us_id ` set olds" "us_id s \<in> changed \<longleftrightarrow> us_id s \<in> us_id ` set olds"
  shows "own_steps av commit n (solo g ended n (server_plan olds s @ todo) None app w) (solo g ended n todo None (set_registry rg' app) w')"
proof (cases "find (\<lambda>x. us_id x = us_id s) olds")
  case None
  then have "server_plan olds s = [Enter s]" by (simp add: server_plan_def)
  moreover have "us_id s \<in> added" using None c(1) by (simp add: find_key_None)
  ultimately show ?thesis using enter_turns [OF re] r by (simp add: reload_upstream_def)
next
  case (Some old)
  then have n: "us_id s \<notin> added" "us_id s \<in> changed" using c find_key_None [of us_id "us_id s" olds] by auto
  show ?thesis
  proof (cases "us_base_url old \<noteq> us_base_url s \<or> us_transport old \<noteq> us_transport s")
    case True
    obtain b rg1 w1 ms1 where d: "deregister (ae_outside (av_app av)) (us_id s) (ox_registry (app_ox app)) w = (b, rg1, w1, ms1)"
      by (rule prod_cases4)
    obtain ms2 where "register (ae_outside (av_app av)) s True (ox_registry (app_ox (set_registry rg1 app))) w1 = (rg', w', ms2)"
      using r n Some True d by (auto simp: reload_upstream_def split: prod.splits)
    from enter_turns [OF re this] show ?thesis
      using own_steps_trans [OF drop_turns [OF d]] Some True by (simp add: server_plan_def)
  next
    case False
    then have "server_plan olds s = [Replace s]" using Some by (simp add: server_plan_def)
    then show ?thesis
      using own_steps_event [of n "Stepped n" av commit "solo g ended n (Replace s # todo) None app w"] r n Some False
      by (auto simp: solo_act reload_upstream_def set_registry_def split: option.splits simp del: task_step.simps)
  qed
qed

lemma servers_turns:
  assumes re: "retries_as_documented (os_sdk (ae_outside (av_app av)))"
    and "reload_upstreams (ae_outside (av_app av)) olds added changed servers (ox_registry (app_ox app)) w = (rg', w', ms)"
    and "\<And>s. s \<in> set servers \<Longrightarrow> (us_id s \<in> added \<longleftrightarrow> us_id s \<notin> us_id ` set olds) \<and>
           (us_id s \<in> changed \<longleftrightarrow> us_id s \<in> us_id ` set olds)"
  shows "own_steps av commit n (solo g ended n (concat (map (server_plan olds) servers) @ todo) None app w)
    (solo g ended n todo None (set_registry rg' app) w')"
  using assms(2,3)
proof (induction servers arbitrary: app w ms)
  case Nil
  then show ?case by auto
next
  case (Cons s servers)
  obtain rg1 w1 ms1 where r: "reload_upstream (ae_outside (av_app av)) olds added changed s (ox_registry (app_ox app)) w = (rg1, w1, ms1)"
    by (rule prod_cases3)
  obtain ms2 where "reload_upstreams (ae_outside (av_app av)) olds added changed servers (ox_registry (app_ox (set_registry rg1 app))) w1 =
      (rg', w', ms2)"
    using Cons.prems(1) r by (auto split: prod.splits)
  from Cons.IH [OF this] Cons.prems(2) show ?case
    using own_steps_trans [OF server_turns [OF re r]] by simp
qed

lemma finishing_turns:
  assumes "case install_policies (av_app av) cfg app of
      (Fails e, app1) \<Rightarrow> app' = app1 \<and> r = Inl e
    | (_, app1) \<Rightarrow> act (av_app av) (Commit cfg res) app1 w = (Completes (projr r), app', w) \<and> r = Inr (projr r)"
  shows "own_steps av commit n (solo g ended n [Policies cfg, Commit cfg res] None app w)
    \<lparr> ts_gateway = g\<lparr> ov_app := app', ov_world := w \<rparr>, ts_tasks = [], ts_ended = (n, r) # ended \<rparr>"
proof -
  obtain a app1 where p: "install_policies (av_app av) cfg app = (a, app1)" by fastforce
  have first: "own_steps av commit n (solo g ended n [Policies cfg, Commit cfg res] None app w)
      (task_step av commit (solo g ended n [Policies cfg, Commit cfg res] None app w) (Stepped n))"
    by (rule own_steps_event) simp
  have last: "own_steps av commit n (solo g ended n [Commit cfg res] None app1 w)
      (task_step av commit (solo g ended n [Commit cfg res] None app1 w) (Stepped n))"
    by (rule own_steps_event) simp
  have "(\<exists>e. a = Fails e) \<or> a = GoesOn" using p by (auto simp: install_policies_def Let_def split: sum.splits)
  then show ?thesis
  proof
    assume "\<exists>e. a = Fails e"
    then show ?thesis using first p assms by (auto simp: solo_act simp del: task_step.simps)
  next
    assume "a = GoesOn"
    then show ?thesis using own_steps_trans [OF first] last p assms
      by (auto simp: solo_act simp del: task_step.simps act.simps(6))
  qed
qed

section \<open>Properties\<close>

text \<open>C26. A reload is a task: run without other events in between, its actions, the answers of the servers and turns of the
  network leave the application, the outside and the result of the reload done in one step, failures included, and no
  task.\<close>

theorem reload_runs_as_task:
  assumes re: "retries_as_documented (os_sdk (ae_outside (av_app av)))"
    and d: "do_reload (av_app av) (ov_app g) (ov_world g) = (r, app', w', ms)"
  shows "\<exists>evs. list_all (own n) evs \<and>
    run_events (task_step av commit) (no_tasks g) (Started n Reload # evs) =
      \<lparr> ts_gateway = g\<lparr> ov_app := app', ov_world := w' \<rparr>, ts_tasks = [], ts_ended = [(n, r)] \<rparr>"
proof (cases "load_config (av_app av) (app_settings (ov_app g)) (ov_world g)")
  case (Inl e)
  then show ?thesis using d by (intro exI [of _ "[]"]) (simp add: no_tasks_def do_reload_def)
next
  case (Inr cfg)
  let ?ae = "av_app av" and ?app = "ov_app g" and ?w = "ov_world g"
  let ?old = "us_id ` set (gc_upstreams (app_config ?app))" and ?new = "us_id ` set (gc_upstreams cfg)"
  let ?res = "\<lparr> rr_reloaded_at = [], rr_added = ae_iter ?ae (?new - ?old), rr_removed = ae_iter ?ae (?old - ?new),
     rr_updated = ae_iter ?ae (?old \<inter> ?new) \<rparr>"
  let ?last = "[Policies cfg, Commit cfg ?res]"
  obtain rg1 w1 ms1 ms2 where
    d1: "deregister_all (ae_outside ?ae) (ae_iter ?ae (?old - ?new)) (ox_registry (app_ox ?app)) ?w = (rg1, w1, ms1)" and
    d2: "reload_upstreams (ae_outside ?ae) (gc_upstreams (app_config ?app)) (?new - ?old) (?old \<inter> ?new) (gc_upstreams cfg) rg1 w1 =
       (ox_registry (app_ox app'), w', ms2)"
    by (rule do_reload_parts [OF d Inr])
  let ?app2 = "set_registry (ox_registry (app_ox app')) ?app"
  have "own_steps av commit n (solo g [] n (reload_plan (ae_iter ?ae) (gc_upstreams (app_config ?app)) cfg) None ?app ?w)
      (solo g [] n ?last None ?app2 w')"
    using own_steps_trans [OF drops_turns [OF d1] servers_turns [OF re, of _ _ _ _ "set_registry rg1 ?app"]] d2
    by (fastforce simp: reload_plan_def)
  moreover have "own_steps av commit n (solo g [] n ?last None ?app2 w')
      \<lparr> ts_gateway = g\<lparr> ov_app := app', ov_world := w' \<rparr>, ts_tasks = [], ts_ended = [(n, r)] \<rparr>"
    using d d1 d2 Inr
    by (intro finishing_turns)
      (auto simp: do_reload_def install_policies_def set_registry_def Let_def split: sum.splits)
  ultimately have "own_steps av commit n (solo g [] n (reload_plan (ae_iter ?ae) (gc_upstreams (app_config ?app)) cfg) None ?app ?w)
      \<lparr> ts_gateway = g\<lparr> ov_app := app', ov_world := w' \<rparr>, ts_tasks = [], ts_ended = [(n, r)] \<rparr>" by (rule own_steps_trans)
  moreover have "task_step av commit (no_tasks g) (Started n Reload) =
      solo g [] n (reload_plan (ae_iter ?ae) (gc_upstreams (app_config ?app)) cfg) None ?app ?w"
    using Inr by (simp add: no_tasks_def solo_def)
  ultimately show ?thesis unfolding own_steps_def by auto
qed


text \<open>C5. From startup on the gateway stays well formed however calls, requests, sweeps, answers, reloads, registrations,
  removals and synchronisations are interleaved, at every point where one of them waits: one entry per id, under its
  own id, no qualified name twice unless the policy is \<open>suffix\<close>, the audit queue within its bound, and the naming rule
  and the breaker thresholds those of startup.\<close>

theorem gateway_with_tasks_stays_well_formed:
  assumes "startup (av_app av) create_all settings w0 d0 = (Inr app, w, d, ms)"
    and "st = run_events (task_step av commit) (no_tasks (idle_gateway app w d)) evs"
    and "ox = app_ox (ov_app (ts_gateway st))"
  shows "registry_ok (ox_registry ox) \<and>
    (nc_on_conflict (gc_naming (app_config app)) \<noteq> Suffix \<longrightarrow> names_unique (ox_registry ox)) \<and>
    (\<forall>s. ox_audit ox = Some s \<longrightarrow> length (as_queue s) \<le> 10000) \<and>
    rg_naming (ox_registry ox) = gc_naming (app_config app) \<and>
    cr_failure_threshold (rg_cb (ox_registry ox)) = cp_failure_threshold (gc_circuit_breaker (app_config app)) \<and>
    cr_recovery_timeout (rg_cb (ox_registry ox)) = cp_recovery_timeout (gc_circuit_breaker (app_config app))"
proof -
  note s = startup_ok [OF assms(1)]
  have "tasks_ok (ox_registry (app_ox app)) st"
    unfolding assms(2)
    by (rule tasking.run_from_init) (simp add: tasks_started_def overlap_started_def no_tasks_def idle_gateway_def s)
  then show ?thesis using s
    by (auto simp: assms(3) tasks_ok_def overlap_ok_def gateway_ok_def same_thresholds_def same_policy_def audit_bounded_def
        QUEUE_MAX_def registry_ok_def)
qed

text \<open>While a reload closes the old webhook client, tool calls are already decided by the new access rule and filters, and
  agents are still identified, and a further reload still compares, with the old configuration.\<close>

theorem policies_precede_identification:
  assumes "act ae (Policies cfg) app w = (GoesOn, app', w')"
  shows "ox_authorizer (app_ox app') = new_authorizer (gc_auth cfg) \<and> app_authorizer app' = app_authorizer app \<and>
    app_config app' = app_config app \<and> ox_webhooks (app_ox app') = ox_webhooks (app_ox app)"
  using assms by (auto simp: install_policies_def Let_def split: prod.splits sum.splits)

section \<open>A gateway that reloads while it serves\<close>

abbreviation serving_pg :: "(nat, nat, nat, unit) overlap" where
  "serving_pg \<equiv> idle_gateway running 1 ()"

definition two_files :: "(nat, nat, nat) app_env" where
  \<comment> \<open>the configuration file is edited: at time 1 it has one server more than later\<close>
  "two_files = (app_env_for (with_servers [pg_server]))
     \<lparr> ae_read_file := (\<lambda>w path. Some (if w = 1 then ''one'' else ''two'')), ae_safe_load := (\<lambda>text. Inr (JStr text)),
       ae_parse_fields := (\<lambda>doc. Inr (with_servers
         (if doc = JStr ''one'' then [tagged_pg, upstream ''gh'' ''GitHub'' ''http://gh''] else [pg_server]))) \<rparr>"

definition two_files_api :: "(nat, nat, nat, jdict, unit) api_env" where
  "two_files_api = demo_api\<lparr> av_app := two_files \<rparr>"

definition reload_among_queries :: "(nat, nat, nat) task_event list" where
  \<comment> \<open>a call is begun, and answered, while the reload waits for the tools of the new server\<close>
  "reload_among_queries =
     [Stepped 0, Stepped 0, Calls (begin_query 1 5), Calls (Answer 1 (Inr (JStr ''a''))), Listed 0 (Inr []), Stepped 0,
      Stepped 0, Stepped 0]"

definition later :: "(nat, nat, nat) task_event" where
  "later = Calls (Network ''none'' (new_mcp_client (\<lambda>v. None) pg_server) 2)"

definition overlapping_reloads :: "(nat, nat, nat) task_event list" where
  \<comment> \<open>the second reload reads the file before the first has ended, and ends after it\<close>
  "overlapping_reloads =
     [Started 0 Reload, later, Started 1 Reload, Stepped 0, Stepped 0, Listed 0 (Inr []), Stepped 0, Stepped 0, Stepped 0,
      Stepped 1, Stepped 1, Stepped 1]"

text \<open>Reloads do not exclude one another. When a second one reads the file before the first has ended, both compare with the
  configuration of before: a server that only the first file has stays registered under the second configuration.\<close>

theorem overlapping_reloads_leave_a_server:
  "let st = run_events (task_step two_files_api keep_rows) (no_tasks serving_pg) overlapping_reloads
   in ts_tasks st = [] \<and> map fst (ts_ended st) = [1, 0] \<and>
      map us_id (gc_upstreams (app_config (ov_app (ts_gateway st)))) = [''pg''] \<and> servers_in st ''gh'' \<noteq> None"
  by code_simp

lemma two_files_load:
  "load_config two_files st 1 = Inr (with_servers [tagged_pg, upstream ''gh'' ''GitHub'' ''http://gh''])"
proof -
  have "us_id tagged_pg \<noteq> us_id (upstream ''gh'' ''GitHub'' ''http://gh'')" by (simp add: demo_ids) (simp add: upstream_def)
  then show ?thesis
    by (simp add: load_config_def load_gateway_config_def two_files_def model_validate_def with_servers_def
        unique_ids_iff [THEN iffD2])
qed

lemma reload_among_queries_run:
  "let st = run_events (task_step two_files_api keep_rows) (no_tasks serving_pg) (Started 0 Reload # reload_among_queries)
   in ts_tasks st = [] \<and> map fst (ov_flights (ts_gateway st)) = [1]"
  by code_simp


theorem reload_runs_as_task_witness:
  "\<exists>evs r. list_all (own 0) evs \<and>
     ts_ended (run_events (task_step demo_api keep_rows) (no_tasks serving_pg) (Started 0 Reload # evs)) = [(0, r)]"
proof -
  have re: "retries_as_documented (os_sdk (ae_outside (av_app demo_api)))"
    by (simp add: retries_as_documented_def demo_api_def app_env_for_def demo_env_def serving_def demo_sdk_def)
  obtain r app' w' ms where "do_reload (av_app demo_api) (ov_app serving_pg) (ov_world serving_pg) =
      (r, app', w', ms)" by (rule prod_cases4)
  from reload_runs_as_task [OF re this, of 0 keep_rows] show ?thesis by (metis tasks.select_convs(3))
qed

theorem gateway_with_tasks_stays_well_formed_witness:
  "\<exists>app w d ms. startup (av_app two_files_api) id default_settings 1 () = (Inr app, w, d, ms) \<and>
     names_unique (ox_registry (app_ox (ov_app (ts_gateway
       (run_events (task_step two_files_api keep_rows) (no_tasks (idle_gateway app w d)) overlapping_reloads)))))"
proof -
  obtain r w d ms where s: "startup (av_app two_files_api) id default_settings 1 () = (r, w, d, ms)" by (rule prod_cases4)
  have l: "load_config (av_app two_files_api) default_settings 1 = Inr (with_servers [tagged_pg, upstream ''gh'' ''GitHub'' ''http://gh''])"
    by (simp add: two_files_api_def two_files_load del: One_nat_def)
  obtain app where r: "r = Inr app" "app_config app = with_servers [tagged_pg, upstream ''gh'' ''GitHub'' ''http://gh'']"
    using s l by (auto simp: startup_def build_components_def demo_ids start_store_def split: prod.splits)
  have "nc_on_conflict (gc_naming (app_config app)) \<noteq> Suffix"
    by (simp add: r(2) with_servers_def default_gateway_config_def default_naming_def)
  then show ?thesis
    using gateway_with_tasks_stays_well_formed [OF s [unfolded r(1)] refl refl, of keep_rows overlapping_reloads] s r(1) by blast
qed

theorem policies_precede_identification_witness:
  "\<exists>app'. fst (snd (act two_files (Policies (with_servers [])) running 1)) = app' \<and> app_authorizer app' = app_authorizer running"
proof -
  obtain a app' w' where a: "act two_files (Policies (with_servers [])) running 1 = (a, app', w')" by (rule prod_cases3)
  then have "a = GoesOn" by (auto simp: install_policies_def demo_ids Let_def)
  from policies_precede_identification [OF a [unfolded this]] show ?thesis using a by simp
qed

end
