(* ===== verification/Wire_Models.thy ===== *)
theory Wire_Models
  imports Json_Values
begin

text \<open>
  The JSON-RPC envelope and the error body of \<open>app/models/mcp.py\<close>: a record per class, the validation that makes an
  object of a dict, and \<open>model_dump\<close>. No other module of the gateway uses these classes yet.

  Validation is pydantic's: a field takes values of its type as they are, an absent one gets its default, all problems are
  reported together in the order of the fields, and what is left over is kept where the class says
  \<open>extra="allow"\<close> and dropped elsewhere. The values of other types that pydantic turns into an integer are a parameter,
  \<open>lax\<close>.

  The contract \<open>wire_model\<close> says that an object read from a dict is read back from its dump. Both envelopes carry
  fields they do not know through unchanged.
\<close>

section \<open>Fields\<close>

datatype wire_error =
    Missing string
  | WrongValue string

definition read_field :: "string \<Rightarrow> (json \<Rightarrow> 'a option) \<Rightarrow> 'a option \<Rightarrow> jdict \<Rightarrow> wire_error + 'a" where
  "read_field name takes fallback d =
     (case dict_get d name of
        None \<Rightarrow> (case fallback of None \<Rightarrow> Inl (Missing name) | Some v \<Rightarrow> Inr v)
      | Some j \<Rightarrow> (case takes j of None \<Rightarrow> Inl (WrongValue name) | Some v \<Rightarrow> Inr v))"

definition problem :: "wire_error + 'a \<Rightarrow> wire_error list" where
  "problem r = (case r of Inl e \<Rightarrow> [e] | Inr v \<Rightarrow> [])"

lemma problem_Nil [simp]: "problem r = [] \<longleftrightarrow> (\<exists>v. r = Inr v)"
  by (cases r) (simp_all add: problem_def)

fun take_version :: "json \<Rightarrow> unit option" where
  \<comment> \<open>\<open>Literal["2.0"]\<close>\<close>
  "take_version (JStr s) = (if s = ''2.0'' then Some () else None)"
| "take_version _ = None"

fun take_str :: "json \<Rightarrow> string option" where
  "take_str (JStr s) = Some s"
| "take_str _ = None"

fun take_dict :: "json \<Rightarrow> jdict option" where
  "take_dict (JDict d) = Some d"
| "take_dict _ = None"

fun take_int :: "(json \<Rightarrow> int option) \<Rightarrow> json \<Rightarrow> int option" where
  "take_int lax (JInt n) = Some n"
| "take_int lax j = lax j"

definition nullable :: "(json \<Rightarrow> 'a option) \<Rightarrow> json \<Rightarrow> 'a option option" where
  \<comment> \<open>\<open>T | None\<close>\<close>
  "nullable takes j = (if j = JNull then Some None else map_option Some (takes j))"

datatype rpc_id = IntId int | StrId string

fun take_id :: "(json \<Rightarrow> int option) \<Rightarrow> json \<Rightarrow> rpc_id option" where
  \<comment> \<open>\<open>int | str\<close>: the exact type wins\<close>
  "take_id lax (JInt n) = Some (IntId n)"
| "take_id lax (JStr s) = Some (StrId s)"
| "take_id lax j = map_option IntId (lax j)"

fun id_json :: "rpc_id option \<Rightarrow> json" where
  "id_json None = JNull"
| "id_json (Some (IntId n)) = JInt n"
| "id_json (Some (StrId s)) = JStr s"

definition left_over :: "string list \<Rightarrow> jdict \<Rightarrow> jdict" where
  \<comment> \<open>\<open>model_extra\<close>\<close>
  "left_over names d = filter (\<lambda>(k, v). k \<notin> set names) d"

definition extra_ok :: "string list \<Rightarrow> jdict \<Rightarrow> bool" where
  "extra_ok names extra \<longleftrightarrow> distinct (dict_keys extra) \<and> set (dict_keys extra) \<inter> set names = {}"

section \<open>The classes\<close>

record jsonrpc_request =
  jq_id :: "rpc_id option"
  jq_method :: string
  jq_params :: jdict
  jq_extra :: jdict

definition request_fields :: "string list" where
  "request_fields = [''jsonrpc'', ''id'', ''method'', ''params'']"

definition parse_request :: "(json \<Rightarrow> int option) \<Rightarrow> jdict \<Rightarrow> wire_error list + jsonrpc_request" where
  "parse_request lax d =
     (let version = read_field ''jsonrpc'' take_version (Some ()) d;
          rid = read_field ''id'' (nullable (take_id lax)) (Some None) d;
          name = read_field ''method'' take_str None d;
          params = read_field ''params'' take_dict (Some []) d;
          errors = problem version @ problem rid @ problem name @ problem params
      in if errors \<noteq> [] then Inl errors
         else Inr \<lparr> jq_id = projr rid, jq_method = projr name, jq_params = projr params,
                    jq_extra = left_over request_fields d \<rparr>)"

definition dump_request :: "jsonrpc_request \<Rightarrow> jdict" where
  "dump_request rq =
     [(''jsonrpc'', JStr ''2.0''), (''id'', id_json (jq_id rq)), (''method'', JStr (jq_method rq)),
      (''params'', JDict (jq_params rq))] @ jq_extra rq"

record jsonrpc_error =
  je_code :: int
  je_message :: string
  je_data :: json                             \<comment> \<open>\<open>Any | None\<close>\<close>

definition parse_error :: "(json \<Rightarrow> int option) \<Rightarrow> jdict \<Rightarrow> wire_error list + jsonrpc_error" where
  "parse_error lax d =
     (let code = read_field ''code'' (take_int lax) None d;
          message = read_field ''message'' take_str None d;
          data = read_field ''data'' Some (Some JNull) d;
          errors = problem code @ problem message @ problem data
      in if errors \<noteq> [] then Inl errors
         else Inr \<lparr> je_code = projr code, je_message = projr message, je_data = projr data \<rparr>)"

definition dump_error :: "jsonrpc_error \<Rightarrow> jdict" where
  "dump_error e = [(''code'', JInt (je_code e)), (''message'', JStr (je_message e)), (''data'', je_data e)]"

record jsonrpc_response =
  js_id :: "rpc_id option"
  js_result :: json
  js_error :: "jsonrpc_error option"
  js_extra :: jdict

definition response_fields :: "string list" where
  "response_fields = [''jsonrpc'', ''id'', ''result'', ''error'']"

fun take_error :: "(json \<Rightarrow> int option) \<Rightarrow> json \<Rightarrow> jsonrpc_error option" where
  "take_error lax (JDict d) = (case parse_error lax d of Inl es \<Rightarrow> None | Inr e \<Rightarrow> Some e)"
| "take_error lax _ = None"

definition parse_response :: "(json \<Rightarrow> int option) \<Rightarrow> jdict \<Rightarrow> wire_error list + jsonrpc_response" where
  "parse_response lax d =
     (let version = read_field ''jsonrpc'' take_version (Some ()) d;
          rid = read_field ''id'' (nullable (take_id lax)) (Some None) d;
          res = read_field ''result'' Some (Some JNull) d;
          err = read_field ''error'' (nullable (take_error lax)) (Some None) d;
          errors = problem version @ problem rid @ problem res @ problem err
      in if errors \<noteq> [] then Inl errors
         else Inr \<lparr> js_id = projr rid, js_result = projr res, js_error = projr err, js_extra = left_over response_fields d \<rparr>)"

definition dump_response :: "jsonrpc_response \<Rightarrow> jdict" where
  "dump_response rs =
     [(''jsonrpc'', JStr ''2.0''), (''id'', id_json (js_id rs)), (''result'', js_result rs),
      (''error'', case js_error rs of None \<Rightarrow> JNull | Some e \<Rightarrow> JDict (dump_error e))] @ js_extra rs"

record error_response =
  er_error :: string
  er_detail :: "string option"
  er_code :: int

definition parse_error_response :: "(json \<Rightarrow> int option) \<Rightarrow> jdict \<Rightarrow> wire_error list + error_response" where
  "parse_error_response lax d =
     (let err = read_field ''error'' take_str None d;
          detail = read_field ''detail'' (nullable take_str) (Some None) d;
          code = read_field ''code'' (take_int lax) (Some 500) d;
          errors = problem err @ problem detail @ problem code
      in if errors \<noteq> [] then Inl errors
         else Inr \<lparr> er_error = projr err, er_detail = projr detail, er_code = projr code \<rparr>)"

definition dump_error_response :: "error_response \<Rightarrow> jdict" where
  "dump_error_response r =
     [(''error'', JStr (er_error r)), (''detail'', case er_detail r of None \<Rightarrow> JNull | Some s \<Rightarrow> JStr s),
      (''code'', JInt (er_code r))]"

section \<open>What a wire model promises\<close>

locale wire_model =
  fixes dump :: "'m \<Rightarrow> jdict"
    and parse :: "jdict \<Rightarrow> wire_error list + 'm"
    and ok :: "'m \<Rightarrow> bool"
  assumes parse_dump: "ok m \<Longrightarrow> parse (dump m) = Inr m"
    and parse_ok: "distinct (dict_keys d) \<Longrightarrow> parse d = Inr m \<Longrightarrow> ok m"
begin

lemma read_back: "distinct (dict_keys d) \<Longrightarrow> parse d = Inr m \<Longrightarrow> parse (dump m) = Inr m"
  by (rule parse_dump) (rule parse_ok)

lemma dump_injective:
  assumes "ok m" and "ok m'" and "dump m = dump m'"
  shows "m = m'"
  using arg_cong [OF assms(3), of parse] by (simp only: parse_dump [OF assms(1)] parse_dump [OF assms(2)] sum.inject)

end

lemma left_over_ok: "distinct (dict_keys d) \<Longrightarrow> extra_ok names (left_over names d)"
  by (auto simp: extra_ok_def left_over_def distinct_map intro: inj_on_subset)

lemma extra_absent: "extra_ok names extra \<Longrightarrow> k \<in> set names \<Longrightarrow> dict_get extra k = None"
  by (auto simp: extra_ok_def map_of_eq_None_iff)

lemma left_over_extra: "extra_ok names extra \<Longrightarrow> left_over names extra = extra"
  by (auto simp: extra_ok_def left_over_def filter_id_conv intro: rev_image_eqI)

lemma left_over_get: "k \<notin> set names \<Longrightarrow> dict_get (left_over names d) k = dict_get d k"
  by (induction d) (auto simp: left_over_def)

lemma nullable_id [simp]: "nullable (take_id lax) (id_json i) = Some i"
  by (cases i rule: id_json.cases) (simp_all add: nullable_def)

interpretation error_object: wire_model dump_error "parse_error lax" "\<lambda>_. True" for lax
  by unfold_locales (simp_all add: parse_error_def dump_error_def read_field_def)

lemma nullable_error [simp]:
  "nullable (take_error lax) (case e of None \<Rightarrow> JNull | Some x \<Rightarrow> JDict (dump_error x)) = Some e"
  using error_object.parse_dump [where lax = lax] by (cases e) (simp_all add: nullable_def)

interpretation error_body: wire_model dump_error_response "parse_error_response lax" "\<lambda>_. True" for lax
  by unfold_locales
    (simp_all add: parse_error_response_def dump_error_response_def read_field_def nullable_def split: option.splits)

interpretation request: wire_model dump_request "parse_request lax" "\<lambda>rq. extra_ok request_fields (jq_extra rq)" for lax
proof unfold_locales
  show "parse_request lax (dump_request rq) = Inr rq" if "extra_ok request_fields (jq_extra rq)" for rq
    using left_over_extra [OF that]
    by (simp add: parse_request_def dump_request_def read_field_def request_fields_def left_over_def)
  show "extra_ok request_fields (jq_extra rq)" if "distinct (dict_keys d)" "parse_request lax d = Inr rq" for d rq
    using that left_over_ok [of d request_fields] by (auto simp: parse_request_def Let_def split: if_splits)
qed

interpretation response: wire_model dump_response "parse_response lax" "\<lambda>rs. extra_ok response_fields (js_extra rs)" for lax
proof unfold_locales
  show "parse_response lax (dump_response rs) = Inr rs" if "extra_ok response_fields (js_extra rs)" for rs
    using left_over_extra [OF that]
    by (simp add: parse_response_def dump_response_def read_field_def response_fields_def left_over_def)
  show "extra_ok response_fields (js_extra rs)" if "distinct (dict_keys d)" "parse_response lax d = Inr rs" for d rs
    using that left_over_ok [of d response_fields] by (auto simp: parse_response_def Let_def split: if_splits)
qed

section \<open>Properties\<close>


definition traced_call :: jdict where
  "traced_call = [(''method'', JStr ''tools/call''), (''id'', JInt 7), (''trace'', JStr ''t1'')]"

definition failed_answer :: jdict where
  "failed_answer = [(''id'', JInt 7), (''error'', JDict [(''code'', JInt (-32001)), (''message'', JStr ''open'')]), (''trace'', JStr ''t1'')]"

lemma wire_examples:
  "parse_request (\<lambda>j. None) traced_call =
     Inr \<lparr> jq_id = Some (IntId 7), jq_method = ''tools/call'', jq_params = [], jq_extra = [(''trace'', JStr ''t1'')] \<rparr>"
  "parse_response (\<lambda>j. None) failed_answer =
     Inr \<lparr> js_id = Some (IntId 7), js_result = JNull,
           js_error = Some \<lparr> je_code = -32001, je_message = ''open'', je_data = JNull \<rparr>, js_extra = [(''trace'', JStr ''t1'')] \<rparr>"
  by (simp_all add: traced_call_def failed_answer_def parse_request_def parse_response_def parse_error_def read_field_def nullable_def
      left_over_def request_fields_def response_fields_def)


text \<open>All problems of a message are reported together.\<close>

theorem every_problem_is_reported:
  assumes "dict_get d ''method'' = None" and "dict_get d ''params'' = Some (JList xs)"
    and "dict_get d ''jsonrpc'' = Some (JStr version)" and "version \<noteq> ''2.0''" and "dict_get d ''id'' = None"
  shows "parse_request lax d = Inl [WrongValue ''jsonrpc'', Missing ''method'', WrongValue ''params'']"
  using assms by (simp add: parse_request_def read_field_def problem_def)

theorem every_problem_is_reported_witness:
  "parse_request (\<lambda>j. None) [(''jsonrpc'', JStr ''1.0''), (''params'', JList [])] =
     Inl [WrongValue ''jsonrpc'', Missing ''method'', WrongValue ''params'']"
  by (rule every_problem_is_reported [of _ "[]" "''1.0''"]) simp_all

end
