(* ===== verification/Spec2Isabelle.thy ===== *)
theory Spec2Isabelle
  imports Upstream_Rate App_Wiring Logging Tasks Wire_Models
begin

text \<open>
  A model of the MCP gateway in \<open>app/\<close> (paths are relative to the repository's root), a FastAPI
  service that stands between AI agents and a set of upstream MCP servers. It identifies the calling agent,
  checks whether the call is permitted, limits its rate, filters its arguments, redacts what crosses it in
  either direction, forwards it under a circuit breaker, caches what may be cached, and records what happened.

  \<^bold>\<open>How the parts interact.\<close> \<open>main.py\<close> reads the configuration (\<open>config.py\<close>), builds the components and
  registers the configured servers. A request enters through \<open>api/middleware.py\<close>, which gives it its id, and
  \<open>api/dependencies.py\<close>, which checks the API key and identifies the agent; \<open>api/routes.py\<close> hands a tool
  call to the orchestrator. The orchestrator finds the server in the registry, asks the authorizer, the rate
  limiter, the guardrails and the schema validator in this order, redacts the arguments, looks in the cache,
  calls the client of the server, redacts the answer, stores it, and writes the audit record and the webhook
  events. A client goes through the circuit breaker that the registry keeps for its server, and gets its
  headers from an auth provider. \<open>admin/reload.py\<close> replaces the policies and brings the registry to a new
  configuration while requests are served.

  \<^bold>\<open>The theories\<close>, in the order they build on each other:

  \<^item> \<open>Gateway_Prelude\<close>: Python's ordered dicts, searches and loops that stop at the first failure,
    \<open>round\<close>, and step systems. The locale \<open>keyed_store\<close> is the contract of a dict, \<open>invariant_system\<close>
    and \<open>det_machine\<close> lift a one-step invariant to every reachable state and every run.
  \<^item> \<open>Json_Values\<close>: JSON values, truth, and the string methods the code uses.
  \<^item> \<open>Gateway_Config\<close>: \<open>config.py\<close>, a record per model class with its defaults, and the
    validation of a configuration.
  \<^item> \<open>Metrics\<close>: the counters and gauges of \<open>observability/metrics.py\<close>. An operation returns the updates
    it makes, so that lemmas can count them.
  \<^item> \<open>Pattern_Matching\<close>: the part of Python's \<open>re\<close> that the built-in redaction patterns use, with its
    backtracking order, and the theory of substitution: no match of a pattern is left after it has been
    replaced, and none of another is created.
  \<^item> \<open>Circuit_Breaker\<close>: \<open>transport/circuit_breaker.py\<close>: the state machine, its refinement of the documented
    four transitions, exactly when it trips, that it recovers, and what its half-open state lets through.
  \<^item> \<open>Auth_Provider\<close>: \<open>transport/auth_provider.py\<close>: the three providers behind one contract
    (\<open>header_source\<close>), the token that is cached and refreshed, the expansion of \<open>${VAR}\<close>.
  \<^item> \<open>Mcp_Client\<close>: \<open>transport/mcp_client.py\<close>: sessions, attempts and retries, how results reach the
    circuit breaker, and what happens to a connection that dies or never completes its handshake.
  \<^item> \<open>Oidc\<close>: \<open>middleware/oidc.py\<close>: the key set cache and the validation of bearer tokens.
  \<^item> \<open>Auth\<close>: \<open>middleware/auth.py\<close>: identification and the access rule, with a declarative reading of the
    rule (\<open>allowed\<close>).
  \<^item> \<open>Rate_Limit\<close>: \<open>middleware/ratelimit.py\<close>: token buckets with exact rational time; the bound on what an
    agent can send in any window, the exactness of the reported wait, and the isolation of buckets.
  \<^item> \<open>Guardrails\<close>: \<open>guardrails/safety.py\<close> and \<open>guardrails/schema_validator.py\<close>: the rules as a declarative
    predicate, which rule is reported, and what the validator reports.
  \<^item> \<open>Redaction\<close>: \<open>middleware/redaction.py\<close>: the Presidio pass and the regular expressions, applied to every
    string inside a value.
  \<^item> \<open>Tool_Cache\<close>: \<open>cache/tool_cache.py\<close>: the store with expiry behind the contract \<open>ttl_map\<close>, the manifest
    and the results.
  \<^item> \<open>Registry\<close>: \<open>registry/registry.py\<close>: entries, synchronisation and the names tools get. Its invariant
    \<open>registry_ok\<close> holds in every state the registry can reach.
  \<^item> \<open>Registry_Turns\<close>: synchronisations that overlap. \<open>sync_one\<close> is split where it waits for the tools of the server, and
    the registry becomes a machine in which listings under way, answers, breaker traffic and all operations
    interleave; a synchronisation takes effect in one piece, in the order the answers are written. The locale
    \<open>registry_quiet\<close> is what a relation between an earlier and a later registry needs to hold along calls, sweeps and
    synchronisations, and \<open>registry_guarantee\<close>, which extends it, along any run; their interpretations (\<open>naming\<close>,
    \<open>thresholds\<close>, \<open>breakers\<close>, \<open>servers\<close>) are used by all theories that change the registry.
  \<^item> \<open>Audit_Log\<close>: \<open>audit/models.py\<close> and \<open>audit/store.py\<close>: the bounded queue, the flush, the query.
  \<^item> \<open>Webhooks\<close>: \<open>webhooks/dispatcher.py\<close>: selection, signing, and the retries of a delivery.
  \<^item> \<open>Orchestrator\<close>: \<open>orchestrator/orchestrator.py\<close>: the whole path of a call with everything it changes.
  \<^item> \<open>Lifecycle\<close>: \<open>main.py\<close> and \<open>admin/reload.py\<close>: startup, health sweep, shutdown, reload.
  \<^item> \<open>Api\<close>: \<open>api/\<close>: every route and the middleware, and the gateway as a machine whose steps are
    requests, health sweeps, hangup signals and flushes of the audit queue.
  \<^item> \<open>Overlap\<close>: calls that overlap. A call is split at the one place where it waits, and the gateway becomes a
    machine in which calls in flight, answers, turns of the network and all other events interleave. The split calls
    refine those of \<open>Orchestrator\<close>; what is in flight was admitted, and is answered and audited once.
  \<^item> \<open>Tasks\<close>: \<open>admin/reload.py\<close> once more, without assuming that a reload is one step. Reloads, registrations, removals
    and synchronisations are tasks, lists of actions that give up the event loop wherever the code waits, and the gateway
    is the machine in which the actions of all tasks and the events of \<open>Overlap\<close> interleave. A task that runs alone is
    the operation of \<open>Lifecycle\<close>; the gateway stays well formed under every interleaving; the servers a reload does not
    change are in place at every moment of it; and two reloads that overlap can leave a server behind.
  \<^item> \<open>Upstream_Rate\<close>: the rate limiter and the overlapping calls together: how many calls of one agent reach upstream
    servers in a window.
  \<^item> \<open>App_Wiring\<close>: the route declarations of \<open>api/routes.py\<close>, \<open>create_app\<close> and \<open>run\<close> of \<open>main.py\<close>; that each
    endpoint is reached under its own path and answers with the type its route declares.
  \<^item> \<open>Logging\<close>: \<open>observability/logging.py\<close>: the processor chain and the context that log lines of a
    request carry.
  \<^item> \<open>Wire_Models\<close>: the JSON-RPC envelopes and the error body of \<open>models/mcp.py\<close>, read from a dict and written to one,
    behind the contract \<open>wire_model\<close>.

  \<^bold>\<open>How the code's notions are rendered.\<close> A class is a \<open>record\<close>, and a method a function that takes it and
  returns it updated; a method that can raise returns a sum whose left side is the exception, and an exception
  that the code does not catch goes all the way up to the response. Dicts are association lists in insertion order,
  since several components depend on that order. Integers are Python's, unbounded; floats are exact rationals: the
  rounding of float operations is left out. Times are readings passed as arguments, so that nothing is
  assumed about clocks unless a statement says so. What the code does outside itself (the SDK, HTTP, the
  database, regular expressions of the operator, JSON Schema, Presidio, JWT, environment, digests) is a record of functions over
  a state \<open>'w\<close> of the world, and its exceptions are values; hypotheses about these functions are stated by name in the
  statements that use them (\<open>writes_batches\<close>, \<open>retries_as_documented\<close>, \<open>iterates_sets\<close>, \<open>matches_segments\<close>).

  \<^bold>\<open>Order and concurrency.\<close> The gateway is one event loop. Operations that run without an
  \<open>await\<close> that waits, or under a lock, are single steps. A tool call waits once, for its upstream server:
  \<open>Orchestrator\<close> and \<open>Api\<close> give its effect as one step, \<open>Overlap\<close> as two with anything in between. A synchronisation
  waits once as well, for the tools of its server: \<open>Registry\<close> has it as one step, \<open>Registry_Turns\<close> as two, over all
  operations of the registry. A reload waits for the servers it registers and for the closing of clients:
  \<open>Lifecycle\<close> has it as one step, \<open>Tasks\<close> as many, with anything in between. Where the order of completions is not determined
  (the synchronisation of all servers, the iteration of a set) the order is a parameter.

  \<^bold>\<open>Recursion and bounds.\<close> Every function is total. Recursion is structural, apart from the
  substitution of patterns and the expansion of variables, whose measure is the text left to read, and the
  attempts of a delivery, which count down from the configured number. No fuel is used. The audit queue has
  the code's bound of 10000 records and batches of 50.

  \<^bold>\<open>What the statements show.\<close> The first ones are about the whole program: nothing reaches an upstream
  server without the key, an identity, the access rule, the limits, the guardrails and the schema; only redacted
  data crosses; every call is audited once, apart from the exits that are named; the state stays well formed
  through every interleaving of calls, requests, sweeps and flushes with the steps of reloads and registrations. The others are the contracts of the components,
  and, where the code departs from its own documentation, what it does instead.

  \<^bold>\<open>Not modelled.\<close> The log calls themselves, since nothing reads the lines back, and the rendering by structlog;
  the exposition text of \<open>GET /metrics\<close>; what calls in flight do to the session they share, which is left to the turns of
  the network; the types other than integers that pydantic reads as one, a parameter of \<open>Wire_Models\<close>; the accessors of \<open>api/dependencies.py\<close> that return a
  component of the application state; the parsing of YAML and of HTTP requests and what CORS and uvicorn do with the
  options they are given, which are parameters or behaviour of the libraries. What is left of the source beside that
  is module documentation, imports and the creation of loggers.
\<close>

end
